(* ===== verification/Prelude.thy ===== *)
theory Prelude
  imports Main "HOL-Library.Word" "HOL-Library.Sublist"
begin

text \<open>
  Shared vocabulary of the development: the outcome of a Go computation, the
  type names used by every component, the fact collections the component
  proofs draw on, and the generic lemmas on lists, options and sums that more
  than one component needs.
\<close>

section \<open>Outcomes of Go computations\<close>

text \<open>
  A Go function returns, panics (an index out of range, a nil map write, a
  slice bound) or runs forever. A function of the source that can only return
  is a plain HOL function; the others return a value of this type.
\<close>

datatype 'a go = Ret 'a | Panic | Diverge

text \<open>Sequencing: a panic or a divergence of the first part is the outcome of the whole.\<close>

fun go_bind :: "'a go \<Rightarrow> ('a \<Rightarrow> 'b go) \<Rightarrow> 'b go" where
  "go_bind (Ret x) f = f x"
| "go_bind Panic f = Panic"
| "go_bind Diverge f = Diverge"

text \<open>Reading a slice at an index: Go panics out of range.\<close>

definition go_index :: "'a list \<Rightarrow> nat \<Rightarrow> 'a go" where
  "go_index xs i = (if i < length xs then Ret (xs ! i) else Panic)"

section \<open>Type names\<close>

text \<open>
  A Go string or byte slice is a list of bytes. A \<open>time.Time\<close> is its Unix
  time in nanoseconds, with None for the zero time; a \<open>time.Duration\<close> is its
  number of nanoseconds.
\<close>

type_synonym gotime = "int option"
type_synonym duration = int
type_synonym byte = "8 word"

text \<open>An error value of Go is its message, wrapped by the component's own error type.\<close>

type_synonym ('e, 'a) result = "'e + 'a"

section \<open>Fact collections\<close>

named_theorems lb_simps \<open>how the load balancer operations act on their state\<close>
named_theorems lru_simps \<open>how the recency list operations act\<close>
named_theorems cache_invar \<open>operations that keep the disk cache's accounting invariant\<close>
named_theorems codec_simps \<open>reading back what the metadata encoder wrote\<close>

section \<open>Outcomes\<close>

lemma go_bind_Ret_iff:
  "go_bind m f = Ret y \<longleftrightarrow> (\<exists>x. m = Ret x \<and> f x = Ret y)"
  by (cases m) auto

lemma go_index_Ret [simp]: "i < length xs \<Longrightarrow> go_index xs i = Ret (xs ! i)"
  by (simp add: go_index_def)

lemma go_index_Panic [simp]: "length xs \<le> i \<Longrightarrow> go_index xs i = Panic"
  by (simp add: go_index_def)

section \<open>Lists\<close>

text \<open>Replacing an element by one with the same image leaves the mapped list alone.\<close>

lemma map_update_same:
  assumes "f y = f (xs ! i)"
  shows "map f (xs[i := y]) = map f xs"
  using assms by (metis list_update_id list_update_beyond map_update not_less)

lemma set_update_subset: "set (xs[i := y]) \<subseteq> insert y (set xs)"
  by (rule set_update_subset_insert)

end
