(* ===== verification/GoStd.thy ===== *)
theory GoStd
  imports Prelude
begin

text \<open>
  The parts of Go's standard library the sources call: package \<open>strings\<close>,
  \<open>strconv\<close>, \<open>net.SplitHostPort\<close> and \<open>net.JoinHostPort\<close>. Strings are byte
  strings. Case mapping and white space are those of ASCII: bytes above 127 are
  neither letters nor space here, where Go decodes them as UTF-8 first.
\<close>

section \<open>Package strings\<close>

definition HasPrefix :: "string \<Rightarrow> string \<Rightarrow> bool" where
  "HasPrefix s p \<longleftrightarrow> take (length p) s = p"

definition HasSuffix :: "string \<Rightarrow> string \<Rightarrow> bool" where
  "HasSuffix s p \<longleftrightarrow> length p \<le> length s \<and> drop (length s - length p) s = p"

definition TrimPrefix :: "string \<Rightarrow> string \<Rightarrow> string" where
  "TrimPrefix s p = (if HasPrefix s p then drop (length p) s else s)"

definition TrimSuffix :: "string \<Rightarrow> string \<Rightarrow> string" where
  "TrimSuffix s p = (if HasSuffix s p then take (length s - length p) s else s)"

text \<open>\<open>strings.Index\<close>: the first position of a substring; None where Go returns -1.\<close>

fun Index :: "string \<Rightarrow> string \<Rightarrow> nat option" where
  "Index [] sub = (if sub = [] then Some 0 else None)"
| "Index (c # s) sub =
     (if HasPrefix (c # s) sub then Some 0 else map_option Suc (Index s sub))"

definition Contains :: "string \<Rightarrow> string \<Rightarrow> bool" where
  "Contains s sub \<longleftrightarrow> Index s sub \<noteq> None"

text \<open>\<open>strings.Cut\<close>: the parts before and after the first separator; None where \<open>ok\<close> is false.\<close>

definition Cut :: "string \<Rightarrow> string \<Rightarrow> (string \<times> string) option" where
  "Cut s sep = map_option (\<lambda>i. (take i s, drop (i + length sep) s)) (Index s sep)"

text \<open>\<open>strings.Split\<close> and \<open>strings.SplitSeq\<close> on a one-byte separator.\<close>

fun SplitByte :: "string \<Rightarrow> char \<Rightarrow> string list" where
  "SplitByte [] c = [[]]"
| "SplitByte (x # s) c =
     (if x = c then [] # SplitByte s c
      else case SplitByte s c of [] \<Rightarrow> [[x]] | p # ps \<Rightarrow> (x # p) # ps)"

fun Join :: "string list \<Rightarrow> string \<Rightarrow> string" where
  "Join [] sep = []"
| "Join [s] sep = s"
| "Join (s # t # ss) sep = s @ sep @ Join (t # ss) sep"

definition is_space :: "char \<Rightarrow> bool" where
  "is_space c \<longleftrightarrow> of_char c \<in> {9, 10, 11, 12, 13, 32 :: nat}"

definition TrimSpace :: "string \<Rightarrow> string" where
  "TrimSpace s = rev (dropWhile is_space (rev (dropWhile is_space s)))"

definition lower_char :: "char \<Rightarrow> char" where
  "lower_char c =
     (let n = of_char c :: nat in if 65 \<le> n \<and> n \<le> 90 then char_of (n + 32) else c)"

definition upper_char :: "char \<Rightarrow> char" where
  "upper_char c =
     (let n = of_char c :: nat in if 97 \<le> n \<and> n \<le> 122 then char_of (n - 32) else c)"

definition ToLower :: "string \<Rightarrow> string" where
  "ToLower s = map lower_char s"

definition ToUpper :: "string \<Rightarrow> string" where
  "ToUpper s = map upper_char s"

text \<open>\<open>strings.Fields\<close>: the maximal runs of non-space bytes.\<close>

function Fields :: "string \<Rightarrow> string list" where
  "Fields s =
     (let t = dropWhile is_space s in
      if t = [] then [] else takeWhile (\<lambda>c. \<not> is_space c) t # Fields (dropWhile (\<lambda>c. \<not> is_space c) t))"
  by pat_completeness auto
termination
proof (relation "measure length", goal_cases)
  case 1
  then show ?case by simp
next
  case (2 s t)
  then obtain c u where t: "dropWhile is_space s = c # u" by (cases "dropWhile is_space s") auto
  then have "\<not> is_space c" by (metis hd_dropWhile list.distinct(1) list.sel(1))
  then have "length (dropWhile (\<lambda>c. \<not> is_space c) (c # u)) \<le> length u"
    by (simp add: length_dropWhile_le)
  also have "\<dots> < length s"
    using t length_dropWhile_le [of is_space s] by simp
  finally show ?case using 2 t by simp
qed

declare Fields.simps [simp del]

subsection \<open>Laws\<close>

lemma HasPrefix_iff: "HasPrefix s p \<longleftrightarrow> (\<exists>t. s = p @ t)"
  unfolding HasPrefix_def by (metis append_eq_conv_conj append_take_drop_id)

lemma HasPrefix_append [simp]: "HasPrefix (p @ s) p"
  by (simp add: HasPrefix_def)

lemma HasPrefix_Nil [simp]: "HasPrefix s []"
  by (simp add: HasPrefix_def)

lemma HasPrefix_refl [simp]: "HasPrefix s s"
  by (simp add: HasPrefix_def)

lemma HasPrefix_length: "HasPrefix s p \<Longrightarrow> length p \<le> length s"
  unfolding HasPrefix_def by (metis length_take min.cobounded1)

lemma HasSuffix_iff: "HasSuffix s p \<longleftrightarrow> (\<exists>t. s = t @ p)"
proof
  assume "HasSuffix s p"
  then show "\<exists>t. s = t @ p"
    unfolding HasSuffix_def by (metis append_take_drop_id)
qed (auto simp: HasSuffix_def)

lemma TrimPrefix_append [simp]: "TrimPrefix (p @ s) p = s"
  by (simp add: TrimPrefix_def)

lemma TrimSuffix_append [simp]: "TrimSuffix (s @ p) p = s"
  by (auto simp: TrimSuffix_def HasSuffix_def)

lemma TrimSuffix_cases:
  obtains "TrimSuffix s p = s" "\<not> HasSuffix s p" | "s = TrimSuffix s p @ p"
  by (metis HasSuffix_iff TrimSuffix_append TrimSuffix_def)

lemma length_TrimSuffix: "length (TrimSuffix s p) \<le> length s"
  by (simp add: TrimSuffix_def)

lemma Index_Some: "Index s sub = Some i \<Longrightarrow> \<exists>t. s = take i s @ sub @ t"
proof (induction s sub arbitrary: i rule: Index.induct)
  case (1 sub)
  then show ?case by (simp split: if_splits)
next
  case (2 c s sub)
  show ?case
  proof (cases "HasPrefix (c # s) sub")
    case True
    with "2.prems" show ?thesis by (auto simp: HasPrefix_iff)
  next
    case False
    with "2.prems" obtain j where j: "i = Suc j" "Index s sub = Some j" by auto
    with "2.IH" False obtain t where "s = take j s @ sub @ t" by blast
    with j show ?thesis by (metis append_Cons take_Suc_Cons)
  qed
qed

lemma Index_None_iff: "Index s sub = None \<longleftrightarrow> (\<forall>a b. s \<noteq> a @ sub @ b)"
proof (induction s sub rule: Index.induct)
  case (1 sub)
  then show ?case by auto
next
  case (2 c s sub)
  show ?case
  proof (cases "HasPrefix (c # s) sub")
    case True
    then show ?thesis by (auto simp: HasPrefix_iff) (metis append_Nil)
  next
    case False
    have "(\<forall>a b. c # s \<noteq> a @ sub @ b) \<longleftrightarrow> (\<forall>a b. s \<noteq> a @ sub @ b)"
    proof (intro iffI allI notI)
      fix a b assume "\<forall>a b. c # s \<noteq> a @ sub @ b" and "s = a @ sub @ b"
      then show "False" by (metis append_Cons)
    next
      fix a b assume *: "\<forall>a b. s \<noteq> a @ sub @ b" and eq: "c # s = a @ sub @ b"
      from False eq have "a \<noteq> []" by (auto simp: HasPrefix_iff)
      with eq obtain a' where "s = a' @ sub @ b" by (cases a) auto
      with * show "False" by blast
    qed
    with 2 False show ?thesis by simp
  qed
qed

text \<open>The first byte occurrence: everything before it differs from the byte.\<close>

lemma Index_byte:
  "Index s [c] = (if c \<in> set s then Some (length (takeWhile (\<lambda>x. x \<noteq> c) s)) else None)"
  by (induction s) (auto simp: HasPrefix_def)

lemma take_Index_byte: "Index s [c] = Some i \<Longrightarrow> take i s = takeWhile (\<lambda>x. x \<noteq> c) s"
  by (auto simp: Index_byte split: if_splits) (metis takeWhile_eq_take)

lemma Cut_append:
  assumes "Index a sep = None" and "\<And>i. i < length a \<Longrightarrow> \<not> HasPrefix (drop i a @ sep @ b) sep"
  shows "Cut (a @ sep @ b) sep = Some (a, b)"
proof -
  have "Index (a @ sep @ b) sep = Some (length a)"
    using assms(2)
  proof (induction a)
    case Nil
    show ?case
    proof (cases "sep @ b")
      case Nil
      then show ?thesis by simp
    next
      case (Cons x xs)
      then have "HasPrefix (x # xs) sep" by (metis HasPrefix_append)
      with Cons show ?thesis by simp
    qed
  next
    case (Cons c a)
    have "Index (a @ sep @ b) sep = Some (length a)"
      using Cons.IH Cons.prems by (metis Suc_mono drop_Suc_Cons length_Cons)
    moreover have "\<not> HasPrefix (c # a @ sep @ b) sep"
      using Cons.prems [of 0] by simp
    ultimately show ?case by simp
  qed
  then show ?thesis by (simp add: Cut_def)
qed

lemma Cut_Some: "Cut s sep = Some (a, b) \<Longrightarrow> s = a @ sep @ b"
proof -
  assume "Cut s sep = Some (a, b)"
  then obtain i where i: "Index s sep = Some i" "a = take i s" "b = drop (i + length sep) s"
    by (auto simp: Cut_def)
  from Index_Some [OF i(1)] obtain t where t: "s = take i s @ sep @ t" by blast
  have "i \<le> length s"
    using i(1) by (induction s sep arbitrary: i rule: Index.induct) (auto split: if_splits)
  with t i show ?thesis
    by (metis add.commute append_eq_conv_conj drop_drop length_take min.absorb2)
qed

lemma SplitByte_nonempty [simp]: "SplitByte s c \<noteq> []"
  by (induction s) (auto split: list.splits)

lemma SplitByte_no_sep: "p \<in> set (SplitByte s c) \<Longrightarrow> c \<notin> set p"
  by (induction s arbitrary: p) (auto split: list.splits if_splits)

lemma Join_SplitByte: "Join (SplitByte s c) [c] = s"
proof (induction s)
  case Nil
  then show ?case by simp
next
  case (Cons x s)
  obtain p ps where "SplitByte s c = p # ps" by (cases "SplitByte s c") auto
  with Cons show ?case by (cases ps) auto
qed

lemma SplitByte_id: "c \<notin> set s \<Longrightarrow> SplitByte s c = [s]"
  by (induction s) auto

lemma TrimSpace_Nil [simp]: "TrimSpace [] = []"
  by (simp add: TrimSpace_def)

lemma TrimSpace_id: "s \<noteq> [] \<Longrightarrow> \<not> is_space (hd s) \<Longrightarrow> \<not> is_space (last s) \<Longrightarrow> TrimSpace s = s"
proof -
  assume a: "s \<noteq> []" "\<not> is_space (hd s)" "\<not> is_space (last s)"
  then have "dropWhile is_space s = s" by (cases s) auto
  moreover have "dropWhile is_space (rev s) = rev s"
    using a by (cases s rule: rev_cases) auto
  ultimately show ?thesis by (simp add: TrimSpace_def)
qed

lemma TrimSpace_ends:
  assumes "TrimSpace s \<noteq> []"
  shows "\<not> is_space (hd (TrimSpace s))" and "\<not> is_space (last (TrimSpace s))"
proof -
  let ?d = "dropWhile is_space s"
  let ?e = "dropWhile is_space (rev ?d)"
  have e: "?e \<noteq> []" using assms by (simp add: TrimSpace_def)
  then show "\<not> is_space (last (TrimSpace s))"
    using hd_dropWhile [OF e] by (simp add: TrimSpace_def last_rev)
  have d: "?d \<noteq> []" using e by (metis dropWhile.simps(1) rev.simps(1))
  have pre: "rev ?e @ rev (takeWhile is_space (rev ?d)) = ?d"
    by (metis rev_append rev_rev_ident takeWhile_dropWhile_id)
  have "hd (rev ?e) = hd ?d"
    using e by (metis hd_append2 pre rev_is_Nil_conv)
  with hd_dropWhile [OF d] show "\<not> is_space (hd (TrimSpace s))"
    by (simp add: TrimSpace_def)
qed

lemma TrimSpace_idem [simp]: "TrimSpace (TrimSpace s) = TrimSpace s"
  by (metis TrimSpace_Nil TrimSpace_ends TrimSpace_id)

lemma set_TrimSpace: "set (TrimSpace s) \<subseteq> set s"
  unfolding TrimSpace_def by (metis set_dropWhileD set_rev subsetI)

lemma of_char_inj_nat: "(of_char a :: nat) = of_char b \<longleftrightarrow> a = b"
  by simp

lemma of_char_lower: "(of_char (lower_char c) :: nat) =
    (let n = of_char c in if 65 \<le> n \<and> n \<le> 90 then n + 32 else n)"
  by (simp add: lower_char_def Let_def)

lemma lower_char_idem [simp]: "lower_char (lower_char c) = lower_char c"
  by (simp add: lower_char_def Let_def)

lemma ToLower_idem [simp]: "ToLower (ToLower s) = ToLower s"
  by (simp add: ToLower_def)

lemma ToLower_append: "ToLower (s @ t) = ToLower s @ ToLower t"
  by (simp add: ToLower_def)

lemma length_ToLower [simp]: "length (ToLower s) = length s"
  by (simp add: ToLower_def)

lemma lower_char_fixed_iff:
  assumes "\<not> (97 \<le> (of_char c :: nat) \<and> (of_char c :: nat) \<le> 122)"
    and "\<not> (65 \<le> (of_char c :: nat) \<and> (of_char c :: nat) \<le> 90)"
  shows "lower_char x = c \<longleftrightarrow> x = c"
proof
  assume eq: "lower_char x = c"
  then have "(of_char c :: nat) = (let n = of_char x in if 65 \<le> n \<and> n \<le> 90 then n + 32 else n)"
    using of_char_lower by metis
  then have "\<not> (65 \<le> (of_char x :: nat) \<and> (of_char x :: nat) \<le> 90)"
    using assms(1) by (auto simp: Let_def split: if_splits)
  with eq show "x = c" by (simp add: lower_char_def Let_def)
next
  assume "x = c"
  then show "lower_char x = c" using assms by (auto simp: lower_char_def Let_def)
qed

section \<open>Package strconv: decimal integers\<close>

definition digit_val :: "char \<Rightarrow> nat option" where
  "digit_val c =
     (let n = of_char c :: nat in if 48 \<le> n \<and> n \<le> 57 then Some (n - 48) else None)"

fun digits_val :: "string \<Rightarrow> nat \<Rightarrow> nat option" where
  "digits_val [] acc = Some acc"
| "digits_val (c # s) acc =
     (case digit_val c of None \<Rightarrow> None | Some d \<Rightarrow> digits_val s (acc * 10 + d))"

text \<open>
  \<open>strconv.Atoi\<close>: an optional sign and at least one digit, within the range of
  a 64-bit int; None where the error is non-nil.
\<close>

definition Atoi :: "string \<Rightarrow> int option" where
  "Atoi s =
     (let (neg, ds) = (case s of [] \<Rightarrow> (False, [])
                       | c # t \<Rightarrow> if c = CHR ''-'' then (True, t)
                                else if c = CHR ''+'' then (False, t) else (False, s))
      in if ds = [] then None
         else case digits_val ds 0 of None \<Rightarrow> None
              | Some n \<Rightarrow> (let v = (if neg then - int n else int n) in
                          if - (2 ^ 63) \<le> v \<and> v < 2 ^ 63 then Some v else None))"

text \<open>\<open>strconv.Itoa\<close> and the \<open>%d\<close> verb on a non-negative number.\<close>

fun show_nat :: "nat \<Rightarrow> string" where
  "show_nat n =
     (if n < 10 then [char_of (48 + n)] else show_nat (n div 10) @ [char_of (48 + n mod 10)])"

declare show_nat.simps [simp del]

definition show_int :: "int \<Rightarrow> string" where
  "show_int z = (if z < 0 then CHR ''-'' # show_nat (nat (- z)) else show_nat (nat z))"

lemma digit_val_char_of: "d < 10 \<Longrightarrow> digit_val (char_of (48 + d)) = Some d"
  by (simp add: digit_val_def Let_def)

lemma digits_val_append:
  "digits_val (s @ t) acc = (case digits_val s acc of None \<Rightarrow> None | Some n \<Rightarrow> digits_val t n)"
  by (induction s arbitrary: acc) (auto split: option.splits)

lemma digits_val_show_nat: "digits_val (show_nat n) 0 = Some n"
proof (induction n rule: show_nat.induct)
  case (1 n)
  show ?case
  proof (cases "n < 10")
    case True
    then show ?thesis by (simp add: show_nat.simps [of n] digit_val_char_of)
  next
    case False
    with 1 have "digits_val (show_nat (n div 10)) 0 = Some (n div 10)" by simp
    with False show ?thesis
      by (simp add: show_nat.simps [of n] digits_val_append digit_val_char_of)
  qed
qed

lemma show_nat_digits: "c \<in> set (show_nat n) \<Longrightarrow> digit_val c \<noteq> None"
  by (induction n rule: show_nat.induct) (subst (asm) (2) show_nat.simps, auto simp: digit_val_char_of split: if_splits)

lemma show_nat_nonempty [simp]: "show_nat n \<noteq> []"
  by (subst show_nat.simps) simp

lemma Atoi_show_nat:
  assumes "n < 2 ^ 63"
  shows "Atoi (show_nat n) = Some (int n)"
proof -
  obtain c t where ct: "show_nat n = c # t" by (cases "show_nat n") auto
  then have "digit_val c \<noteq> None" using show_nat_digits [of c n] by simp
  then have "c \<noteq> CHR ''-''" "c \<noteq> CHR ''+''" by (auto simp: digit_val_def)
  with ct digits_val_show_nat [of n] assms show ?thesis
    by (simp add: Atoi_def Let_def)
qed

section \<open>Durations\<close>

text \<open>
  \<open>time.Duration.String\<close>: below a second the largest of the units ns, us and ms
  with its fraction, else hours, minutes and seconds. The micro sign is the two
  bytes of its UTF-8 encoding.
\<close>

definition pad_left :: "nat \<Rightarrow> string \<Rightarrow> string" where
  "pad_left n s = replicate (n - length s) (CHR ''0'') @ s"

text \<open>The decimal fraction \<open>v / 10 ^ prec\<close> without trailing zeros, empty when 0.\<close>

definition fmt_frac :: "nat \<Rightarrow> nat \<Rightarrow> string" where
  "fmt_frac prec v =
     (if v = 0 then []
      else CHR ''.'' # rev (dropWhile (\<lambda>c. c = CHR ''0'') (rev (pad_left prec (show_nat v)))))"

definition Duration_String :: "duration \<Rightarrow> string" where
  "Duration_String d =
     (let u = nat \<bar>d\<bar>; sign = (if d < 0 then ''-'' else []) in
      sign @
      (if u = 0 then ''0s''
       else if u < 10 ^ 3 then show_nat u @ ''ns''
       else if u < 10 ^ 6
       then show_nat (u div 10 ^ 3) @ fmt_frac 3 (u mod 10 ^ 3) @ [CHR 0xC2, CHR 0xB5] @ ''s''
       else if u < 10 ^ 9 then show_nat (u div 10 ^ 6) @ fmt_frac 6 (u mod 10 ^ 6) @ ''ms''
       else
         (let secs = u div 10 ^ 9; m = secs div 60; h = m div 60 in
          (if h > 0 then show_nat h @ ''h'' else []) @
          (if m > 0 then show_nat (m mod 60) @ ''m'' else []) @
          show_nat (secs mod 60) @ fmt_frac 9 (u mod 10 ^ 9) @ ''s'')))"

end
