(* ===== verification/Http.thy ===== *)
theory Http
  imports GoStd
begin

text \<open>
  The parts of \<open>net/http\<close> the sources call: header maps with canonical keys,
  requests and the writer a handler answers on.
\<close>

section \<open>Header maps\<close>

text \<open>
  \<open>http.Header\<close> is a Go map from canonical key to values. It is a list of
  entries with distinct keys; the order of the list is one of the orders in
  which a \<open>range\<close> over the map may visit it.
\<close>

type_synonym header = "(string \<times> string list) list"

text \<open>The bytes of an HTTP token; a key with any other byte is not canonicalised.\<close>

definition token_char :: "char \<Rightarrow> bool" where
  "token_char c \<longleftrightarrow>
     (let n = of_char c :: nat in
      (48 \<le> n \<and> n \<le> 57) \<or> (65 \<le> n \<and> n \<le> 90) \<or> (97 \<le> n \<and> n \<le> 122) \<or>
      c \<in> set ''!#$%&*+-.^_|~'' \<or> n \<in> {39, 96})"

text \<open>Upper case at the start and after a hyphen, lower case elsewhere.\<close>

fun canon_chars :: "bool \<Rightarrow> string \<Rightarrow> string" where
  "canon_chars up [] = []"
| "canon_chars up (c # s) =
     (if up then upper_char c else lower_char c) # canon_chars (c = CHR ''-'') s"

definition CanonicalHeaderKey :: "string \<Rightarrow> string" where
  "CanonicalHeaderKey k = (if list_all token_char k then canon_chars True k else k)"

fun hdr_lookup :: "header \<Rightarrow> string \<Rightarrow> string list option" where
  "hdr_lookup [] k = None"
| "hdr_lookup ((k', vs) # h) k = (if k' = k then Some vs else hdr_lookup h k)"

text \<open>Assigning a key of the map: replaces the entry in place or adds a new one.\<close>

fun hdr_put :: "header \<Rightarrow> string \<Rightarrow> string list \<Rightarrow> header" where
  "hdr_put [] k vs = [(k, vs)]"
| "hdr_put ((k', ws) # h) k vs = (if k' = k then (k, vs) # h else (k', ws) # hdr_put h k vs)"

definition hdr_remove :: "header \<Rightarrow> string \<Rightarrow> header" where
  "hdr_remove h k = filter (\<lambda>(k', _). k' \<noteq> k) h"

definition Header_Get :: "header \<Rightarrow> string \<Rightarrow> string" where
  "Header_Get h k =
     (case hdr_lookup h (CanonicalHeaderKey k) of Some (v # _) \<Rightarrow> v | _ \<Rightarrow> [])"

definition Header_Set :: "header \<Rightarrow> string \<Rightarrow> string \<Rightarrow> header" where
  "Header_Set h k v = hdr_put h (CanonicalHeaderKey k) [v]"

definition Header_Add :: "header \<Rightarrow> string \<Rightarrow> string \<Rightarrow> header" where
  "Header_Add h k v =
     (let c = CanonicalHeaderKey k in
      hdr_put h c ((case hdr_lookup h c of None \<Rightarrow> [] | Some vs \<Rightarrow> vs) @ [v]))"

definition Header_Del :: "header \<Rightarrow> string \<Rightarrow> header" where
  "Header_Del h k = hdr_remove h (CanonicalHeaderKey k)"

subsection \<open>Laws\<close>

lemma hdr_lookup_put: "hdr_lookup (hdr_put h k vs) k' = (if k = k' then Some vs else hdr_lookup h k')"
  by (induction h k vs rule: hdr_put.induct) auto

lemma hdr_lookup_remove: "hdr_lookup (hdr_remove h k) k' = (if k = k' then None else hdr_lookup h k')"
  by (induction h) (auto simp: hdr_remove_def)

lemma keys_hdr_put: "fst ` set (hdr_put h k vs) = insert k (fst ` set h)"
  by (induction h k vs rule: hdr_put.induct) auto

lemma distinct_hdr_put: "distinct (map fst h) \<Longrightarrow> distinct (map fst (hdr_put h k vs))"
  by (induction h k vs rule: hdr_put.induct) (auto simp: keys_hdr_put image_iff)

lemma distinct_hdr_remove: "distinct (map fst h) \<Longrightarrow> distinct (map fst (hdr_remove h k))"
  by (auto simp: hdr_remove_def distinct_map_filter)

lemma hdr_lookup_map_of: "hdr_lookup h k = map_of h k"
  by (induction h) auto

lemma Header_Get_Set:
  "Header_Get (Header_Set h k v) k' =
     (if CanonicalHeaderKey k = CanonicalHeaderKey k' then v else Header_Get h k')"
  by (simp add: Header_Get_def Header_Set_def hdr_lookup_put)

lemma Header_Get_Del:
  "Header_Get (Header_Del h k) k' =
     (if CanonicalHeaderKey k = CanonicalHeaderKey k' then [] else Header_Get h k')"
  by (simp add: Header_Get_def Header_Del_def hdr_lookup_remove)

lemma hdr_lookup_Set:
  "hdr_lookup (Header_Set h k v) k' =
     (if CanonicalHeaderKey k = k' then Some [v] else hdr_lookup h k')"
  by (simp add: Header_Set_def hdr_lookup_put)

lemma hdr_lookup_Del:
  "hdr_lookup (Header_Del h k) k' =
     (if CanonicalHeaderKey k = k' then None else hdr_lookup h k')"
  by (simp add: Header_Del_def hdr_lookup_remove)

section \<open>Requests\<close>

text \<open>
  The fields of \<open>http.Request\<close> and its URL that the sources read.
  \<open>EscapedPath\<close> is the result of \<open>URL.EscapedPath()\<close>.
\<close>

record request =
  Method :: string
  Host :: string
  Path :: string
  EscapedPath :: string
  RawQuery :: string
  Header :: header
  RemoteAddr :: string

definition RequestURI :: "request \<Rightarrow> string" where
  "RequestURI r =
     (if EscapedPath r = [] then ''/'' else EscapedPath r) @
     (if RawQuery r = [] then [] else CHR ''?'' # RawQuery r)"

section \<open>Answers\<close>

text \<open>A request the concrete instances of the development use.\<close>

definition some_request :: request where
  "some_request = \<lparr>Method = ''GET'', Host = ''h'', Path = ''/'', EscapedPath = ''/'',
     RawQuery = '''', Header = [], RemoteAddr = ''10.0.0.1:4711''\<rparr>"

text \<open>
  What a handler has put on its \<open>http.ResponseWriter\<close>: the header map, the
  status once it is written, and the body so far. Header changes after
  \<open>WriteHeader\<close> stay in the map and are not sent: \<open>rw_sent\<close> is what was sent.
\<close>

record response_writer =
  rw_header :: header
  rw_status :: "int option"
  rw_sent :: header
  rw_body :: "byte list"

definition new_writer :: response_writer where
  "new_writer = \<lparr>rw_header = [], rw_status = None, rw_sent = [], rw_body = []\<rparr>"

definition WriteHeader :: "response_writer \<Rightarrow> int \<Rightarrow> response_writer" where
  "WriteHeader w code =
     (if rw_status w = None then w\<lparr>rw_status := Some code, rw_sent := rw_header w\<rparr> else w)"

definition Write :: "response_writer \<Rightarrow> byte list \<Rightarrow> response_writer" where
  "Write w bs = (let w1 = WriteHeader w 200 in w1\<lparr>rw_body := rw_body w1 @ bs\<rparr>)"

definition bytes_of :: "string \<Rightarrow> byte list" where
  "bytes_of s = map (\<lambda>c. of_nat (of_char c)) s"

definition string_of :: "byte list \<Rightarrow> string" where
  "string_of bs = map (\<lambda>b. char_of (unat b)) bs"

lemma string_of_bytes_of [simp]: "string_of (bytes_of s) = s"
proof -
  have "char_of (unat (of_nat (of_char c) :: byte)) = c" for c
  proof -
    have "of_char c < (256 :: nat)" using nat_of_char_less_256 [of c] by simp
    then have "unat (of_nat (of_char c) :: byte) = of_char c"
      by (simp add: unat_of_nat)
    then show ?thesis by simp
  qed
  then show ?thesis by (simp add: string_of_def bytes_of_def comp_def map_idI)
qed

lemma length_bytes_of [simp]: "length (bytes_of s) = length s"
  by (simp add: bytes_of_def)

text \<open>\<open>http.Error\<close>: a plain-text answer with the message and a newline.\<close>

definition http_Error :: "response_writer \<Rightarrow> string \<Rightarrow> int \<Rightarrow> response_writer" where
  "http_Error w msg code =
     (let h1 = Header_Del (rw_header w) ''Content-Length'';
          h2 = Header_Set h1 ''Content-Type'' ''text/plain; charset=utf-8'';
          h3 = Header_Set h2 ''X-Content-Type-Options'' ''nosniff'';
          w1 = WriteHeader (w\<lparr>rw_header := h3\<rparr>) code
      in Write w1 (bytes_of (msg @ [char_of (10 :: nat)])))"

end
