(* ===== verification/Crc32.thy ===== *)
theory Crc32
  imports Http
begin

unbundle bit_operations_syntax

text \<open>
  The checksum of Go's \<open>hash/crc32\<close> with the IEEE polynomial, which the Maglev
  table and the request hash are computed with: the reflected algorithm, one
  bit at a time, on 32-bit words.
\<close>

fun crc_bits :: "nat \<Rightarrow> 32 word \<Rightarrow> 32 word" where
  "crc_bits 0 c = c"
| "crc_bits (Suc k) c =
     crc_bits k (if c AND 1 = 1 then drop_bit 1 c XOR 0xEDB88320 else drop_bit 1 c)"

definition crc_byte :: "32 word \<Rightarrow> byte \<Rightarrow> 32 word" where
  "crc_byte c b = crc_bits 8 (c XOR ucast b)"

definition ChecksumIEEE :: "byte list \<Rightarrow> 32 word" where
  "ChecksumIEEE bs = NOT (foldl crc_byte (NOT 0) bs)"

text \<open>Evaluation: the eight steps of a byte written out.\<close>

lemma crc_bits_8: "crc_bits 8 c = crc_bits (Suc (Suc (Suc (Suc (Suc (Suc (Suc (Suc 0)))))))) c"
  by (simp add: eval_nat_numeral)

lemmas crc_eval = ChecksumIEEE_def crc_byte_def bytes_of_def crc_bits_8

text \<open>The check value of the CRC catalogue.\<close>

lemma ChecksumIEEE_check: "ChecksumIEEE (bytes_of ''123456789'') = 0xCBF43926"
  by (simp add: crc_eval)

end
