(* ===== verification/LoadBalancer.thy ===== *)
theory LoadBalancer
  imports Http
begin

text \<open>
  The selection algorithms of \<open>internal/loadbalancer/loadbalancer.go\<close>, the
  Maglev one apart (theory Maglev), and the interface \<open>LoadBalancer\<close> they
  share, as a locale with its clients' laws. Each algorithm is a record with
  its \<open>Next\<close>, \<open>MarkHealthy\<close> and \<open>GetUpstreams\<close>, interpreted at the end of its
  section.
\<close>

section \<open>Upstreams\<close>

text \<open>
  A load balancer owns the slice of upstream pointers it was built with, so an
  upstream is identified by its position in that slice: where the code returns
  a \<open>*Upstream\<close> the model returns the position. \<open>LastCheck\<close> is the
  \<open>AtomicTime\<close> cell, Unix nanoseconds with 0 for the zero time.
\<close>

record upstream =
  URL :: string
  Weight :: int
  Healthy :: bool
  LastCheck :: int

definition AtomicTime_Store :: "gotime \<Rightarrow> int" where
  "AtomicTime_Store t = (case t of None \<Rightarrow> 0 | Some n \<Rightarrow> n)"

definition AtomicTime_Load :: "int \<Rightarrow> gotime" where
  "AtomicTime_Load v = (if v \<noteq> 0 then Some v else None)"

definition AtomicTime_IsZero :: "int \<Rightarrow> bool" where
  "AtomicTime_IsZero v \<longleftrightarrow> v = 0"

text \<open>The loop of \<open>probeCandidate\<close>: the candidate so far with its time.\<close>

fun probe_loop :: "upstream list \<Rightarrow> nat \<Rightarrow> (nat \<times> int) option \<Rightarrow> (nat \<times> int) option" where
  "probe_loop [] i cand = cand"
| "probe_loop (u # us) i cand =
     (case cand of
        None \<Rightarrow> probe_loop us (Suc i) (Some (i, LastCheck u))
      | Some (c, nano) \<Rightarrow>
          if LastCheck u < nano then probe_loop us (Suc i) (Some (i, LastCheck u))
          else probe_loop us (Suc i) cand)"

definition probeCandidate :: "upstream list \<Rightarrow> nat option" where
  "probeCandidate us = map_option fst (probe_loop us 0 None)"

text \<open>
  The loop of \<open>MarkHealthy\<close>, the same in three of the algorithms: the first
  upstream with the URL gets the flag and the time, the loop stops there.
\<close>

fun mark_first :: "upstream list \<Rightarrow> string \<Rightarrow> bool \<Rightarrow> int \<Rightarrow> upstream list" where
  "mark_first [] url h now = []"
| "mark_first (u # us) url h now =
     (if URL u = url
      then u\<lparr>Healthy := h, LastCheck := AtomicTime_Store (Some now)\<rparr> # us
      else u # mark_first us url h now)"

text \<open>The loop of every constructor: all upstreams start healthy.\<close>

definition all_healthy :: "upstream list \<Rightarrow> upstream list" where
  "all_healthy us = map (\<lambda>u. u\<lparr>Healthy := True\<rparr>) us"

subsection \<open>The probe candidate\<close>

lemma probe_loop_Some:
  assumes "probe_loop us i (Some (c, t)) = Some (c', t')"
  shows "t' \<le> t \<and> (\<forall>u \<in> set us. t' \<le> LastCheck u) \<and>
    (c' = c \<and> t' = t \<or> i \<le> c' \<and> c' < i + length us \<and> t' = LastCheck (us ! (c' - i)))"
  using assms
proof (induction us arbitrary: i c t)
  case Nil
  then show ?case by simp
next
  case (Cons u us)
  show ?case
  proof (cases "LastCheck u < t")
    case True
    with Cons.prems have "probe_loop us (Suc i) (Some (i, LastCheck u)) = Some (c', t')" by simp
    from Cons.IH [OF this] True show ?thesis
      by (auto simp: nth_Cons' Suc_diff_le)
  next
    case False
    with Cons.prems have "probe_loop us (Suc i) (Some (c, t)) = Some (c', t')" by simp
    from Cons.IH [OF this] False show ?thesis
      by (auto simp: nth_Cons' Suc_diff_le)
  qed
qed

lemma probe_loop_total: "\<exists>c' t'. probe_loop us i (Some (c, t)) = Some (c', t')"
  by (induction us arbitrary: i c t) auto

lemma probeCandidate_Nil [simp]: "probeCandidate [] = None"
  by (simp add: probeCandidate_def)

lemma probeCandidate_oldest:
  assumes "us \<noteq> []"
  obtains i where "probeCandidate us = Some i" "i < length us"
    "\<And>u. u \<in> set us \<Longrightarrow> LastCheck (us ! i) \<le> LastCheck u"
proof -
  obtain u vs where us: "us = u # vs" using assms by (cases us) auto
  obtain c t where ct: "probe_loop vs 1 (Some (0, LastCheck u)) = Some (c, t)"
    using probe_loop_total by blast
  from probe_loop_Some [OF ct]
  have "c < length us" "t = LastCheck (us ! c)" "\<forall>u \<in> set us. t \<le> LastCheck u"
    by (auto simp: us nth_Cons')
  with ct us show thesis by (intro that [of c]) (auto simp: probeCandidate_def)
qed

lemma probeCandidate_range: "probeCandidate us = Some i \<Longrightarrow> i < length us"
  by (metis option.inject option.distinct(1) probeCandidate_Nil probeCandidate_oldest)

lemma probeCandidate_None_iff [simp]: "probeCandidate us = None \<longleftrightarrow> us = []"
  by (metis option.distinct(1) probeCandidate_Nil probeCandidate_oldest)

lemma probeCandidate_Some_ex [simp]: "(\<exists>i. probeCandidate us = Some i) \<longleftrightarrow> us \<noteq> []"
  using probeCandidate_None_iff [of us] by (cases "probeCandidate us") auto

subsection \<open>Marking\<close>

lemma length_mark_first [simp, lb_simps]: "length (mark_first us url h now) = length us"
  by (induction us) auto

lemma map_URL_mark_first [simp, lb_simps]: "map URL (mark_first us url h now) = map URL us"
  by (induction us) auto

lemma map_Weight_mark_first [simp, lb_simps]: "map Weight (mark_first us url h now) = map Weight us"
  by (induction us) auto

lemma mark_first_absent: "url \<notin> URL ` set us \<Longrightarrow> mark_first us url h now = us"
  by (induction us) auto

lemma mark_first_distinct:
  assumes "distinct (map URL us)" and "i < length us"
  shows "mark_first us (URL (us ! i)) h now =
    us[i := (us ! i)\<lparr>Healthy := h, LastCheck := now\<rparr>]"
  using assms
proof (induction us arbitrary: i)
  case Nil
  then show ?case by simp
next
  case (Cons u us)
  then show ?case
    by (cases i) (auto simp: AtomicTime_Store_def image_iff)
qed

lemma mark_first_nth:
  assumes "distinct (map URL us)" and "i < length us"
  shows "Healthy (mark_first us url h now ! i) = (if URL (us ! i) = url then h else Healthy (us ! i))"
  using assms
proof (induction us arbitrary: i)
  case Nil
  then show ?case by simp
next
  case (Cons u us)
  then have "i = Suc k \<Longrightarrow> URL (us ! k) \<noteq> URL u" for k
    by (metis distinct.simps(2) image_eqI length_Cons list.set_map list.simps(9) not_less_eq nth_mem)
  with Cons show ?case by (cases i) auto
qed

lemma all_healthy_simps [simp, lb_simps]:
  "length (all_healthy us) = length us"
  "map URL (all_healthy us) = map URL us"
  "map Weight (all_healthy us) = map Weight us"
  "all_healthy us = [] \<longleftrightarrow> us = []"
  by (auto simp: all_healthy_def)

lemma all_healthy_Healthy [dest]: "u \<in> set (all_healthy us) \<Longrightarrow> Healthy u"
  by (auto simp: all_healthy_def)

section \<open>The interface\<close>

text \<open>
  What \<open>type LoadBalancer interface\<close> promises its callers (the transports and
  the health checker): a choice is made without a panic, it is one of the
  balancer's own upstreams, and is missing only when there are none; choosing
  changes no upstream; marking changes the health of the first upstream with
  that URL and nothing else a caller can see. \<open>invar\<close> is what the algorithm
  keeps true of its state.
\<close>

locale load_balancer =
  fixes nxt :: "'s \<Rightarrow> request \<Rightarrow> (nat option \<times> 's) go"
    and mark :: "'s \<Rightarrow> string \<Rightarrow> bool \<Rightarrow> int \<Rightarrow> 's"
    and ups :: "'s \<Rightarrow> upstream list"
    and invar :: "'s \<Rightarrow> bool"
  assumes next_total: "invar s \<Longrightarrow> \<exists>c s'. nxt s r = Ret (c, s')"
    and next_invar: "invar s \<Longrightarrow> nxt s r = Ret (c, s') \<Longrightarrow> invar s'"
    and next_ups: "invar s \<Longrightarrow> nxt s r = Ret (c, s') \<Longrightarrow> ups s' = ups s"
    and next_range: "invar s \<Longrightarrow> nxt s r = Ret (Some i, s') \<Longrightarrow> i < length (ups s)"
    and next_some: "invar s \<Longrightarrow> nxt s r = Ret (None, s') \<Longrightarrow> ups s = []"
    and mark_invar: "invar s \<Longrightarrow> invar (mark s url h now)"
    and mark_urls: "invar s \<Longrightarrow> map URL (ups (mark s url h now)) = map URL (ups s)"
    and mark_health: "invar s \<Longrightarrow>
      map Healthy (ups (mark s url h now)) = map Healthy (mark_first (ups s) url h now)"
begin

lemma mark_length: "invar s \<Longrightarrow> length (ups (mark s url h now)) = length (ups s)"
  using mark_urls map_eq_imp_length_eq by blast

lemma mark_nth:
  assumes "invar s" "distinct (map URL (ups s))" "i < length (ups s)"
  shows "Healthy (ups (mark s url h now) ! i) =
    (if URL (ups s ! i) = url then h else Healthy (ups s ! i))"
proof -
  have "Healthy (ups (mark s url h now) ! i) = map Healthy (ups (mark s url h now)) ! i"
    using assms by (simp add: mark_length)
  also have "\<dots> = Healthy (mark_first (ups s) url h now ! i)"
    using assms by (simp add: mark_health)
  finally show ?thesis using assms by (simp add: mark_first_nth)
qed

lemma mark_url_nth:
  "invar s \<Longrightarrow> i < length (ups s) \<Longrightarrow> URL (ups (mark s url h now) ! i) = URL (ups s ! i)"
  using mark_urls mark_length by (metis nth_map)

lemma next_index:
  assumes "invar s" "ups s \<noteq> []"
  obtains i s' where "nxt s r = Ret (Some i, s')" "i < length (ups s)" "ups s' = ups s" "invar s'"
  using assms next_total [OF assms(1), of r] next_range next_some next_ups next_invar
  by (metis not_None_eq)

end

text \<open>The form in which the algorithms discharge the laws: one fact on \<open>Next\<close>, one on marking.\<close>

lemma load_balancerI:
  assumes nxt: "\<And>s r. invar s \<Longrightarrow> \<exists>c s'. nxt s r = Ret (c, s') \<and> invar s' \<and> ups s' = ups s \<and>
      (c = None \<longrightarrow> ups s = []) \<and> (\<forall>i. c = Some i \<longrightarrow> i < length (ups s))"
    and mark: "\<And>s url h now. invar s \<Longrightarrow> invar (mark s url h now) \<and>
      map URL (ups (mark s url h now)) = map URL (ups s) \<and>
      map Healthy (ups (mark s url h now)) = map Healthy (mark_first (ups s) url h now)"
  shows "load_balancer nxt mark ups invar"
proof
  fix s r c s' i
  assume inv: "invar s"
  from nxt [OF inv, of r] show "\<exists>c s'. nxt s r = Ret (c, s')" by blast
  show "invar s'" "ups s' = ups s" if "nxt s r = Ret (c, s')"
    using nxt [OF inv, of r] that by auto
  show "i < length (ups s)" if "nxt s r = Ret (Some i, s')"
    using nxt [OF inv, of r] that by auto
  show "ups s = []" if "nxt s r = Ret (None, s')"
    using nxt [OF inv, of r] that by auto
qed (use mark in auto)

text \<open>An algorithm that, in a state that is \<open>ready\<close>, passes over unhealthy upstreams.\<close>

locale healthy_balancer = load_balancer +
  fixes ready :: "'s \<Rightarrow> bool"
  assumes next_healthy: "invar s \<Longrightarrow> ready s \<Longrightarrow> nxt s r = Ret (Some i, s') \<Longrightarrow>
    (\<exists>u \<in> set (ups s). Healthy u) \<Longrightarrow> Healthy (ups s ! i)"

text \<open>
  An algorithm that falls back to the probe candidate when no upstream is
  healthy and records the time of every mark: then failed attempts rotate over
  the whole pool.
\<close>

text \<open>
  The scenario: one request per time in the list, each sent to the upstream
  chosen for it and failing, so that it is marked unhealthy at that time.
\<close>

fun failing_requests ::
  "('s \<Rightarrow> request \<Rightarrow> (nat option \<times> 's) go) \<Rightarrow> ('s \<Rightarrow> string \<Rightarrow> bool \<Rightarrow> int \<Rightarrow> 's) \<Rightarrow>
   ('s \<Rightarrow> upstream list) \<Rightarrow> 's \<Rightarrow> (request \<times> int) list \<Rightarrow> nat list" where
  "failing_requests nxt mark ups s [] = []"
| "failing_requests nxt mark ups s ((r, t) # rs) =
     (case nxt s r of
        Ret (Some i, s') \<Rightarrow> i # failing_requests nxt mark ups (mark s' (URL (ups s' ! i)) False t) rs
      | _ \<Rightarrow> [])"

locale probing_balancer = load_balancer +
  assumes next_probe: "invar s \<Longrightarrow> \<forall>u \<in> set (ups s). \<not> Healthy u \<Longrightarrow>
      \<exists>s'. nxt s r = Ret (probeCandidate (ups s), s')"
    and mark_time: "invar s \<Longrightarrow> ups (mark s url h now) = mark_first (ups s) url h now"
begin

text \<open>One failed attempt in a pool that is all down: the oldest upstream, stamped with the time.\<close>

lemma failing_step:
  assumes "invar s" "ups s \<noteq> []" "\<forall>u \<in> set (ups s). \<not> Healthy u" "distinct (map URL (ups s))"
  obtains i s' where "nxt s r = Ret (Some i, s')" "i < length (ups s)"
    "\<forall>j < length (ups s). LastCheck (ups s ! i) \<le> LastCheck (ups s ! j)"
    "invar (mark s' (URL (ups s' ! i)) False t)"
    "ups (mark s' (URL (ups s' ! i)) False t) =
       (ups s)[i := (ups s ! i)\<lparr>Healthy := False, LastCheck := t\<rparr>]"
proof -
  obtain i where i: "probeCandidate (ups s) = Some i" "i < length (ups s)"
      "\<And>u. u \<in> set (ups s) \<Longrightarrow> LastCheck (ups s ! i) \<le> LastCheck u"
    using probeCandidate_oldest [OF assms(2)] by metis
  obtain s' where s': "nxt s r = Ret (Some i, s')"
    using next_probe [OF assms(1,3)] i(1) by metis
  have ups': "ups s' = ups s" and inv': "invar s'"
    using next_ups next_invar assms(1) s' by blast+
  show thesis
    using that [OF s' i(2)] i inv' ups' assms(4) mark_time mark_invar mark_first_distinct
    by simp
qed

text \<open>
  While the \<open>stamped\<close> upstreams are exactly those newer than \<open>t0\<close>, an attempt
  picks one that is not stamped yet, so the chosen positions are distinct until
  the pool is exhausted.
\<close>

lemma failing_distinct:
  assumes "invar s" "\<forall>u \<in> set (ups s). \<not> Healthy u" "distinct (map URL (ups s))"
    and "\<forall>j < length (ups s). j \<in> C \<longleftrightarrow> t0 < LastCheck (ups s ! j)"
    and "C \<subseteq> {..<length (ups s)}" "length rs + card C \<le> length (ups s)"
    and "\<forall>(r, t) \<in> set rs. t0 < t"
  shows "distinct (failing_requests nxt mark ups s rs) \<and>
    length (failing_requests nxt mark ups s rs) = length rs \<and>
    set (failing_requests nxt mark ups s rs) \<subseteq> {..<length (ups s)} - C"
  using assms
proof (induction rs arbitrary: s C)
  case Nil
  then show ?case by simp
next
  case (Cons rt rs)
  obtain r t where rt: "rt = (r, t)" by (cases rt)
  have fin: "finite C" using Cons.prems(5) finite_subset by blast
  have "ups s \<noteq> []" using Cons.prems(6) by auto
  then obtain i s' where i: "nxt s r = Ret (Some i, s')" "i < length (ups s)"
      "\<forall>j < length (ups s). LastCheck (ups s ! i) \<le> LastCheck (ups s ! j)"
      and inv: "invar (mark s' (URL (ups s' ! i)) False t)"
      and upd: "ups (mark s' (URL (ups s' ! i)) False t) = (ups s)[i := (ups s ! i)\<lparr>Healthy := False, LastCheck := t\<rparr>]"
    using failing_step [OF Cons.prems(1) _ Cons.prems(2,3)] by metis
  let ?m = "mark s' (URL (ups s' ! i)) False t"
  have "card C < card {..<length (ups s)}" using Cons.prems(6) by simp
  then obtain j where j: "j < length (ups s)" "j \<notin> C"
    using Cons.prems(5) by (metis card_mono fin lessThan_iff not_le subsetI)
  have "LastCheck (ups s ! i) \<le> t0" using i(3) j Cons.prems(4) by force
  then have iC: "i \<notin> C" using Cons.prems(4) i(2) by force
  have unhealthy: "\<forall>u \<in> set (ups ?m). \<not> Healthy u"
    using Cons.prems(2) set_update_subset_insert [of "ups s" i] unfolding upd by fastforce
  have urls: "distinct (map URL (ups ?m))"
    using Cons.prems(3) unfolding upd by (subst map_update_same) auto
  have stamped: "\<forall>j < length (ups ?m). j \<in> insert i C \<longleftrightarrow> t0 < LastCheck (ups ?m ! j)"
    using Cons.prems(4,7) i(2) unfolding upd by (auto simp: nth_list_update rt)
  have "insert i C \<subseteq> {..<length (ups ?m)}" "length rs + card (insert i C) \<le> length (ups ?m)"
    "\<forall>(r, t) \<in> set rs. t0 < t"
    using Cons.prems(5,6,7) i(2) iC fin unfolding upd by auto
  from Cons.IH [OF inv unhealthy urls stamped this] show ?case
    using i(1,2) iC unfolding rt upd by auto
qed

lemma failing_requests_visit_all:
  assumes "invar s" "\<forall>u \<in> set (ups s). \<not> Healthy u" "distinct (map URL (ups s))"
    and "\<forall>u \<in> set (ups s). \<forall>(r, t) \<in> set rs. LastCheck u < t"
    and "length rs = length (ups s)"
  shows "set (failing_requests nxt mark ups s rs) = {..<length (ups s)}"
proof (cases "rs = []")
  case True
  then show ?thesis using assms(5) by simp
next
  case False
  let ?t0 = "Max (LastCheck ` set (ups s))"
  have ne: "ups s \<noteq> []" using False assms(5) by auto
  have t0: "\<forall>j < length (ups s). j \<in> {} \<longleftrightarrow> ?t0 < LastCheck (ups s ! j)"
    by (auto simp: not_less)
  have "\<forall>(r, t) \<in> set rs. ?t0 < t"
    using assms(4) ne by auto
  from failing_distinct [OF assms(1-3) t0 _ _ this]
  have d: "distinct (failing_requests nxt mark ups s rs)"
      "length (failing_requests nxt mark ups s rs) = length (ups s)"
      "set (failing_requests nxt mark ups s rs) \<subseteq> {..<length (ups s)}"
    using assms(5) by auto
  then show ?thesis
    by (metis card_lessThan card_subset_eq distinct_card finite_lessThan)
qed

end

section \<open>Runs\<close>

text \<open>What a balancer sees over time: requests to choose for, and health marks.\<close>

datatype lb_event = Request request | Mark string bool int

fun lb_run ::
  "('s \<Rightarrow> request \<Rightarrow> (nat option \<times> 's) go) \<Rightarrow> ('s \<Rightarrow> string \<Rightarrow> bool \<Rightarrow> int \<Rightarrow> 's) \<Rightarrow>
   's \<Rightarrow> lb_event list \<Rightarrow> (nat option list \<times> 's) go" where
  "lb_run nxt mark s [] = Ret ([], s)"
| "lb_run nxt mark s (Request r # es) =
     go_bind (nxt s r) (\<lambda>(c, s').
       go_bind (lb_run nxt mark s' es) (\<lambda>(cs, s''). Ret (c # cs, s'')))"
| "lb_run nxt mark s (Mark url h t # es) = lb_run nxt mark (mark s url h t) es"

context load_balancer
begin

text \<open>No sequence of requests and marks makes a balancer panic, and its pool stays the pool.\<close>

lemma lb_run_safe:
  assumes "invar s"
  shows "\<exists>cs s'. lb_run nxt mark s es = Ret (cs, s') \<and> invar s' \<and>
    map URL (ups s') = map URL (ups s) \<and>
    (\<forall>c \<in> set cs. case c of None \<Rightarrow> ups s = [] | Some i \<Rightarrow> i < length (ups s))"
  using assms
proof (induction es arbitrary: s)
  case Nil
  then show ?case by simp
next
  case (Cons e es)
  show ?case
  proof (cases e)
    case (Request r)
    obtain c s1 where c: "nxt s r = Ret (c, s1)" using next_total Cons.prems by blast
    have inv1: "invar s1" and ups1: "ups s1 = ups s"
      using next_invar next_ups Cons.prems c by blast+
    have "case c of None \<Rightarrow> ups s = [] | Some i \<Rightarrow> i < length (ups s)"
      using next_some next_range Cons.prems c by (cases c) auto
    with Cons.IH [OF inv1] show ?thesis unfolding ups1 by (auto simp: Request c)
  next
    case (Mark url h t)
    have "length (ups (mark s url h t)) = length (ups s)" using mark_length Cons.prems .
    with Cons.IH [OF mark_invar [OF Cons.prems], of url h t] mark_urls [OF Cons.prems, of url h t]
    show ?thesis by (auto simp: Mark split: option.splits)
  qed
qed

end

section \<open>Cyclic scans\<close>

text \<open>
  The reference the round robin algorithms are compared with: the first
  position satisfying \<open>P\<close> among \<open>c, c + 1, \<dots>\<close> (modulo \<open>n\<close>), in at most \<open>k\<close> steps.
\<close>

fun first_from :: "(nat \<Rightarrow> bool) \<Rightarrow> nat \<Rightarrow> nat \<Rightarrow> nat \<Rightarrow> nat option" where
  "first_from P n c 0 = None"
| "first_from P n c (Suc k) =
     (if P (c mod n) then Some (c mod n) else first_from P n (Suc c) k)"

lemma first_from_Some:
  "first_from P n c k = Some i \<Longrightarrow> P i \<and> (0 < n \<longrightarrow> i < n)"
  by (induction k arbitrary: c) (auto split: if_splits)

lemma first_from_None_iff: "first_from P n c k = None \<longleftrightarrow> (\<forall>j < k. \<not> P ((c + j) mod n))"
proof (induction k arbitrary: c)
  case 0
  then show ?case by simp
next
  case (Suc k)
  have "(\<forall>j < Suc k. \<not> P ((c + j) mod n)) \<longleftrightarrow> \<not> P (c mod n) \<and> (\<forall>j < k. \<not> P ((Suc c + j) mod n))"
    by (simp add: All_less_Suc2)
  then show ?case using Suc.IH [of "Suc c"] by auto
qed

lemma mod_offset:
  assumes "i < n"
  shows "\<exists>j < n. (c + j) mod n = (i::nat)"
proof (intro exI conjI)
  let ?j = "(i + (n - c mod n)) mod n"
  show "?j < n" using assms by simp
  have "(c + ?j) mod n = (c mod n + (i + (n - c mod n))) mod n"
    by (metis mod_add_eq mod_add_left_eq mod_add_right_eq)
  also have "c mod n + (i + (n - c mod n)) = i + n"
    using assms mod_less_divisor [of n c] by linarith
  finally show "(c + ?j) mod n = i" using assms by simp
qed

lemma first_from_full:
  assumes "i < n" "P i"
  shows "\<exists>j. first_from P n c n = Some j"
  using first_from_None_iff [of P n c n] mod_offset [OF assms(1), of c] assms(2)
  by (metis not_None_eq)

lemma first_from_cong:
  assumes "0 < n" "\<And>i. i < n \<Longrightarrow> P i = Q i"
  shows "first_from P n c k = first_from Q n c k"
  using assms by (induction k arbitrary: c) auto

lemma first_from_mod:
  assumes "c mod n = d mod n"
  shows "first_from P n c k = first_from P n d k"
  using assms by (induction k arbitrary: c d) (auto simp: mod_Suc)

lemma count_list_distinct: "distinct xs \<Longrightarrow> x \<in> set xs \<Longrightarrow> count_list xs x = 1"
  by (induction xs) (auto simp: count_list_0_iff)

lemma inj_on_cyclic: "inj_on (\<lambda>k. Some ((c + k) mod n)) {..<n::nat}"
proof (rule eq_card_imp_inj_on)
  have "(\<lambda>k. Some ((c + k) mod n)) ` {..<n} = Some ` {..<n}"
    using mod_offset [of _ n c] by (force simp: image_iff)
  then show "card ((\<lambda>k. Some ((c + k) mod n)) ` {..<n}) = card {..<n}"
    by (simp add: card_image)
qed simp

text \<open>In \<open>m\<close> turns around the circle every position is met exactly \<open>m\<close> times.\<close>

lemma count_cyclic:
  assumes "i < n"
  shows "count_list (map (\<lambda>k. Some ((c + k) mod n)) [0..<m * n]) (Some i) = m"
proof (induction m)
  case 0
  then show ?case by simp
next
  case (Suc m)
  obtain j where j: "j < n" "(c + j) mod n = i" using mod_offset [OF assms] by blast
  have "Some i \<in> set (map (\<lambda>k. Some ((c + k) mod n)) [0..<n])"
    using j by (auto intro!: image_eqI [of _ _ j])
  then have "count_list (map (\<lambda>k. Some ((c + k) mod n)) [0..<n]) (Some i) = 1"
    using inj_on_cyclic [of c n]
    by (intro count_list_distinct) (simp_all add: distinct_map atLeast0LessThan)
  moreover have "[0..<Suc m * n] = [0..<n] @ map (\<lambda>k. k + n) [0..<m * n]"
    using upt_add_eq_append [of 0 n "m * n"] by (simp add: map_add_upt add.commute)
  moreover have "(\<lambda>k. Some ((c + k) mod n)) \<circ> (\<lambda>k. k + n) = (\<lambda>k. Some ((c + k) mod n))"
    by (auto simp: add.assoc [symmetric])
  ultimately show ?case using Suc.IH by simp
qed

end
