(* ===== verification/Algorithms.thy ===== *)
theory Algorithms
  imports LoadBalancer
begin

text \<open>
  Round robin, weighted round robin and least connections of
  \<open>internal/loadbalancer/loadbalancer.go\<close>: the state of each, its constructor,
  \<open>Next\<close> and \<open>MarkHealthy\<close>, and its interpretation of the interface. A Go slice
  has fewer than \<open>2 ^ 63\<close> elements, which is part of the round robin invariant
  because its counter is taken modulo \<open>uint64(n)\<close>.
\<close>

section \<open>Round robin\<close>

record roundRobin =
  rr_upstreams :: "upstream list"
  rr_idx :: "64 word"

definition NewRoundRobin :: "upstream list \<Rightarrow> roundRobin" where
  "NewRoundRobin us = \<lparr>rr_upstreams = all_healthy us, rr_idx = 0\<rparr>"

fun rr_loop :: "nat \<Rightarrow> roundRobin \<Rightarrow> (nat option \<times> roundRobin) go" where
  "rr_loop 0 rr = Ret (probeCandidate (rr_upstreams rr), rr)"
| "rr_loop (Suc k) rr =
     (let added = rr_idx rr + 1; idx = added - 1; rr' = rr\<lparr>rr_idx := added\<rparr>;
          i = unat (idx mod word_of_nat (length (rr_upstreams rr)))
      in go_bind (go_index (rr_upstreams rr) i) (\<lambda>u.
           if Healthy u then Ret (Some i, rr') else rr_loop k rr'))"

definition rr_Next :: "roundRobin \<Rightarrow> request \<Rightarrow> (nat option \<times> roundRobin) go" where
  "rr_Next rr r =
     (let n = length (rr_upstreams rr) in if n = 0 then Ret (None, rr) else rr_loop n rr)"

definition rr_MarkHealthy :: "roundRobin \<Rightarrow> string \<Rightarrow> bool \<Rightarrow> int \<Rightarrow> roundRobin" where
  "rr_MarkHealthy rr url h now = rr\<lparr>rr_upstreams := mark_first (rr_upstreams rr) url h now\<rparr>"

definition rr_invar :: "roundRobin \<Rightarrow> bool" where
  "rr_invar rr \<longleftrightarrow> length (rr_upstreams rr) < 2 ^ 63"

text \<open>The counter does not pass \<open>2 ^ 64\<close> during the scan of one request.\<close>

definition rr_ready :: "roundRobin \<Rightarrow> bool" where
  "rr_ready rr \<longleftrightarrow> unat (rr_idx rr) + length (rr_upstreams rr) \<le> 2 ^ 64"

section \<open>Weighted round robin\<close>

record weightedRoundRobin =
  wrr_upstreams :: "upstream list"
  wrr_weights :: "int list"
  wrr_current :: nat
  wrr_total :: int

definition eff_weight :: "upstream \<Rightarrow> int" where
  "eff_weight u = (if Weight u \<le> 0 then 1 else Weight u)"

definition NewWeightedRoundRobin :: "upstream list \<Rightarrow> weightedRoundRobin" where
  "NewWeightedRoundRobin us =
     \<lparr>wrr_upstreams = all_healthy us, wrr_weights = map eff_weight us, wrr_current = 0,
      wrr_total = sum_list (map eff_weight us)\<rparr>"

text \<open>
  The inner loop over \<open>j\<close>, which gives every healthy upstream its weight back.
  The two slices have the same length by construction (\<open>wrr_invar\<close> below).
\<close>

definition wrr_refill :: "upstream list \<Rightarrow> int list \<Rightarrow> int list" where
  "wrr_refill us ws = map2 (\<lambda>u w. if Healthy u then eff_weight u else w) us ws"

fun wrr_loop :: "nat \<Rightarrow> weightedRoundRobin \<Rightarrow> (nat option \<times> weightedRoundRobin) go" where
  "wrr_loop 0 wrr = Ret (probeCandidate (wrr_upstreams wrr), wrr)"
| "wrr_loop (Suc k) wrr =
     (let us = wrr_upstreams wrr; ws = wrr_weights wrr;
          c = (wrr_current wrr + 1) mod length us; wrr' = wrr\<lparr>wrr_current := c\<rparr>
      in go_bind (go_index us c) (\<lambda>u.
           if Healthy u then
             go_bind (go_index ws c) (\<lambda>w.
               if w > 0 then
                 (let ws' = ws[c := w - 1] in
                  Ret (Some c, wrr'\<lparr>wrr_weights := if w - 1 = 0 then wrr_refill us ws' else ws'\<rparr>))
               else wrr_loop k wrr')
           else wrr_loop k wrr'))"

definition wrr_Next :: "weightedRoundRobin \<Rightarrow> request \<Rightarrow> (nat option \<times> weightedRoundRobin) go" where
  "wrr_Next wrr r =
     (let n = length (wrr_upstreams wrr) in if n = 0 then Ret (None, wrr) else wrr_loop n wrr)"

definition wrr_MarkHealthy :: "weightedRoundRobin \<Rightarrow> string \<Rightarrow> bool \<Rightarrow> int \<Rightarrow> weightedRoundRobin" where
  "wrr_MarkHealthy wrr url h now =
     wrr\<lparr>wrr_upstreams := mark_first (wrr_upstreams wrr) url h now\<rparr>"

definition wrr_invar :: "weightedRoundRobin \<Rightarrow> bool" where
  "wrr_invar wrr \<longleftrightarrow> length (wrr_weights wrr) = length (wrr_upstreams wrr) \<and>
     (\<forall>w \<in> set (wrr_weights wrr). 0 < w)"

section \<open>Least connections\<close>

record leastConnections =
  lc_upstreams :: "upstream list"
  lc_active :: "int list"

definition NewLeastConnections :: "upstream list \<Rightarrow> leastConnections" where
  "NewLeastConnections us =
     \<lparr>lc_upstreams = all_healthy us, lc_active = replicate (length us) 0\<rparr>"

fun lc_loop :: "upstream list \<Rightarrow> int list \<Rightarrow> nat \<Rightarrow> nat option \<Rightarrow> int \<Rightarrow> nat option go" where
  "lc_loop [] act i best bestActive = Ret best"
| "lc_loop (u # us) act i best bestActive =
     (if \<not> Healthy u then lc_loop us act (Suc i) best bestActive
      else go_bind (go_index act i) (\<lambda>curr.
        if bestActive = - 1 \<or> curr < bestActive then lc_loop us act (Suc i) (Some i) curr
        else lc_loop us act (Suc i) best bestActive))"

definition lc_Next :: "leastConnections \<Rightarrow> request \<Rightarrow> (nat option \<times> leastConnections) go" where
  "lc_Next lc r =
     go_bind (lc_loop (lc_upstreams lc) (lc_active lc) 0 None (- 1)) (\<lambda>best.
       case best of None \<Rightarrow> Ret (probeCandidate (lc_upstreams lc), lc) | Some i \<Rightarrow> Ret (Some i, lc))"

definition lc_MarkHealthy :: "leastConnections \<Rightarrow> string \<Rightarrow> bool \<Rightarrow> int \<Rightarrow> leastConnections" where
  "lc_MarkHealthy lc url h now = lc\<lparr>lc_upstreams := mark_first (lc_upstreams lc) url h now\<rparr>"

text \<open>The common loop of \<open>Increment\<close> and \<open>Decrement\<close>.\<close>

fun lc_add :: "upstream list \<Rightarrow> int list \<Rightarrow> nat \<Rightarrow> string \<Rightarrow> int \<Rightarrow> int list go" where
  "lc_add [] act i url d = Ret act"
| "lc_add (u # us) act i url d =
     (if URL u = url then go_bind (go_index act i) (\<lambda>v. Ret (act[i := v + d]))
      else lc_add us act (Suc i) url d)"

definition lc_Increment :: "leastConnections \<Rightarrow> string \<Rightarrow> leastConnections go" where
  "lc_Increment lc url =
     go_bind (lc_add (lc_upstreams lc) (lc_active lc) 0 url 1) (\<lambda>a. Ret (lc\<lparr>lc_active := a\<rparr>))"

definition lc_Decrement :: "leastConnections \<Rightarrow> string \<Rightarrow> leastConnections go" where
  "lc_Decrement lc url =
     go_bind (lc_add (lc_upstreams lc) (lc_active lc) 0 url (- 1)) (\<lambda>a. Ret (lc\<lparr>lc_active := a\<rparr>))"

definition lc_invar :: "leastConnections \<Rightarrow> bool" where
  "lc_invar lc \<longleftrightarrow> length (lc_active lc) = length (lc_upstreams lc)"

section \<open>Round robin satisfies the interface\<close>

lemma NewRoundRobin_simps [simp, lb_simps]:
  "rr_upstreams (NewRoundRobin us) = all_healthy us" "rr_idx (NewRoundRobin us) = 0"
  by (simp_all add: NewRoundRobin_def)

lemma rr_MarkHealthy_simps [simp, lb_simps]:
  "rr_upstreams (rr_MarkHealthy rr url h now) = mark_first (rr_upstreams rr) url h now"
  "rr_idx (rr_MarkHealthy rr url h now) = rr_idx rr"
  by (simp_all add: rr_MarkHealthy_def)

lemma unat_mod_length:
  assumes "n < 2 ^ 63" "0 < n"
  shows "unat (w mod word_of_nat n :: 64 word) = unat w mod n"
  using assms by (simp add: unat_mod unat_of_nat)

lemma rr_loop_safe:
  assumes "rr_invar rr" "rr_upstreams rr \<noteq> []"
  shows "\<exists>c rr'. rr_loop k rr = Ret (c, rr') \<and> rr_upstreams rr' = rr_upstreams rr \<and>
    c \<noteq> None \<and> (\<forall>i. c = Some i \<longrightarrow> i < length (rr_upstreams rr))"
  using assms
proof (induction k arbitrary: rr)
  case 0
  then show ?case by (simp add: probeCandidate_range)
next
  case (Suc k)
  let ?i = "unat (rr_idx rr mod word_of_nat (length (rr_upstreams rr)))"
  have i: "?i < length (rr_upstreams rr)"
    using Suc.prems by (simp add: rr_invar_def unat_mod_length)
  show ?case
  proof (cases "Healthy (rr_upstreams rr ! ?i)")
    case True
    then show ?thesis using i by (simp add: Let_def)
  next
    case False
    have "rr_invar (rr\<lparr>rr_idx := rr_idx rr + 1\<rparr>)" using Suc.prems by (simp add: rr_invar_def)
    from Suc.IH [OF this] False i show ?thesis using Suc.prems by (simp add: Let_def)
  qed
qed

text \<open>Without a wrap-around of the counter the loop is a cyclic scan from the counter on.\<close>

lemma rr_loop_scan:
  assumes "rr_invar rr" "rr_upstreams rr \<noteq> []" "unat (rr_idx rr) + k \<le> 2 ^ 64"
  shows "\<exists>rr'. rr_upstreams rr' = rr_upstreams rr \<and> rr_loop k rr =
    Ret (case first_from (\<lambda>i. Healthy (rr_upstreams rr ! i)) (length (rr_upstreams rr))
           (unat (rr_idx rr)) k of None \<Rightarrow> probeCandidate (rr_upstreams rr) | Some i \<Rightarrow> Some i, rr')"
  using assms
proof (induction k arbitrary: rr)
  case 0
  then show ?case by auto
next
  case (Suc k)
  let ?n = "length (rr_upstreams rr)"
  let ?rr = "rr\<lparr>rr_idx := rr_idx rr + 1\<rparr>"
  have i: "unat (rr_idx rr mod word_of_nat ?n) = unat (rr_idx rr) mod ?n"
    using Suc.prems by (simp add: rr_invar_def unat_mod_length)
  have lt: "unat (rr_idx rr) mod ?n < ?n" using Suc.prems by simp
  show ?case
  proof (cases "k = 0")
    case True
    then show ?thesis using lt by (auto simp: i Let_def)
  next
    case False
    then have "unat (rr_idx rr + 1) = Suc (unat (rr_idx rr))"
      using Suc.prems(3) by (simp add: unat_word_ariths)
    moreover have "rr_invar ?rr" using Suc.prems by (simp add: rr_invar_def)
    ultimately show ?thesis
      using Suc.IH [of ?rr] Suc.prems lt by (auto simp: i Let_def cong: option.case_cong)
  qed
qed

lemma rr_Next_safe:
  assumes "rr_invar rr"
  shows "\<exists>c rr'. rr_Next rr r = Ret (c, rr') \<and> rr_upstreams rr' = rr_upstreams rr \<and>
    (c = None \<longleftrightarrow> rr_upstreams rr = []) \<and> (\<forall>i. c = Some i \<longrightarrow> i < length (rr_upstreams rr))"
proof (cases "rr_upstreams rr = []")
  case True
  then show ?thesis by (simp add: rr_Next_def)
next
  case False
  then show ?thesis using rr_loop_safe [OF assms False] by (force simp: rr_Next_def)
qed

lemma rr_invar_cong: "rr_upstreams rr' = rr_upstreams rr \<Longrightarrow> rr_invar rr' = rr_invar rr"
  by (simp add: rr_invar_def)

lemma rr_Next_healthy:
  assumes "rr_invar rr" "rr_ready rr" "rr_Next rr r = Ret (Some i, rr')"
    and "\<exists>u \<in> set (rr_upstreams rr). Healthy u"
  shows "Healthy (rr_upstreams rr ! i)"
proof -
  let ?H = "\<lambda>i. Healthy (rr_upstreams rr ! i)" and ?n = "length (rr_upstreams rr)"
  have ne: "rr_upstreams rr \<noteq> []" using assms(4) by auto
  obtain j where "j < ?n" "?H j" using assms(4) by (auto simp: in_set_conv_nth)
  then obtain j where j: "first_from ?H ?n (unat (rr_idx rr)) ?n = Some j"
    using first_from_full [of _ ?n ?H] by blast
  then have "i = j"
    using rr_loop_scan [OF assms(1) ne, of ?n] assms(2,3) ne
    by (auto simp: rr_Next_def rr_ready_def)
  then show ?thesis using first_from_Some [OF j] by simp
qed

interpretation rr: load_balancer rr_Next rr_MarkHealthy rr_upstreams rr_invar
proof (rule load_balancerI)
  fix rr r
  assume "rr_invar rr"
  then show "\<exists>c s'. rr_Next rr r = Ret (c, s') \<and> rr_invar s' \<and> rr_upstreams s' = rr_upstreams rr \<and>
      (c = None \<longrightarrow> rr_upstreams rr = []) \<and> (\<forall>i. c = Some i \<longrightarrow> i < length (rr_upstreams rr))"
    using rr_Next_safe [of rr r] rr_invar_cong by metis
qed (simp add: rr_invar_def)

interpretation rr: healthy_balancer rr_Next rr_MarkHealthy rr_upstreams rr_invar rr_ready
  by unfold_locales (rule rr_Next_healthy)

text \<open>With no healthy upstream every step of the loop is passed over.\<close>

lemma rr_loop_all_down:
  assumes "rr_invar rr" "rr_upstreams rr \<noteq> []" "\<forall>u \<in> set (rr_upstreams rr). \<not> Healthy u"
  shows "\<exists>rr'. rr_loop k rr = Ret (probeCandidate (rr_upstreams rr), rr')"
  using assms
proof (induction k arbitrary: rr)
  case 0
  then show ?case by simp
next
  case (Suc k)
  have "unat (rr_idx rr mod word_of_nat (length (rr_upstreams rr))) < length (rr_upstreams rr)"
    using Suc.prems by (simp add: rr_invar_def unat_mod_length)
  then show ?case
    using Suc.IH [of "rr\<lparr>rr_idx := rr_idx rr + 1\<rparr>"] Suc.prems by (simp add: Let_def rr_invar_def)
qed

interpretation rr: probing_balancer rr_Next rr_MarkHealthy rr_upstreams rr_invar
proof
  fix rr :: roundRobin and r :: request
  assume "rr_invar rr" "\<forall>u \<in> set (rr_upstreams rr). \<not> Healthy u"
  then show "\<exists>s'. rr_Next rr r = Ret (probeCandidate (rr_upstreams rr), s')"
    using rr_loop_all_down by (cases "rr_upstreams rr = []") (simp_all add: rr_Next_def)
qed simp

subsection \<open>Fairness\<close>

text \<open>In a healthy pool a request takes the position of the counter and moves it by one.\<close>

lemma rr_Next_all_up:
  assumes "rr_invar rr" "rr_upstreams rr \<noteq> []" "\<forall>u \<in> set (rr_upstreams rr). Healthy u"
  shows "rr_Next rr r =
    Ret (Some (unat (rr_idx rr) mod length (rr_upstreams rr)), rr\<lparr>rr_idx := rr_idx rr + 1\<rparr>)"
proof -
  let ?n = "length (rr_upstreams rr)"
  obtain k where k: "?n = Suc k" using assms(2) by (cases "rr_upstreams rr") auto
  have "unat (rr_idx rr mod word_of_nat ?n) = unat (rr_idx rr) mod ?n"
    using assms by (simp add: rr_invar_def unat_mod_length)
  moreover have "unat (rr_idx rr) mod ?n < ?n" using assms(2) by simp
  ultimately show ?thesis
    using assms(2,3) unfolding rr_Next_def k Let_def rr_loop.simps by (simp flip: k)
qed

lemma rr_run_all_up:
  assumes "rr_invar rr" "rr_upstreams rr \<noteq> []" "\<forall>u \<in> set (rr_upstreams rr). Healthy u"
    and "unat (rr_idx rr) + length rs \<le> 2 ^ 64"
  shows "\<exists>rr'. lb_run rr_Next rr_MarkHealthy rr (map Request rs) =
    Ret (map (\<lambda>k. Some ((unat (rr_idx rr) + k) mod length (rr_upstreams rr))) [0..<length rs], rr')"
  using assms
proof (induction rs arbitrary: rr)
  case Nil
  then show ?case by simp
next
  case (Cons r rs)
  let ?rr = "rr\<lparr>rr_idx := rr_idx rr + 1\<rparr>"
  show ?case
  proof (cases "rs = []")
    case True
    then show ?thesis using Cons.prems by (simp add: rr_Next_all_up)
  next
    case False
    then have idx: "unat (rr_idx rr + 1) = Suc (unat (rr_idx rr))"
      using Cons.prems(4) by (cases rs) (simp_all add: unat_word_ariths)
    have "rr_invar ?rr" using Cons.prems(1) by (simp add: rr_invar_def)
    with Cons.IH [of ?rr] Cons.prems idx obtain rr' where
      "lb_run rr_Next rr_MarkHealthy ?rr (map Request rs) =
        Ret (map (\<lambda>k. Some ((Suc (unat (rr_idx rr)) + k) mod length (rr_upstreams rr))) [0..<length rs], rr')"
      by auto
    moreover have "[0..<length (r # rs)] = 0 # map Suc [0..<length rs]"
      by (simp add: map_Suc_upt upt_conv_Cons del: upt_Suc)
    ultimately show ?thesis
      using Cons.prems by (simp add: rr_Next_all_up del: upt_Suc) 
  qed
qed

section \<open>Weighted round robin satisfies the interface\<close>

lemma eff_weight_pos [simp]: "0 < eff_weight u"
  by (simp add: eff_weight_def)

lemma NewWeightedRoundRobin_simps [simp, lb_simps]:
  "wrr_upstreams (NewWeightedRoundRobin us) = all_healthy us"
  "wrr_current (NewWeightedRoundRobin us) = 0"
  by (simp_all add: NewWeightedRoundRobin_def)

lemma wrr_MarkHealthy_simps [simp, lb_simps]:
  "wrr_upstreams (wrr_MarkHealthy wrr url h now) = mark_first (wrr_upstreams wrr) url h now"
  "wrr_current (wrr_MarkHealthy wrr url h now) = wrr_current wrr"
  "wrr_weights (wrr_MarkHealthy wrr url h now) = wrr_weights wrr"
  by (simp_all add: wrr_MarkHealthy_def)

lemma wrr_invar_New: "wrr_invar (NewWeightedRoundRobin us)"
  by (auto simp: wrr_invar_def NewWeightedRoundRobin_def)

text \<open>
  Spending one unit of a positive weight keeps all weights positive: a weight
  that would reach 0 is refilled at once, since its upstream is healthy.
\<close>

lemma wrr_spend_pos:
  assumes "length ws = length us" "\<forall>w \<in> set ws. (0::int) < w" "c < length us" "Healthy (us ! c)"
  shows "\<forall>w \<in> set (if ws ! c - 1 = 0 then wrr_refill us (ws[c := ws ! c - 1]) else ws[c := ws ! c - 1]).
    0 < w"
proof (cases "ws ! c - 1 = 0")
  case True
  have "0 < wrr_refill us (ws[c := 0]) ! j" if "j < length us" for j
    using that assms by (cases "j = c") (auto simp: wrr_refill_def)
  moreover have "length (wrr_refill us (ws[c := 0])) = length us"
    using assms(1) by (simp add: wrr_refill_def)
  ultimately show ?thesis using True by (auto simp: in_set_conv_nth)
next
  case False
  have "0 < ws ! c" using assms by simp
  then have "0 < ws ! c - 1" using False by linarith
  then show ?thesis using False assms set_update_subset [of ws c "ws ! c - 1"] by auto
qed

text \<open>
  The loop is a cyclic scan for a healthy upstream from the one after
  \<open>current\<close>: since all weights are positive they never turn one down.
\<close>

lemma wrr_loop_scan:
  assumes "wrr_invar wrr" "wrr_upstreams wrr \<noteq> []"
    and F: "F = first_from (\<lambda>i. Healthy (wrr_upstreams wrr ! i)) (length (wrr_upstreams wrr))
                 (Suc (wrr_current wrr)) k"
  shows "\<exists>wrr'. wrr_loop k wrr =
      Ret (case F of None \<Rightarrow> probeCandidate (wrr_upstreams wrr) | Some i \<Rightarrow> Some i, wrr') \<and>
    wrr_invar wrr' \<and> wrr_upstreams wrr' = wrr_upstreams wrr \<and>
    wrr_current wrr' mod length (wrr_upstreams wrr) =
      (case F of None \<Rightarrow> (wrr_current wrr + k) mod length (wrr_upstreams wrr) | Some i \<Rightarrow> i)"
  using assms
proof (induction k arbitrary: wrr F)
  case 0
  then show ?case by simp
next
  case (Suc k)
  let ?us = "wrr_upstreams wrr" and ?ws = "wrr_weights wrr"
  let ?c = "(wrr_current wrr + 1) mod length ?us"
  let ?wrr = "wrr\<lparr>wrr_current := ?c\<rparr>"
  have c: "?c < length ?us" using Suc.prems(2) by simp
  have len: "length ?ws = length ?us" and pos: "\<forall>w \<in> set ?ws. 0 < w"
    using Suc.prems(1) by (auto simp: wrr_invar_def)
  then have w: "0 < ?ws ! ?c" using c by simp
  show ?case
  proof (cases "Healthy (?us ! ?c)")
    case True
    then show ?thesis
      using Suc.prems(3) c len w wrr_spend_pos [OF len pos c True]
      by (auto simp: Let_def wrr_invar_def wrr_refill_def)
  next
    case False
    have "first_from P (length ?us) (Suc ?c) k = first_from P (length ?us) (Suc (Suc (wrr_current wrr))) k" for P
      by (rule first_from_mod) (simp add: mod_Suc_eq)
    moreover have "(?c + k) mod length ?us = (wrr_current wrr + Suc k) mod length ?us"
      by (simp add: mod_add_left_eq mod_Suc_eq)
    moreover have "wrr_invar ?wrr" using Suc.prems(1) by (simp add: wrr_invar_def)
    ultimately show ?thesis
      using Suc.IH [of ?wrr, OF _ _ refl] Suc.prems False c
      by (simp add: Let_def cong: option.case_cong)
  qed
qed

text \<open>The outcome of \<open>Next\<close>: the scan's choice, or the probe candidate when nothing is healthy.\<close>

definition wrr_scan :: "weightedRoundRobin \<Rightarrow> nat option" where
  "wrr_scan wrr = first_from (\<lambda>i. Healthy (wrr_upstreams wrr ! i)) (length (wrr_upstreams wrr))
     (Suc (wrr_current wrr)) (length (wrr_upstreams wrr))"

lemma wrr_Next_scan:
  assumes "wrr_invar wrr" "wrr_upstreams wrr \<noteq> []"
  obtains wrr' where "wrr_Next wrr r =
      Ret (case wrr_scan wrr of None \<Rightarrow> probeCandidate (wrr_upstreams wrr) | Some i \<Rightarrow> Some i, wrr')"
    "wrr_invar wrr'" "wrr_upstreams wrr' = wrr_upstreams wrr"
    "wrr_current wrr' mod length (wrr_upstreams wrr) =
      (case wrr_scan wrr of None \<Rightarrow> wrr_current wrr mod length (wrr_upstreams wrr) | Some i \<Rightarrow> i)"
proof -
  have "wrr_Next wrr r = wrr_loop (length (wrr_upstreams wrr)) wrr"
    using assms(2) by (simp add: wrr_Next_def)
  moreover have "(case wrr_scan wrr of
      None \<Rightarrow> (wrr_current wrr + length (wrr_upstreams wrr)) mod length (wrr_upstreams wrr) | Some i \<Rightarrow> i) =
    (case wrr_scan wrr of None \<Rightarrow> wrr_current wrr mod length (wrr_upstreams wrr) | Some i \<Rightarrow> i)"
    by (simp split: option.split)
  ultimately show thesis
    using wrr_loop_scan [OF assms wrr_scan_def] that by (metis (lifting))
qed

lemma wrr_scan_Some:
  assumes "wrr_scan wrr = Some i"
  shows "Healthy (wrr_upstreams wrr ! i)" "i < length (wrr_upstreams wrr)"
proof -
  have "wrr_upstreams wrr \<noteq> []" using assms by (auto simp: wrr_scan_def)
  then show "Healthy (wrr_upstreams wrr ! i)" "i < length (wrr_upstreams wrr)"
    using first_from_Some [OF assms [unfolded wrr_scan_def]] by auto
qed

lemma wrr_scan_None_iff: "wrr_scan wrr = None \<longleftrightarrow> (\<forall>u \<in> set (wrr_upstreams wrr). \<not> Healthy u)"
proof
  show "wrr_scan wrr = None \<Longrightarrow> \<forall>u \<in> set (wrr_upstreams wrr). \<not> Healthy u"
    using first_from_full [of _ "length (wrr_upstreams wrr)" "\<lambda>i. Healthy (wrr_upstreams wrr ! i)"]
    by (metis in_set_conv_nth option.distinct(1) wrr_scan_def)
  show "\<forall>u \<in> set (wrr_upstreams wrr). \<not> Healthy u \<Longrightarrow> wrr_scan wrr = None"
    using wrr_scan_Some [of wrr] by (cases "wrr_scan wrr") auto
qed

interpretation wrr: load_balancer wrr_Next wrr_MarkHealthy wrr_upstreams wrr_invar
proof (rule load_balancerI)
  fix wrr r
  assume inv: "wrr_invar wrr"
  show "\<exists>c s'. wrr_Next wrr r = Ret (c, s') \<and> wrr_invar s' \<and> wrr_upstreams s' = wrr_upstreams wrr \<and>
      (c = None \<longrightarrow> wrr_upstreams wrr = []) \<and> (\<forall>i. c = Some i \<longrightarrow> i < length (wrr_upstreams wrr))"
  proof (cases "wrr_upstreams wrr = []")
    case True
    then show ?thesis using inv by (simp add: wrr_Next_def)
  next
    case False
    obtain wrr' where "wrr_Next wrr r = Ret (case wrr_scan wrr of
          None \<Rightarrow> probeCandidate (wrr_upstreams wrr) | Some i \<Rightarrow> Some i, wrr')"
        "wrr_invar wrr'" "wrr_upstreams wrr' = wrr_upstreams wrr"
      by (rule wrr_Next_scan [OF inv False, of r])
    then show ?thesis
      using False by (auto split: option.split dest: wrr_scan_Some(2) probeCandidate_range)
  qed
qed (simp add: wrr_invar_def)

interpretation wrr: healthy_balancer wrr_Next wrr_MarkHealthy wrr_upstreams wrr_invar "\<lambda>_. True"
proof
  fix wrr r i wrr'
  assume *: "wrr_invar wrr" "wrr_Next wrr r = Ret (Some i, wrr')" "\<exists>u \<in> set (wrr_upstreams wrr). Healthy u"
  then obtain j where j: "wrr_scan wrr = Some j" using wrr_scan_None_iff by fastforce
  moreover have "wrr_upstreams wrr \<noteq> []" using *(3) by auto
  ultimately have "i = j" using *(1,2) by (auto elim!: wrr_Next_scan [of wrr r])
  then show "Healthy (wrr_upstreams wrr ! i)" using j wrr_scan_Some(1) by blast
qed

interpretation wrr: probing_balancer wrr_Next wrr_MarkHealthy wrr_upstreams wrr_invar
proof
  fix wrr :: weightedRoundRobin and r :: request
  assume *: "wrr_invar wrr" "\<forall>u \<in> set (wrr_upstreams wrr). \<not> Healthy u"
  show "\<exists>s'. wrr_Next wrr r = Ret (probeCandidate (wrr_upstreams wrr), s')"
  proof (cases "wrr_upstreams wrr = []")
    case True
    then show ?thesis by (simp add: wrr_Next_def)
  next
    case False
    moreover have "wrr_scan wrr = None" using *(2) by (simp add: wrr_scan_None_iff)
    ultimately show ?thesis using wrr_Next_scan [OF *(1) False, of r] by auto
  qed
qed simp

subsection \<open>Weights play no part\<close>

text \<open>
  Two balancers that agree on everything but the weights: same URLs, health and
  times, and the same place in the cycle.
\<close>

definition same_but_weight :: "weightedRoundRobin \<Rightarrow> weightedRoundRobin \<Rightarrow> bool" where
  "same_but_weight a b \<longleftrightarrow> wrr_invar a \<and> wrr_invar b \<and>
     map (\<lambda>u. u\<lparr>Weight := 0\<rparr>) (wrr_upstreams a) = map (\<lambda>u. u\<lparr>Weight := 0\<rparr>) (wrr_upstreams b) \<and>
     wrr_current a mod length (wrr_upstreams a) = wrr_current b mod length (wrr_upstreams b)"

lemma unweight_nth:
  assumes "map (\<lambda>u. u\<lparr>Weight := 0\<rparr>) us = map (\<lambda>u. u\<lparr>Weight := 0\<rparr>) vs" "i < length us"
  shows "URL (us ! i) = URL (vs ! i)" "Healthy (us ! i) = Healthy (vs ! i)"
    "LastCheck (us ! i) = LastCheck (vs ! i)"
proof -
  have "length us = length vs" using assms(1) map_eq_imp_length_eq by blast
  with assms have eq: "(us ! i)\<lparr>Weight := 0\<rparr> = (vs ! i)\<lparr>Weight := 0\<rparr>"
    by (metis (no_types, lifting) nth_map)
  then show "URL (us ! i) = URL (vs ! i)" "Healthy (us ! i) = Healthy (vs ! i)"
    "LastCheck (us ! i) = LastCheck (vs ! i)"
    by (metis upstream.select_convs(1) upstream.surjective upstream.update_convs(2),
        metis upstream.select_convs(3) upstream.surjective upstream.update_convs(2),
        metis upstream.select_convs(4) upstream.surjective upstream.update_convs(2))
qed

lemma probe_loop_unweight: "probe_loop (map (\<lambda>u. u\<lparr>Weight := 0\<rparr>) us) i c = probe_loop us i c"
  by (induction us arbitrary: i c) (auto split: option.splits)

lemma mark_first_unweight:
  "map (\<lambda>u. u\<lparr>Weight := 0\<rparr>) (mark_first us url h t) = mark_first (map (\<lambda>u. u\<lparr>Weight := 0\<rparr>) us) url h t"
  by (induction us) auto

lemma same_but_weight_probe:
  "same_but_weight a b \<Longrightarrow> probeCandidate (wrr_upstreams a) = probeCandidate (wrr_upstreams b)"
  unfolding same_but_weight_def probeCandidate_def by (metis probe_loop_unweight)

lemma same_but_weight_length:
  "same_but_weight a b \<Longrightarrow> length (wrr_upstreams a) = length (wrr_upstreams b)"
  unfolding same_but_weight_def using map_eq_imp_length_eq by blast

lemma same_but_weight_scan:
  assumes "same_but_weight a b"
  shows "wrr_scan a = wrr_scan b"
proof (cases "wrr_upstreams a = []")
  case True
  then show ?thesis using same_but_weight_length [OF assms] by (simp add: wrr_scan_def)
next
  case False
  have "Suc (wrr_current a) mod length (wrr_upstreams a) = Suc (wrr_current b) mod length (wrr_upstreams a)"
    using assms same_but_weight_length [OF assms] unfolding same_but_weight_def by (metis mod_Suc_eq)
  then have "wrr_scan a = first_from (\<lambda>i. Healthy (wrr_upstreams a ! i)) (length (wrr_upstreams a))
      (Suc (wrr_current b)) (length (wrr_upstreams a))"
    unfolding wrr_scan_def by (rule first_from_mod)
  also have "\<dots> = wrr_scan b"
    unfolding wrr_scan_def same_but_weight_length [OF assms, symmetric]
    using False assms unweight_nth(2) by (intro first_from_cong) (auto simp: same_but_weight_def)
  finally show ?thesis .
qed

lemma same_but_weight_Next:
  assumes "same_but_weight a b"
  obtains c a' b' where "wrr_Next a r = Ret (c, a')" "wrr_Next b r = Ret (c, b')" "same_but_weight a' b'"
proof (cases "wrr_upstreams a = []")
  case True
  then have "wrr_upstreams b = []" using same_but_weight_length [OF assms] by simp
  with True that [of None a b] assms show thesis by (simp add: wrr_Next_def)
next
  case False
  then have ne: "wrr_upstreams b \<noteq> []" using same_but_weight_length [OF assms] by auto
  have inv: "wrr_invar a" "wrr_invar b" using assms by (auto simp: same_but_weight_def)
  note eqs = same_but_weight_scan [OF assms] same_but_weight_probe [OF assms]
    same_but_weight_length [OF assms]
  obtain a' where a': "wrr_Next a r = Ret (case wrr_scan a of
        None \<Rightarrow> probeCandidate (wrr_upstreams a) | Some i \<Rightarrow> Some i, a')"
      "wrr_invar a'" "wrr_upstreams a' = wrr_upstreams a"
      "wrr_current a' mod length (wrr_upstreams a) =
        (case wrr_scan a of None \<Rightarrow> wrr_current a mod length (wrr_upstreams a) | Some i \<Rightarrow> i)"
    by (rule wrr_Next_scan [OF inv(1) False, of r])
  obtain b' where b': "wrr_Next b r = Ret (case wrr_scan b of
        None \<Rightarrow> probeCandidate (wrr_upstreams b) | Some i \<Rightarrow> Some i, b')"
      "wrr_invar b'" "wrr_upstreams b' = wrr_upstreams b"
      "wrr_current b' mod length (wrr_upstreams b) =
        (case wrr_scan b of None \<Rightarrow> wrr_current b mod length (wrr_upstreams b) | Some i \<Rightarrow> i)"
    by (rule wrr_Next_scan [OF inv(2) ne, of r])
  have "same_but_weight a' b'"
    using a'(2-4) b'(2-4) eqs assms by (simp add: same_but_weight_def split: option.splits)
  with a'(1) b'(1) eqs show thesis by (intro that) (simp_all cong: option.case_cong)
qed

lemma same_but_weight_run:
  assumes "same_but_weight a b"
  shows "\<exists>cs a' b'. lb_run wrr_Next wrr_MarkHealthy a es = Ret (cs, a') \<and>
    lb_run wrr_Next wrr_MarkHealthy b es = Ret (cs, b')"
  using assms
proof (induction es arbitrary: a b)
  case Nil
  then show ?case by simp
next
  case (Cons e es)
  show ?case
  proof (cases e)
    case (Request r)
    obtain c a' b' where *: "wrr_Next a r = Ret (c, a')" "wrr_Next b r = Ret (c, b')"
        "same_but_weight a' b'"
      by (rule same_but_weight_Next [OF Cons.prems])
    with Cons.IH [OF *(3)] show ?thesis by (auto simp: Request)
  next
    case (Mark url h t)
    have "same_but_weight (wrr_MarkHealthy a url h t) (wrr_MarkHealthy b url h t)"
      using Cons.prems wrr.mark_invar by (auto simp: same_but_weight_def mark_first_unweight)
    with Cons.IH show ?thesis by (simp add: Mark)
  qed
qed

text \<open>
  C34. Weighted round robin: configured weights have no influence. Two balancers
  built from upstreams that differ in their weights only make the same choice
  for every request of every sequence of requests and health marks.
\<close>

theorem wrr_ignores_weights:
  assumes "map (\<lambda>u. u\<lparr>Weight := 0\<rparr>) us = map (\<lambda>u. u\<lparr>Weight := 0\<rparr>) vs"
  shows "\<exists>cs a b. lb_run wrr_Next wrr_MarkHealthy (NewWeightedRoundRobin us) es = Ret (cs, a) \<and>
    lb_run wrr_Next wrr_MarkHealthy (NewWeightedRoundRobin vs) es = Ret (cs, b)"
proof (rule same_but_weight_run)
  have "map (\<lambda>u. u\<lparr>Weight := 0\<rparr>) (all_healthy us) = map (\<lambda>u. u\<lparr>Healthy := True\<rparr>) (map (\<lambda>u. u\<lparr>Weight := 0\<rparr>) us)"
    for us by (simp add: all_healthy_def)
  moreover have "length us = length vs" using assms map_eq_imp_length_eq by blast
  ultimately show "same_but_weight (NewWeightedRoundRobin us) (NewWeightedRoundRobin vs)"
    using assms by (simp only: same_but_weight_def wrr_invar_New NewWeightedRoundRobin_simps) simp
qed

theorem wrr_ignores_weights_witness:
  "\<exists>cs a b. lb_run wrr_Next wrr_MarkHealthy
      (NewWeightedRoundRobin [\<lparr>URL = ''a'', Weight = 9, Healthy = False, LastCheck = 0\<rparr>,
        \<lparr>URL = ''b'', Weight = 1, Healthy = False, LastCheck = 0\<rparr>])
      [Request some_request, Mark ''a'' False 7, Request some_request] = Ret (cs, a) \<and>
    lb_run wrr_Next wrr_MarkHealthy
      (NewWeightedRoundRobin [\<lparr>URL = ''a'', Weight = 1, Healthy = False, LastCheck = 0\<rparr>,
        \<lparr>URL = ''b'', Weight = 1, Healthy = False, LastCheck = 0\<rparr>])
      [Request some_request, Mark ''a'' False 7, Request some_request] = Ret (cs, b)"
  by (rule wrr_ignores_weights) simp

text \<open>
  C31. Round robin is fair: from a fresh balancer whose upstreams stay healthy,
  \<open>m\<close> requests per upstream go to every upstream exactly \<open>m\<close> times, as long as
  the counter does not overflow.
\<close>

theorem rr_fair:
  assumes "us \<noteq> []" "length us < 2 ^ 63" "length rs = m * length us" "m * length us \<le> 2 ^ 64"
  shows "\<exists>cs rr. lb_run rr_Next rr_MarkHealthy (NewRoundRobin us) (map Request rs) = Ret (cs, rr) \<and>
    (\<forall>i < length us. count_list cs (Some i) = m)"
proof -
  have "\<exists>rr. lb_run rr_Next rr_MarkHealthy (NewRoundRobin us) (map Request rs) =
      Ret (map (\<lambda>k. Some ((0 + k) mod length us)) [0..<m * length us], rr)"
    using rr_run_all_up [of "NewRoundRobin us" rs] assms by (auto simp: rr_invar_def)
  then show ?thesis using count_cyclic [of _ "length us" 0 m] by fastforce
qed

theorem rr_fair_witness:
  "\<exists>cs rr. lb_run rr_Next rr_MarkHealthy
      (NewRoundRobin [\<lparr>URL = ''a'', Weight = 9, Healthy = False, LastCheck = 0\<rparr>,
        \<lparr>URL = ''b'', Weight = 1, Healthy = False, LastCheck = 0\<rparr>])
      (map Request (replicate 6 some_request)) = Ret (cs, rr) \<and> (\<forall>i < 2. count_list cs (Some i) = 3)"
  using rr_fair [of "[\<lparr>URL = ''a'', Weight = 9, Healthy = False, LastCheck = 0\<rparr>,
        \<lparr>URL = ''b'', Weight = 1, Healthy = False, LastCheck = 0\<rparr>]" "replicate 6 some_request" 3]
  by (simp flip: numeral_2_eq_2)

text \<open>
  The round robin counter wraps at \<open>2 ^ 64\<close>, which is not a multiple of every
  pool size: at the wrap-around one request of a pool of three skips a healthy
  upstream and is sent to the probe candidate, which is down.
\<close>

theorem rr_wrap_skips_healthy:
  "rr_Next \<lparr>rr_upstreams = [\<lparr>URL = ''a'', Weight = 1, Healthy = False, LastCheck = 5\<rparr>,
      \<lparr>URL = ''b'', Weight = 1, Healthy = False, LastCheck = 6\<rparr>,
      \<lparr>URL = ''c'', Weight = 1, Healthy = True, LastCheck = 7\<rparr>], rr_idx = - 1\<rparr> r =
   Ret (Some 0, \<lparr>rr_upstreams = [\<lparr>URL = ''a'', Weight = 1, Healthy = False, LastCheck = 5\<rparr>,
      \<lparr>URL = ''b'', Weight = 1, Healthy = False, LastCheck = 6\<rparr>,
      \<lparr>URL = ''c'', Weight = 1, Healthy = True, LastCheck = 7\<rparr>], rr_idx = 2\<rparr>)"
  by (simp add: rr_Next_def numeral_3_eq_3 Let_def go_index_def probeCandidate_def)

section \<open>Least connections satisfies the interface\<close>

lemma NewLeastConnections_simps [simp, lb_simps]:
  "lc_upstreams (NewLeastConnections us) = all_healthy us"
  "lc_active (NewLeastConnections us) = replicate (length us) 0"
  by (simp_all add: NewLeastConnections_def)

lemma lc_MarkHealthy_simps [simp, lb_simps]:
  "lc_upstreams (lc_MarkHealthy lc url h now) = mark_first (lc_upstreams lc) url h now"
  "lc_active (lc_MarkHealthy lc url h now) = lc_active lc"
  by (simp_all add: lc_MarkHealthy_def)

text \<open>
  The loop keeps a healthy best candidate once it has one, whatever the
  counters, and finds one as soon as the rest of the slice has one.
\<close>

lemma lc_loop_safe:
  assumes "i + length us \<le> length act"
  shows "\<exists>b. lc_loop us act i best ba = Ret b \<and>
    (b = best \<or> (\<exists>j < length us. b = Some (i + j) \<and> Healthy (us ! j))) \<and>
    (b = None \<longrightarrow> best = None \<and> (ba = - 1 \<longrightarrow> (\<forall>u \<in> set us. \<not> Healthy u)))"
  using assms
proof (induction us arbitrary: i best ba)
  case Nil
  then show ?case by simp
next
  case (Cons u us)
  have le: "Suc i + length us \<le> length act" using Cons.prems by simp
  obtain b1 where b1: "lc_loop us act (Suc i) best ba = Ret b1"
      "b1 = best \<or> (\<exists>j < length us. b1 = Some (Suc i + j) \<and> Healthy (us ! j))"
      "b1 = None \<longrightarrow> best = None \<and> (ba = - 1 \<longrightarrow> (\<forall>u \<in> set us. \<not> Healthy u))"
    using Cons.IH [OF le] by metis
  obtain b2 where b2: "lc_loop us act (Suc i) (Some i) (act ! i) = Ret b2"
      "b2 = Some i \<or> (\<exists>j < length us. b2 = Some (Suc i + j) \<and> Healthy (us ! j))" "b2 \<noteq> None"
    using Cons.IH [OF le, of "Some i" "act ! i"] by auto
  have shift: "(\<exists>j < length us. b = Some (Suc i + j) \<and> Healthy (us ! j)) \<Longrightarrow>
      \<exists>j < length (u # us). b = Some (i + j) \<and> Healthy ((u # us) ! j)" for b
    by (metis Suc_mono add_Suc_shift length_Cons nth_Cons_Suc)
  have zero: "Healthy u \<Longrightarrow> \<exists>j < length (u # us). Some i = Some (i + j) \<and> Healthy ((u # us) ! j)"
    by (intro exI [of _ 0]) simp
  show ?case
    using b1 b2 le shift zero Cons.prems by (cases "Healthy u") (auto simp del: length_Cons)
qed

lemma lc_Next_cases:
  assumes "lc_invar lc"
  shows "\<exists>c. lc_Next lc r = Ret (c, lc) \<and>
    (\<exists>i < length (lc_upstreams lc). c = Some i \<and> Healthy (lc_upstreams lc ! i)) \<or>
    lc_Next lc r = Ret (probeCandidate (lc_upstreams lc), lc) \<and>
    (\<forall>u \<in> set (lc_upstreams lc). \<not> Healthy u)"
  using lc_loop_safe [of 0 "lc_upstreams lc" "lc_active lc" None "- 1"] assms
  by (auto simp: lc_Next_def lc_invar_def)

interpretation lc: load_balancer lc_Next lc_MarkHealthy lc_upstreams lc_invar
proof (rule load_balancerI)
  fix lc r
  assume "lc_invar lc"
  then show "\<exists>c s'. lc_Next lc r = Ret (c, s') \<and> lc_invar s' \<and> lc_upstreams s' = lc_upstreams lc \<and>
      (c = None \<longrightarrow> lc_upstreams lc = []) \<and> (\<forall>i. c = Some i \<longrightarrow> i < length (lc_upstreams lc))"
    using lc_Next_cases [of lc r] by (auto simp: probeCandidate_range)
qed (simp add: lc_invar_def)

interpretation lc: healthy_balancer lc_Next lc_MarkHealthy lc_upstreams lc_invar "\<lambda>_. True"
proof
  fix lc r i lc'
  assume "lc_invar lc" "lc_Next lc r = Ret (Some i, lc')" "\<exists>u \<in> set (lc_upstreams lc). Healthy u"
  then show "Healthy (lc_upstreams lc ! i)" using lc_Next_cases [of lc r] by auto
qed

interpretation lc: probing_balancer lc_Next lc_MarkHealthy lc_upstreams lc_invar
proof
  fix lc :: leastConnections and r :: request
  assume "lc_invar lc" "\<forall>u \<in> set (lc_upstreams lc). \<not> Healthy u"
  then show "\<exists>s'. lc_Next lc r = Ret (probeCandidate (lc_upstreams lc), s')"
    using lc_Next_cases [of lc r] by (auto dest: nth_mem)
qed simp

subsection \<open>The least loaded upstream\<close>

text \<open>
  \<open>lc_best\<close> is what the loop looks for: the first healthy position with the
  smallest counter. The sentinel \<open>-1\<close> does no harm while no counter is negative.
\<close>

definition lc_best :: "upstream list \<Rightarrow> int list \<Rightarrow> nat \<Rightarrow> bool" where
  "lc_best us act i \<longleftrightarrow> i < length us \<and> Healthy (us ! i) \<and>
     (\<forall>j < length us. Healthy (us ! j) \<longrightarrow> act ! i \<le> act ! j \<and> (j < i \<longrightarrow> act ! i < act ! j))"

lemma lc_best_snoc_unhealthy: "\<not> Healthy u \<Longrightarrow> lc_best (us @ [u]) act i = lc_best us act i"
  unfolding lc_best_def
  by (auto simp: nth_append less_Suc_eq split: if_splits)

lemma lc_best_snoc_keep:
  "lc_best us act b \<Longrightarrow> act ! b \<le> act ! length us \<Longrightarrow> lc_best (us @ [u]) act b"
  unfolding lc_best_def by (auto simp: nth_append less_Suc_eq)

lemma lc_best_snoc_new:
  assumes "Healthy u" "\<forall>j < length us. Healthy (us ! j) \<longrightarrow> act ! length us < act ! j"
  shows "lc_best (us @ [u]) act (length us)"
  using assms unfolding lc_best_def by (auto simp: nth_append less_Suc_eq intro: less_imp_le)

lemma lc_loop_least:
  assumes "length act = length (vs @ us)" "\<forall>a \<in> set act. 0 \<le> a"
    and "best = None \<and> ba = - 1 \<and> (\<forall>v \<in> set vs. \<not> Healthy v) \<or>
      (\<exists>b. best = Some b \<and> ba = act ! b \<and> lc_best vs act b)"
  shows "\<exists>c. lc_loop us act (length vs) best ba = Ret c \<and>
    (case c of None \<Rightarrow> \<forall>v \<in> set (vs @ us). \<not> Healthy v | Some i \<Rightarrow> lc_best (vs @ us) act i)"
  using assms
proof (induction us arbitrary: vs best ba)
  case Nil
  then show ?case by auto
next
  case (Cons u us)
  let ?v = "act ! length vs"
  have len: "length act = length ((vs @ [u]) @ us)" using Cons.prems(1) by simp
  have idx: "length vs < length act" using Cons.prems(1) by simp
  note IH = Cons.IH [OF len Cons.prems(2), unfolded append.assoc append_Cons append_Nil]
  consider (down) "\<not> Healthy u"
    | (take) "Healthy u" "ba = - 1 \<or> ?v < ba"
    | (keep) "Healthy u" "\<not> (ba = - 1 \<or> ?v < ba)" by blast
  then show ?case
  proof cases
    case down
    with Cons.prems(3) IH [of best ba] show ?thesis by (auto simp: lc_best_snoc_unhealthy)
  next
    case take
    have "0 \<le> ba" if "best = Some b" "ba = act ! b" "lc_best vs act b" for b
      using that Cons.prems(1,2) by (auto simp: lc_best_def)
    then have "\<forall>j < length vs. Healthy (vs ! j) \<longrightarrow> ?v < act ! j"
      using Cons.prems(3) take(2) by (fastforce simp: lc_best_def)
    then have "lc_best (vs @ [u]) act (length vs)" using take(1) by (intro lc_best_snoc_new)
    with IH [of "Some (length vs)" ?v] take idx show ?thesis by auto
  next
    case keep
    then obtain b where "best = Some b" "ba = act ! b" "lc_best vs act b"
      using Cons.prems(3) by auto
    with IH [of best ba] keep idx lc_best_snoc_keep show ?thesis by auto
  qed
qed

text \<open>
  Least connections: with a healthy upstream in the pool and no negative
  counter, the request goes to the first healthy upstream with the fewest
  active connections.
\<close>

theorem lc_Next_least:
  assumes "lc_invar lc" "\<forall>a \<in> set (lc_active lc). 0 \<le> a" "\<exists>u \<in> set (lc_upstreams lc). Healthy u"
  shows "\<exists>i. lc_Next lc r = Ret (Some i, lc) \<and> i < length (lc_upstreams lc) \<and>
    Healthy (lc_upstreams lc ! i) \<and>
    (\<forall>j < length (lc_upstreams lc). Healthy (lc_upstreams lc ! j) \<longrightarrow>
       lc_active lc ! i \<le> lc_active lc ! j \<and> (j < i \<longrightarrow> lc_active lc ! i < lc_active lc ! j))"
proof -
  obtain i where "lc_Next lc r = Ret (Some i, lc)" "lc_best (lc_upstreams lc) (lc_active lc) i"
    using lc_loop_least [of "lc_active lc" "[]" "lc_upstreams lc" None "- 1"] assms
    by (auto simp: lc_Next_def lc_invar_def split: option.splits)
  then show ?thesis unfolding lc_best_def by blast
qed

theorem lc_Next_least_witness:
  "\<exists>i. lc_Next \<lparr>lc_upstreams = [\<lparr>URL = ''a'', Weight = 1, Healthy = True, LastCheck = 0\<rparr>,
      \<lparr>URL = ''b'', Weight = 1, Healthy = True, LastCheck = 0\<rparr>], lc_active = [3, 2]\<rparr> some_request =
    Ret (Some i, \<lparr>lc_upstreams = [\<lparr>URL = ''a'', Weight = 1, Healthy = True, LastCheck = 0\<rparr>,
      \<lparr>URL = ''b'', Weight = 1, Healthy = True, LastCheck = 0\<rparr>], lc_active = [3, 2]\<rparr>)"
  using lc_Next_least [of "\<lparr>lc_upstreams = [\<lparr>URL = ''a'', Weight = 1, Healthy = True, LastCheck = 0\<rparr>,
      \<lparr>URL = ''b'', Weight = 1, Healthy = True, LastCheck = 0\<rparr>], lc_active = [3, 2]\<rparr>" some_request]
  by (auto simp: lc_invar_def)

text \<open>Counting connections: an increment is undone by a decrement.\<close>

lemma lc_add_nth:
  assumes "i + length us \<le> length act"
  shows "\<exists>act'. lc_add us act i url d = Ret act' \<and> length act' = length act \<and>
    lc_add us act' i url (- d) = Ret act"
  using assms
proof (induction us arbitrary: i)
  case Nil
  then show ?case by simp
next
  case (Cons u us)
  show ?case
  proof (cases "URL u = url")
    case True
    with Cons.prems show ?thesis by simp
  next
    case False
    with Cons.prems Cons.IH [of "Suc i"] show ?thesis by simp
  qed
qed

lemma lc_Increment_Decrement:
  assumes "lc_invar lc"
  shows "go_bind (lc_Increment lc url) (\<lambda>lc'. lc_Decrement lc' url) = Ret lc"
  using lc_add_nth [of 0 "lc_upstreams lc" "lc_active lc" url 1] assms
  by (auto simp: lc_Increment_def lc_Decrement_def lc_invar_def)

end
