(* ===== verification/Maglev.thy ===== *)
theory Maglev
  imports Crc32 Algorithms
begin

text \<open>
  The Maglev algorithm of \<open>internal/loadbalancer/loadbalancer.go\<close>: the lookup
  table built from one permutation of the slots per upstream, the lazy rebuild
  after a health change, and the choice by request hash. The table size is the
  code's constant; the fill loop, which spins forever without a healthy
  upstream, is a partial function whose value None is that divergence.
\<close>

section \<open>The lookup table\<close>

definition maglevTableSize :: nat where
  "maglevTableSize = 65537"

record maglev =
  ml_upstreams :: "upstream list"
  ml_table :: "nat list"
  ml_dirty :: bool

definition hasHealthy :: "upstream list \<Rightarrow> bool" where
  "hasHealthy us \<longleftrightarrow> (\<exists>u \<in> set us. Healthy u)"

text \<open>The slots an upstream prefers, in order: \<open>uint64\<close> arithmetic on its two checksums.\<close>

definition maglev_perm :: "string \<Rightarrow> 64 word list" where
  "maglev_perm url =
     (let h1 = ChecksumIEEE (bytes_of (url @ ''1'')); h2 = ChecksumIEEE (bytes_of (url @ ''2''))
      in map (\<lambda>j. (ucast h1 + word_of_nat j * ucast h2) mod word_of_nat maglevTableSize)
           [0..<maglevTableSize])"

text \<open>The local state of the fill loop: the table, the \<open>next\<close> slice and the count.\<close>

record fill_state =
  fs_table :: "nat list"
  fs_next :: "nat list"
  fs_filled :: nat

text \<open>
  The innermost \<open>for\<close>: walk the permutation from \<open>next[i]\<close> until a slot holds 0.
  Running past the permutation is an index panic. The result is the slot and
  the new \<open>next[i]\<close>.
\<close>

function probe_slot :: "64 word list \<Rightarrow> nat list \<Rightarrow> nat \<Rightarrow> (nat \<times> nat) go" where
  "probe_slot perm table nx =
     (if nx < length perm then
        (let idx = unat (perm ! nx mod word_of_nat maglevTableSize) in
         go_bind (go_index table idx) (\<lambda>v.
           if v = 0 then Ret (idx, Suc nx) else probe_slot perm table (Suc nx)))
      else Panic)"
  by auto
termination by (relation "measure (\<lambda>(perm, table, nx). length perm - nx)") auto

declare probe_slot.simps [simp del]

definition fill_one :: "64 word list list \<Rightarrow> nat \<Rightarrow> fill_state \<Rightarrow> fill_state go" where
  "fill_one perms i st =
     go_bind (go_index perms i) (\<lambda>perm.
     go_bind (go_index (fs_next st) i) (\<lambda>nx.
     go_bind (probe_slot perm (fs_table st) nx) (\<lambda>(idx, nx').
       Ret (st\<lparr>fs_table := (fs_table st)[idx := i], fs_next := (fs_next st)[i := nx'],
               fs_filled := Suc (fs_filled st)\<rparr>))))"

text \<open>One round over the upstreams from position \<open>i\<close> on, with the \<open>break\<close> and the \<open>continue\<close>.\<close>

fun fill_round :: "64 word list list \<Rightarrow> upstream list \<Rightarrow> nat \<Rightarrow> fill_state \<Rightarrow> fill_state go" where
  "fill_round perms [] i st = Ret st"
| "fill_round perms (u # us) i st =
     (if maglevTableSize \<le> fs_filled st then Ret st
      else if \<not> Healthy u then fill_round perms us (Suc i) st
      else go_bind (fill_one perms i st) (fill_round perms us (Suc i)))"

partial_function (option) fill_table ::
  "64 word list list \<Rightarrow> upstream list \<Rightarrow> fill_state \<Rightarrow> fill_state go option" where
  "fill_table perms us st =
     (if fs_filled st < maglevTableSize
      then (case fill_round perms us 0 st of
              Ret st' \<Rightarrow> fill_table perms us st' | Panic \<Rightarrow> Some Panic | Diverge \<Rightarrow> Some Diverge)
      else Some (Ret st))"

definition buildTableLocked :: "maglev \<Rightarrow> maglev go" where
  "buildTableLocked m =
     (if \<not> hasHealthy (ml_upstreams m) then Ret m
      else
        (let us = ml_upstreams m; perms = map (\<lambda>u. maglev_perm (URL u)) us;
             st = \<lparr>fs_table = replicate maglevTableSize 0, fs_next = replicate (length us) 0,
                   fs_filled = 0\<rparr>
         in case fill_table perms us st of
              None \<Rightarrow> Diverge
            | Some out \<Rightarrow> go_bind out (\<lambda>st'. Ret (m\<lparr>ml_table := fs_table st'\<rparr>))))"

definition NewMaglev :: "upstream list \<Rightarrow> maglev go" where
  "NewMaglev us =
     buildTableLocked \<lparr>ml_upstreams = all_healthy us, ml_table = [], ml_dirty = False\<rparr>"

section \<open>Selection and marking\<close>

text \<open>The scan of \<open>Next\<close> for any healthy upstream, when the table's choice is down.\<close>

fun first_healthy :: "upstream list \<Rightarrow> nat \<Rightarrow> nat option" where
  "first_healthy [] i = None"
| "first_healthy (u # us) i = (if Healthy u then Some i else first_healthy us (Suc i))"

text \<open>The part of \<open>Next\<close> under the read lock.\<close>

definition ml_select :: "maglev \<Rightarrow> request \<Rightarrow> nat option go" where
  "ml_select m r =
     (if ml_upstreams m = [] \<or> ml_table m = [] then Ret None
      else
        (let hash = ChecksumIEEE (bytes_of (Path r @ RawQuery r)) in
         go_bind (go_index (ml_table m) (unat (hash mod word_of_nat maglevTableSize))) (\<lambda>idx.
         go_bind (go_index (ml_upstreams m) idx) (\<lambda>u.
           if Healthy u then Ret (Some idx)
           else case first_healthy (ml_upstreams m) 0 of
                  Some i \<Rightarrow> Ret (Some i)
                | None \<Rightarrow> Ret (probeCandidate (ml_upstreams m))))))"

definition ml_Next :: "maglev \<Rightarrow> request \<Rightarrow> (nat option \<times> maglev) go" where
  "ml_Next m r =
     go_bind (if ml_dirty m
              then go_bind (buildTableLocked m) (\<lambda>m'. Ret (m'\<lparr>ml_dirty := False\<rparr>))
              else Ret m)
       (\<lambda>m'. go_bind (ml_select m' r) (\<lambda>c. Ret (c, m')))"

text \<open>\<open>setHealth\<close>: the upstreams afterwards and whether the state changed.\<close>

fun setHealth :: "upstream list \<Rightarrow> string \<Rightarrow> bool \<Rightarrow> int \<Rightarrow> bool \<times> upstream list" where
  "setHealth [] url h now = (False, [])"
| "setHealth (u # us) url h now =
     (if URL u \<noteq> url then (case setHealth us url h now of (c, us') \<Rightarrow> (c, u # us'))
      else if Healthy u = h then (False, u # us)
      else (True, u\<lparr>Healthy := h, LastCheck := AtomicTime_Store (Some now)\<rparr> # us))"

definition ml_MarkHealthy :: "maglev \<Rightarrow> string \<Rightarrow> bool \<Rightarrow> int \<Rightarrow> maglev" where
  "ml_MarkHealthy m url h now =
     (case setHealth (ml_upstreams m) url h now of
        (changed, us) \<Rightarrow>
          (let m' = m\<lparr>ml_upstreams := us\<rparr> in if \<not> changed then m' else m'\<lparr>ml_dirty := True\<rparr>))"

section \<open>The permutations\<close>

text \<open>The slot at place \<open>j\<close> of an upstream's permutation, as arithmetic on naturals.\<close>

definition h1_of :: "string \<Rightarrow> nat" where
  "h1_of url = unat (ChecksumIEEE (bytes_of (url @ ''1'')))"

definition h2_of :: "string \<Rightarrow> nat" where
  "h2_of url = unat (ChecksumIEEE (bytes_of (url @ ''2'')))"

definition slot :: "string \<Rightarrow> nat \<Rightarrow> nat" where
  "slot url j = (h1_of url + j * h2_of url) mod maglevTableSize"

lemma length_maglev_perm [simp]: "length (maglev_perm url) = maglevTableSize"
  by (simp add: maglev_perm_def Let_def)

lemma unat_ucast_32_64: "unat (ucast (w :: 32 word) :: 64 word) = unat w"
  using unsigned_less [of w, where ?'a = nat] by (simp add: unsigned_ucast_eq take_bit_nat_eq_self)

text \<open>The 64-bit sum does not overflow: the place is below \<open>2 ^ 17\<close>, the checksums below \<open>2 ^ 32\<close>.\<close>

lemma perm_no_overflow:
  assumes "j < maglevTableSize"
  shows "unat (ucast (a :: 32 word) + word_of_nat j * ucast (b :: 32 word) :: 64 word) = unat a + j * unat b"
proof -
  have a: "unat a < 2 ^ 32" and b: "unat b < 2 ^ 32"
    using unsigned_less [of a, where ?'a = nat] unsigned_less [of b, where ?'a = nat] by simp_all
  have "j * unat b \<le> 2 ^ 17 * 2 ^ 32"
    using assms b by (intro mult_mono) (auto simp: maglevTableSize_def)
  then have "unat a + j * unat b < 2 ^ 64" using a by simp
  moreover have "j * unat b < 2 ^ 64" using calculation by linarith
  moreover have "unat (word_of_nat j :: 64 word) = j"
    using assms by (simp add: unat_of_nat maglevTableSize_def)
  ultimately show ?thesis
    by (simp add: unat_word_ariths unat_ucast_32_64)
qed

lemma unat_tableSize [simp]:
  "unat (word_of_nat maglevTableSize :: 64 word) = maglevTableSize"
  "unat (word_of_nat maglevTableSize :: 32 word) = maglevTableSize"
  by (simp_all add: maglevTableSize_def)

lemma nth_maglev_perm:
  assumes "j < maglevTableSize"
  shows "unat (maglev_perm url ! j mod word_of_nat maglevTableSize) = slot url j"
  using assms
  by (simp add: maglev_perm_def Let_def slot_def h1_of_def h2_of_def unat_mod perm_no_overflow)

lemma slot_less [simp]: "slot url j < maglevTableSize"
  by (simp add: slot_def maglevTableSize_def)

subsection \<open>The table size is prime\<close>

lemma no_small_divisor: "list_all (\<lambda>d. (65537::int) mod d \<noteq> 0) [2..256]"
  by code_simp

lemma tableSize_divisors:
  assumes "d dvd maglevTableSize"
  shows "d = 1 \<or> d = maglevTableSize"
proof (rule ccontr)
  assume not: "\<not> ?thesis"
  obtain e where e: "65537 = d * e" using assms unfolding maglevTableSize_def by (rule dvdE)
  have small: "x = 1" if "x dvd (65537::nat)" "x < 257" for x
  proof (rule ccontr)
    assume "x \<noteq> 1"
    moreover have "x \<noteq> 0" using that(1) by (cases "x = 0") auto
    ultimately have "int x \<in> set [2..256]"
      using that(2) unfolding set_upto atLeastAtMost_iff by linarith
    then have "65537 mod int x \<noteq> 0"
      by (rule bspec [OF no_small_divisor [unfolded list_all_iff]])
    moreover have "65537 mod int x = int (65537 mod x)" by (simp add: zmod_int)
    ultimately show False using that(1) by (simp add: dvd_eq_mod_eq_0)
  qed
  have "d < 257 \<or> e < 257"
  proof (rule ccontr)
    assume "\<not> (d < 257 \<or> e < 257)"
    then have "257 * 257 \<le> d * e" by (intro mult_le_mono) auto
    then show False using e by simp
  qed
  then show False
    using small [of d] small [of e] e not by (auto simp: maglevTableSize_def)
qed

text \<open>An upstream whose second checksum is not a multiple of the table size visits every slot.\<close>

definition perm_ok :: "string \<Rightarrow> bool" where
  "perm_ok url \<longleftrightarrow> h2_of url mod maglevTableSize \<noteq> 0"

lemma perm_ok_coprime:
  assumes "perm_ok url"
  shows "coprime maglevTableSize (h2_of url)"
proof -
  have "gcd maglevTableSize (h2_of url) \<noteq> maglevTableSize"
    using assms gcd_dvd2 [of maglevTableSize "h2_of url"] unfolding perm_ok_def
    by (metis dvd_imp_mod_0)
  then show ?thesis
    using tableSize_divisors [of "gcd maglevTableSize (h2_of url)"] by (auto simp: coprime_iff_gcd_eq_1)
qed

lemma inj_slot:
  assumes "perm_ok url"
  shows "inj_on (slot url) {..<maglevTableSize}"
proof -
  have "i = j" if "i \<le> j" "j < maglevTableSize" "slot url i = slot url j" for i j
  proof -
    let ?h = "h2_of url"
    have "h1_of url + i * ?h \<le> h1_of url + j * ?h" using that(1) by simp
    then have "maglevTableSize dvd (h1_of url + j * ?h) - (h1_of url + i * ?h)"
      using that(3) unfolding slot_def by (metis mod_eq_dvd_iff_nat)
    then have "maglevTableSize dvd (j - i) * ?h" by (simp add: diff_mult_distrib)
    then have "maglevTableSize dvd j - i"
      using perm_ok_coprime [OF assms] coprime_dvd_mult_left_iff by blast
    then show "i = j" using that(1,2) by (cases "i = j") (auto dest: dvd_imp_le)
  qed
  then show ?thesis by (metis inj_onI lessThan_iff linorder_le_cases)
qed

lemma slot_surj:
  assumes "perm_ok url"
  shows "slot url ` {..<maglevTableSize} = {..<maglevTableSize}"
  using inj_slot [OF assms] by (intro endo_inj_surj) auto

section \<open>Filling the table\<close>

definition occupied :: "nat list \<Rightarrow> nat set" where
  "occupied table = {s. s < length table \<and> table ! s \<noteq> 0}"

lemma finite_occupied [simp]: "finite (occupied table)"
  by (simp add: occupied_def)

lemma occupied_update:
  assumes "s < length table" "table ! s = 0"
  shows "occupied (table[s := i]) = (if i = 0 then occupied table else insert s (occupied table))"
  using assms by (auto simp: occupied_def nth_list_update split: if_splits)

text \<open>The walk along a permutation stops at the first free slot, if there is one ahead.\<close>

lemma probe_slot_finds:
  assumes "length table = maglevTableSize" "p < maglevTableSize" "nx \<le> p"
    and "slot url p \<notin> occupied table"
    and "\<And>q. nx \<le> q \<Longrightarrow> q < p \<Longrightarrow> slot url q \<in> occupied table"
  shows "probe_slot (maglev_perm url) table nx = Ret (slot url p, Suc p)"
  using assms(3,5)
proof (induction "p - nx" arbitrary: nx)
  case 0
  then have "nx = p" by simp
  then show ?case
    using assms(1,2,4) by (subst probe_slot.simps) (simp add: nth_maglev_perm Let_def occupied_def)
next
  case (Suc d)
  have nx: "nx < p" using Suc.hyps(2) by simp
  have "probe_slot (maglev_perm url) table (Suc nx) = Ret (slot url p, Suc p)"
    using Suc.hyps(2) Suc.prems nx by (intro Suc.hyps(1)) auto
  moreover have "table ! slot url nx \<noteq> 0"
    using Suc.prems(2) [of nx] nx by (auto simp: occupied_def)
  ultimately show ?case
    using assms(1,2) nx
    by (subst probe_slot.simps) (simp add: nth_maglev_perm Let_def)
qed

lemma probe_slot_runs_out:
  assumes "length table = maglevTableSize"
    and "\<And>q. nx \<le> q \<Longrightarrow> q < maglevTableSize \<Longrightarrow> slot url q \<in> occupied table"
  shows "probe_slot (maglev_perm url) table nx = Panic"
  using assms(2)
proof (induction "maglevTableSize - nx" arbitrary: nx)
  case 0
  then show ?case by (subst probe_slot.simps) simp
next
  case (Suc d)
  have nx: "nx < maglevTableSize" using Suc.hyps(2) by simp
  have "probe_slot (maglev_perm url) table (Suc nx) = Panic"
    using Suc.hyps(2) Suc.prems nx by (intro Suc.hyps(1)) auto
  moreover have "table ! slot url nx \<noteq> 0" using Suc.prems [of nx] nx by (auto simp: occupied_def)
  ultimately show ?case
    using assms(1) nx
    by (subst probe_slot.simps) (simp add: nth_maglev_perm Let_def)
qed

text \<open>
  The invariant of the fill loop, with the number \<open>f i\<close> of times upstream \<open>i\<close>
  has been served. Slots of upstream 0 keep the value 0 and look free, so they
  may be taken over by another upstream later; what makes the loop work all
  the same is the last conjunct: an upstream has walked past no more slots than
  it skipped as occupied, plus, for upstream 0, those it was given.
\<close>

definition fill_inv :: "upstream list \<Rightarrow> fill_state \<Rightarrow> (nat \<Rightarrow> nat) \<Rightarrow> bool" where
  "fill_inv us st f \<longleftrightarrow>
     length (fs_table st) = maglevTableSize \<and> length (fs_next st) = length us \<and>
     (\<forall>e \<in> set (fs_table st). e = 0 \<or> e < length us) \<and>
     (\<forall>i < length us. 0 < i \<longrightarrow> count_list (fs_table st) i = f i) \<and>
     (\<forall>i < length us. \<not> Healthy (us ! i) \<longrightarrow> f i = 0) \<and>
     fs_filled st = (\<Sum>i<length us. f i) \<and>
     (\<forall>i < length us. fs_next st ! i \<le> maglevTableSize \<and>
        fs_next st ! i \<le> (if i = 0 then f 0 else 0) +
          card {p. p < fs_next st ! i \<and> slot (URL (us ! i)) p \<in> occupied (fs_table st)})"

lemma card_occupied: "count_list table 0 + card (occupied table) = length table"
proof -
  have "card (occupied table) = length (filter (\<lambda>e. e \<noteq> 0) table)"
    by (simp add: occupied_def length_filter_conv_card)
  moreover have "count_list table 0 = length (filter (\<lambda>e. e = 0) table)"
    unfolding count_list_eq_length_filter by (auto intro: arg_cong [of _ _ length] filter_cong)
  ultimately show ?thesis using sum_length_filter_compl [of "\<lambda>e. e = 0" table] by simp
qed

lemma count_list_update:
  "s < length xs \<Longrightarrow> count_list (xs[s := v]) i =
    (if v = i then 1 else 0) + (count_list xs i - (if xs ! s = i then 1 else 0))"
proof (induction xs arbitrary: s)
  case Nil
  then show ?case by simp
next
  case (Cons x xs)
  have "0 < count_list xs i" if "xs ! k = i" "k < length xs" for k
    using that count_list_0_iff [of xs i] nth_mem by blast
  with Cons show ?case by (cases s) (auto split: if_splits)
qed

text \<open>The served upstreams other than 0 account for the occupied slots.\<close>

lemma fill_inv_occupied:
  assumes "fill_inv us st f" "us \<noteq> []"
  shows "card (occupied (fs_table st)) + f 0 = fs_filled st"
proof -
  let ?t = "fs_table st"
  have "set ?t \<subseteq> {..<length us}"
    using assms by (auto simp: fill_inv_def subset_iff)
  then have "(\<Sum>i<length us. count_list ?t i) = length ?t" by (simp add: sum_count_set)
  moreover have "(\<Sum>i<length us. g i) = g 0 + (\<Sum>i \<in> {..<length us} - {0}. g i)" for g :: "nat \<Rightarrow> nat"
    using assms(2) by (intro sum.remove) auto
  moreover have "(\<Sum>i \<in> {..<length us} - {0}. count_list ?t i) = (\<Sum>i \<in> {..<length us} - {0}. f i)"
    using assms(1) by (intro sum.cong) (auto simp: fill_inv_def)
  moreover have "fs_filled st = (\<Sum>i<length us. f i)" using assms(1) by (simp add: fill_inv_def)
  ultimately show ?thesis using card_occupied [of ?t] by simp
qed

text \<open>Before the table is full a free slot lies ahead of every upstream that visits all slots.\<close>

lemma free_slot_ahead:
  assumes inv: "fill_inv us st f" and i: "i < length us" "perm_ok (URL (us ! i))"
    and filled: "fs_filled st < maglevTableSize"
  shows "\<exists>p. fs_next st ! i \<le> p \<and> p < maglevTableSize \<and>
    slot (URL (us ! i)) p \<notin> occupied (fs_table st)"
proof (rule ccontr)
  let ?s = "slot (URL (us ! i))" and ?n = "fs_next st ! i" and ?O = "occupied (fs_table st)"
  assume "\<not> ?thesis"
  then have ahead: "\<And>p. ?n \<le> p \<Longrightarrow> p < maglevTableSize \<Longrightarrow> ?s p \<in> ?O" by auto
  have len: "length (fs_table st) = maglevTableSize" and n: "?n \<le> maglevTableSize"
    and walked: "?n \<le> (if i = 0 then f 0 else 0) + card {p. p < ?n \<and> ?s p \<in> ?O}"
    using inv i(1) by (auto simp: fill_inv_def)
  have "{p. p < maglevTableSize \<and> ?s p \<in> ?O} = {p. p < ?n \<and> ?s p \<in> ?O} \<union> {?n..<maglevTableSize}"
    using ahead n by auto
  then have "card {p. p < maglevTableSize \<and> ?s p \<in> ?O} =
      card {p. p < ?n \<and> ?s p \<in> ?O} + (maglevTableSize - ?n)"
    by (simp add: card_Un_disjoint disjoint_iff)
  moreover have "card {p. p < maglevTableSize \<and> ?s p \<in> ?O} \<le> card ?O"
    using inj_slot [OF i(2)] by (intro card_inj_on_le [of ?s]) (auto intro: inj_on_subset)
  ultimately have "maglevTableSize \<le> (if i = 0 then f 0 else 0) + card ?O" using walked n by linarith
  also have "\<dots> \<le> fs_filled st" using fill_inv_occupied [OF inv] i(1) by (cases us) auto
  finally show False using filled by simp
qed

lemma walked_step:
  assumes "nx \<le> a + card {q. q < nx \<and> s q \<in> X}" "nx \<le> p" "\<And>q. nx \<le> q \<Longrightarrow> q < p \<Longrightarrow> s q \<in> (X :: nat set)"
  shows "p \<le> a + card {q. q < p \<and> s q \<in> X}"
proof -
  have "{q. q < p \<and> s q \<in> X} = {q. q < nx \<and> s q \<in> X} \<union> {nx..<p}" using assms(2,3) by auto
  then have "card {q. q < p \<and> s q \<in> X} = card {q. q < nx \<and> s q \<in> X} + (p - nx)"
    by (simp add: card_Un_disjoint disjoint_iff)
  then show ?thesis using assms(1,2) by linarith
qed

lemma fill_one_inv:
  assumes inv: "fill_inv us st f" and i: "i < length us" "Healthy (us ! i)" "perm_ok (URL (us ! i))"
    and filled: "fs_filled st < maglevTableSize"
  shows "\<exists>st'. fill_one (map (\<lambda>u. maglev_perm (URL u)) us) i st = Ret st' \<and>
    fill_inv us st' (f(i := Suc (f i)))"
proof -
  let ?t = "fs_table st" and ?n = "fs_next st ! i" and ?s = "slot (URL (us ! i))"
  define p where "p = (LEAST p. ?n \<le> p \<and> slot (URL (us ! i)) p \<notin> occupied ?t)"
  obtain p' where p': "?n \<le> p'" "p' < maglevTableSize" "?s p' \<notin> occupied ?t"
    using free_slot_ahead [OF inv i(1,3) filled] by blast
  have p: "?n \<le> p" "?s p \<notin> occupied ?t"
    using LeastI [of "\<lambda>p. ?n \<le> p \<and> ?s p \<notin> occupied ?t" p'] p' by (auto simp: p_def)
  have pM: "p < maglevTableSize"
    using Least_le [of "\<lambda>p. ?n \<le> p \<and> ?s p \<notin> occupied ?t" p'] p' by (auto simp: p_def)
  have below: "?s q \<in> occupied ?t" if "?n \<le> q" "q < p" for q
    using not_less_Least [of q "\<lambda>p. ?n \<le> p \<and> ?s p \<notin> occupied ?t"] that by (auto simp: p_def)
  have len: "length ?t = maglevTableSize" "length (fs_next st) = length us"
    using inv by (auto simp: fill_inv_def)
  have zero: "?t ! ?s p = 0" and sp: "?s p < length ?t" using p(2) len by (auto simp: occupied_def)
  define st' where "st' = st\<lparr>fs_table := ?t[?s p := i], fs_next := (fs_next st)[i := Suc p],
      fs_filled := Suc (fs_filled st)\<rparr>"
  have run: "fill_one (map (\<lambda>u. maglev_perm (URL u)) us) i st = Ret st'"
    using i(1) len probe_slot_finds [OF len(1) pM p(1) p(2) below]
    by (simp add: fill_one_def st'_def)
  have occ: "occupied (fs_table st') = (if i = 0 then occupied ?t else insert (?s p) (occupied ?t))"
    using occupied_update [OF sp zero] by (simp add: st'_def)
  have next_ok: "fs_next st' ! j \<le> (if j = 0 then (f(i := Suc (f i))) 0 else 0) +
      card {q. q < fs_next st' ! j \<and> slot (URL (us ! j)) q \<in> occupied (fs_table st')}"
    if j: "j < length us" for j
  proof -
    have walked: "fs_next st ! j \<le> (if j = 0 then f 0 else 0) +
        card {q. q < fs_next st ! j \<and> slot (URL (us ! j)) q \<in> occupied ?t}"
      using inv j by (simp add: fill_inv_def)
    show ?thesis
    proof (cases "j = i")
      case True
      have "p \<le> (if i = 0 then f 0 else 0) + card {q. q < p \<and> ?s q \<in> occupied ?t}"
        by (rule walked_step [OF walked [unfolded True] p(1)]) (rule below)
      moreover have "card {q. q < p \<and> ?s q \<in> occupied ?t} + (if i = 0 then 0 else 1) \<le>
          card {q. q < Suc p \<and> ?s q \<in> occupied (fs_table st')}"
      proof (cases "i = 0")
        case True
        then show ?thesis by (auto simp: occ intro!: card_mono)
      next
        case False
        have "insert p {q. q < p \<and> ?s q \<in> occupied ?t} \<subseteq> {q. q < Suc p \<and> ?s q \<in> occupied (fs_table st')}"
          using False by (auto simp: occ)
        then have "card (insert p {q. q < p \<and> ?s q \<in> occupied ?t}) \<le>
            card {q. q < Suc p \<and> ?s q \<in> occupied (fs_table st')}"
          by (intro card_mono) auto
        then show ?thesis using False by simp
      qed
      ultimately show ?thesis using True i(1) len by (auto simp: st'_def)
    next
      case False
      have "card {q. q < fs_next st ! j \<and> slot (URL (us ! j)) q \<in> occupied ?t} \<le>
          card {q. q < fs_next st ! j \<and> slot (URL (us ! j)) q \<in> occupied (fs_table st')}"
        by (rule card_mono) (auto simp: occ)
      then show ?thesis using walked False by (auto simp: st'_def)
    qed
  qed
  have "fill_inv us st' (f(i := Suc (f i)))"
    unfolding fill_inv_def
  proof (intro conjI allI impI ballI)
    fix e assume "e \<in> set (fs_table st')"
    then show "e = 0 \<or> e < length us"
      using set_update_subset [of ?t "?s p" i] inv i(1) by (auto simp: st'_def fill_inv_def)
  next
    fix j assume "j < length us" "0 < j"
    then show "count_list (fs_table st') j = (f(i := Suc (f i))) j"
      using inv sp zero by (simp add: st'_def fill_inv_def count_list_update)
  next
    fix j assume j: "j < length us"
    show "fs_next st' ! j \<le> maglevTableSize"
      using inv j pM len i(1) by (simp add: st'_def fill_inv_def nth_list_update)
    show "fs_next st' ! j \<le> (if j = 0 then (f(i := Suc (f i))) 0 else 0) +
        card {p. p < fs_next st' ! j \<and> slot (URL (us ! j)) p \<in> occupied (fs_table st')}"
      by (rule next_ok [OF j])
  next
    have "(\<Sum>j<length us. (f(i := Suc (f i))) j) = Suc (f i) + (\<Sum>j \<in> {..<length us} - {i}. f j)"
      using i(1) by (subst sum.remove [of _ i]) (auto intro!: sum.cong)
    also have "\<dots> = Suc (\<Sum>j<length us. f j)"
      using i(1) by (subst (2) sum.remove [of _ i]) auto
    finally show "fs_filled st' = (\<Sum>j<length us. (f(i := Suc (f i))) j)"
      using inv by (simp add: st'_def fill_inv_def)
  qed (use inv i len in \<open>auto simp: st'_def fill_inv_def\<close>)
  with run show ?thesis by blast
qed

lemma fill_round_inv:
  assumes "fill_inv us st f" "us = vs @ ws" "\<forall>u \<in> set us. perm_ok (URL u)"
    and "fs_filled st \<le> maglevTableSize"
  shows "\<exists>st' f'. fill_round (map (\<lambda>u. maglev_perm (URL u)) us) ws (length vs) st = Ret st' \<and>
    fill_inv us st' f' \<and> fs_filled st' \<le> maglevTableSize \<and>
    (\<forall>j < length vs. f' j = f j) \<and> (\<forall>j < length us. f j \<le> f' j \<and> f' j \<le> Suc (f j)) \<and>
    (fs_filled st' < maglevTableSize \<longrightarrow>
      (\<forall>j < length us. length vs \<le> j \<longrightarrow> Healthy (us ! j) \<longrightarrow> f' j = Suc (f j)))"
  using assms
proof (induction ws arbitrary: vs st f)
  case Nil
  then show ?case by (intro exI [of _ st] exI [of _ f]) auto
next
  case (Cons w ws)
  have us: "us = (vs @ [w]) @ ws" using Cons.prems(2) by simp
  consider (full) "maglevTableSize \<le> fs_filled st"
    | (down) "fs_filled st < maglevTableSize" "\<not> Healthy w"
    | (up) "fs_filled st < maglevTableSize" "Healthy w" by linarith
  then show ?case
  proof cases
    case full
    then show ?thesis using Cons.prems by (intro exI [of _ st] exI [of _ f]) auto
  next
    case down
    have "\<not> Healthy (us ! length vs)" using down Cons.prems(2) by simp
    with Cons.IH [OF Cons.prems(1) us Cons.prems(3,4)] down show ?thesis
      by (auto simp: Suc_le_eq less_Suc_eq) (metis le_neq_implies_less)
  next
    case up
    have i: "length vs < length us" "Healthy (us ! length vs)" "perm_ok (URL (us ! length vs))"
      using up Cons.prems(2,3) by auto
    obtain st1 where st1: "fill_one (map (\<lambda>u. maglev_perm (URL u)) us) (length vs) st = Ret st1"
        "fill_inv us st1 (f(length vs := Suc (f (length vs))))"
      using fill_one_inv [OF Cons.prems(1) i up(1)] by blast
    have "fs_filled st1 = Suc (fs_filled st)"
      using st1(1) by (auto simp: fill_one_def go_bind_Ret_iff)
    then have "fs_filled st1 \<le> maglevTableSize" using up(1) by simp
    from Cons.IH [OF st1(2) us Cons.prems(3) this]
    obtain st' f' where r: "fill_round (map (\<lambda>u. maglev_perm (URL u)) us) ws (length (vs @ [w])) st1 = Ret st'"
        "fill_inv us st' f'" "fs_filled st' \<le> maglevTableSize"
        and same: "\<forall>j < length (vs @ [w]). f' j = (f(length vs := Suc (f (length vs)))) j"
        and grow: "\<forall>j < length us. (f(length vs := Suc (f (length vs)))) j \<le> f' j \<and>
              f' j \<le> Suc ((f(length vs := Suc (f (length vs)))) j)"
        and all: "fs_filled st' < maglevTableSize \<longrightarrow> (\<forall>j < length us. length (vs @ [w]) \<le> j \<longrightarrow>
              Healthy (us ! j) \<longrightarrow> f' j = Suc ((f(length vs := Suc (f (length vs)))) j))"
      by blast
    have "\<forall>j < length us. f j \<le> f' j \<and> f' j \<le> Suc (f j)"
    proof (intro allI impI)
      fix j assume "j < length us"
      then show "f j \<le> f' j \<and> f' j \<le> Suc (f j)"
        using same grow by (cases "j = length vs") auto
    qed
    moreover have "f' j = Suc (f j)"
      if "fs_filled st' < maglevTableSize" "j < length us" "length vs \<le> j" "Healthy (us ! j)" for j
      using that same all by (cases "j = length vs") auto
    moreover have "fill_round (map (\<lambda>u. maglev_perm (URL u)) us) (w # ws) (length vs) st = Ret st'"
      using up st1(1) r(1) by simp
    moreover have "\<forall>j < length vs. f' j = f j" using same by auto
    ultimately show ?thesis using r(2,3) by blast
  qed
qed

text \<open>The whole loop ends, with the healthy upstreams served equally often, up to one.\<close>

lemma fill_table_inv:
  assumes "fill_inv us st f" "\<forall>u \<in> set us. perm_ok (URL u)" "hasHealthy us"
    and "fs_filled st \<le> maglevTableSize" "\<forall>i < length us. Healthy (us ! i) \<longrightarrow> f i = k"
  shows "\<exists>st' f' k'. fill_table (map (\<lambda>u. maglev_perm (URL u)) us) us st = Some (Ret st') \<and>
    fill_inv us st' f' \<and> fs_filled st' = maglevTableSize \<and>
    (\<forall>i < length us. Healthy (us ! i) \<longrightarrow> f' i = k' \<or> f' i = Suc k')"
  using assms
proof (induction "maglevTableSize - fs_filled st" arbitrary: st f k rule: less_induct)
  case less
  show ?case
  proof (cases "fs_filled st < maglevTableSize")
    case False
    then show ?thesis
      using less.prems by (subst fill_table.simps) (auto intro!: exI [of _ f] exI [of _ k])
  next
    case True
    obtain st' f' where r: "fill_round (map (\<lambda>u. maglev_perm (URL u)) us) us 0 st = Ret st'"
        "fill_inv us st' f'" "fs_filled st' \<le> maglevTableSize"
        and grow: "\<forall>j < length us. f j \<le> f' j \<and> f' j \<le> Suc (f j)"
        and all: "fs_filled st' < maglevTableSize \<longrightarrow>
          (\<forall>j < length us. Healthy (us ! j) \<longrightarrow> f' j = Suc (f j))"
      using fill_round_inv [OF less.prems(1) _ less.prems(2,4), of "[]" us] by auto
    have step: "fill_table (map (\<lambda>u. maglev_perm (URL u)) us) us st =
        fill_table (map (\<lambda>u. maglev_perm (URL u)) us) us st'"
      using True r(1) by (subst fill_table.simps) simp
    show ?thesis
    proof (cases "fs_filled st' < maglevTableSize")
      case False
      then have "fs_filled st' = maglevTableSize" using r(3) by simp
      moreover have "\<forall>i < length us. Healthy (us ! i) \<longrightarrow> f' i = k \<or> f' i = Suc k"
        using grow less.prems(5) by (metis le_SucE le_antisym)
      ultimately show ?thesis
        using r(2) step by (subst (asm) fill_table.simps [of _ _ st']) auto
    next
      case less': True
      obtain h where h: "h < length us" "Healthy (us ! h)"
        using less.prems(3) by (auto simp: hasHealthy_def in_set_conv_nth)
      have "(\<Sum>i<length us. f i) < (\<Sum>i<length us. f' i)"
        using grow all less' h by (intro sum_strict_mono_ex1) (auto intro!: bexI [of _ h])
      then have "fs_filled st < fs_filled st'"
        using r(2) less.prems(1) by (simp add: fill_inv_def)
      then have "maglevTableSize - fs_filled st' < maglevTableSize - fs_filled st"
        using True by linarith
      moreover have "\<forall>i < length us. Healthy (us ! i) \<longrightarrow> f' i = Suc k"
        using all less' less.prems(5) by simp
      ultimately show ?thesis
        unfolding step using less.hyps [OF _ r(2) less.prems(2,3) r(3)] by blast
    qed
  qed
qed

lemma fill_inv_init:
  "fill_inv us \<lparr>fs_table = replicate maglevTableSize 0, fs_next = replicate (length us) 0, fs_filled = 0\<rparr>
     (\<lambda>_. 0)"
  by (auto simp: fill_inv_def count_list_0_iff)

text \<open>What a build leaves: a full table of healthy upstreams, evenly shared.\<close>

lemma buildTableLocked_ok:
  assumes "\<forall>u \<in> set (ml_upstreams m). perm_ok (URL u)" "hasHealthy (ml_upstreams m)"
  obtains table k where "buildTableLocked m = Ret (m\<lparr>ml_table := table\<rparr>)"
    "length table = maglevTableSize"
    "\<forall>e \<in> set table. e < length (ml_upstreams m) \<and> Healthy (ml_upstreams m ! e)"
    "\<forall>i < length (ml_upstreams m). Healthy (ml_upstreams m ! i) \<longrightarrow>
       count_list table i = k \<or> count_list table i = Suc k"
proof -
  let ?us = "ml_upstreams m"
  have ne: "?us \<noteq> []" using assms(2) by (auto simp: hasHealthy_def)
  obtain st f k where st: "fill_table (map (\<lambda>u. maglev_perm (URL u)) ?us) ?us
        \<lparr>fs_table = replicate maglevTableSize 0, fs_next = replicate (length ?us) 0, fs_filled = 0\<rparr> =
        Some (Ret st)"
      and inv: "fill_inv ?us st f" and full: "fs_filled st = maglevTableSize"
      and even: "\<forall>i < length ?us. Healthy (?us ! i) \<longrightarrow> f i = k \<or> f i = Suc k"
    using fill_table_inv [OF fill_inv_init assms, of 0] by auto
  let ?t = "fs_table st"
  have len: "length ?t = maglevTableSize" using inv by (simp add: fill_inv_def)
  have cnt: "count_list ?t i = f i" if "i < length ?us" for i
  proof (cases "i = 0")
    case True
    then show ?thesis
      using fill_inv_occupied [OF inv ne] card_occupied [of ?t] len full by simp
  next
    case False
    then show ?thesis using inv that by (auto simp: fill_inv_def)
  qed
  have "e < length ?us \<and> Healthy (?us ! e)" if e: "e \<in> set ?t" for e
  proof -
    have "e < length ?us" using inv e ne by (auto simp: fill_inv_def)
    moreover have "0 < f e" using cnt [OF calculation] e count_list_0_iff [of ?t e] by linarith
    ultimately show ?thesis using inv by (auto simp: fill_inv_def)
  qed
  then show thesis
    using that [of ?t k] st len cnt even assms(2) by (simp add: buildTableLocked_def Let_def)
qed

section \<open>Maglev satisfies the interface\<close>

definition ml_invar :: "maglev \<Rightarrow> bool" where
  "ml_invar m \<longleftrightarrow> (\<forall>u \<in> set (ml_upstreams m). perm_ok (URL u)) \<and>
     (ml_upstreams m \<noteq> [] \<longrightarrow> length (ml_table m) = maglevTableSize) \<and>
     (\<forall>e \<in> set (ml_table m). e < length (ml_upstreams m))"

lemma setHealth_simps [simp, lb_simps]:
  "map URL (snd (setHealth us url h now)) = map URL us"
  "map Healthy (snd (setHealth us url h now)) = map Healthy (mark_first us url h now)"
  by (induction us) (auto split: prod.splits)

lemma setHealth_unchanged: "\<not> fst (setHealth us url h now) \<Longrightarrow> snd (setHealth us url h now) = us"
  by (induction us) (auto split: prod.splits)

lemma setHealth_same:
  assumes "\<forall>u \<in> set us. \<not> Healthy u"
  shows "setHealth us url False now = (False, us)"
  using assms by (induction us) auto

lemma ml_MarkHealthy_ups [simp, lb_simps]:
  "ml_upstreams (ml_MarkHealthy m url h now) = snd (setHealth (ml_upstreams m) url h now)"
  "ml_table (ml_MarkHealthy m url h now) = ml_table m"
  by (simp_all add: ml_MarkHealthy_def Let_def split: prod.splits)

lemma ml_invar_URLs:
  "map URL (ml_upstreams m') = map URL (ml_upstreams m) \<Longrightarrow> ml_table m' = ml_table m \<Longrightarrow>
   ml_invar m' = ml_invar m"
proof -
  assume eq: "map URL (ml_upstreams m') = map URL (ml_upstreams m)" "ml_table m' = ml_table m"
  have urls: "(\<forall>u \<in> set us. perm_ok (URL u)) \<longleftrightarrow> list_all perm_ok (map URL us)" for us
    by (simp add: list_all_iff)
  have "length (ml_upstreams m') = length (ml_upstreams m)"
    using eq(1) map_eq_imp_length_eq by blast
  then show ?thesis unfolding ml_invar_def urls eq length_0_conv [symmetric] by simp
qed

lemma buildTableLocked_invar:
  assumes "ml_invar m"
  shows "\<exists>t. buildTableLocked m = Ret (m\<lparr>ml_table := t\<rparr>) \<and> ml_invar (m\<lparr>ml_table := t\<rparr>)"
proof (cases "hasHealthy (ml_upstreams m)")
  case True
  have ok: "\<forall>u \<in> set (ml_upstreams m). perm_ok (URL u)" using assms by (simp add: ml_invar_def)
  show ?thesis
    by (rule buildTableLocked_ok [OF ok True]) (use ok in \<open>auto simp: ml_invar_def\<close>)
next
  case False
  then have "buildTableLocked m = Ret (m\<lparr>ml_table := ml_table m\<rparr>)"
    by (simp add: buildTableLocked_def)
  then show ?thesis using assms by (intro exI [of _ "ml_table m"]) simp
qed

lemma first_healthy_Some:
  "first_healthy us i = Some j \<Longrightarrow> \<exists>k < length us. j = i + k \<and> Healthy (us ! k)"
proof (induction us arbitrary: i)
  case Nil
  then show ?case by simp
next
  case (Cons u us)
  show ?case
  proof (cases "Healthy u")
    case True
    then show ?thesis using Cons.prems by auto
  next
    case False
    then obtain k where "k < length us" "j = Suc i + k" "Healthy (us ! k)"
      using Cons.IH [of "Suc i"] Cons.prems by auto
    then show ?thesis by (intro exI [of _ "Suc k"]) auto
  qed
qed

lemma first_healthy_None_iff: "first_healthy us i = None \<longleftrightarrow> (\<forall>u \<in> set us. \<not> Healthy u)"
  by (induction us arbitrary: i) auto

text \<open>The choice under the read lock: healthy if possible, else the probe candidate.\<close>

lemma ml_select_ok:
  assumes "ml_invar m" "ml_upstreams m \<noteq> []"
  shows "(\<exists>i < length (ml_upstreams m). ml_select m r = Ret (Some i) \<and> Healthy (ml_upstreams m ! i)) \<or>
    ml_select m r = Ret (probeCandidate (ml_upstreams m)) \<and> (\<forall>u \<in> set (ml_upstreams m). \<not> Healthy u)"
proof -
  let ?k = "unat (ChecksumIEEE (bytes_of (Path r @ RawQuery r)) mod word_of_nat maglevTableSize)"
  have len: "length (ml_table m) = maglevTableSize" using assms by (simp add: ml_invar_def)
  moreover have pos: "0 < maglevTableSize" by (simp add: maglevTableSize_def)
  ultimately have k: "?k < length (ml_table m)" "ml_table m \<noteq> []"
    by (auto simp: unat_mod)
  then have e: "ml_table m ! ?k < length (ml_upstreams m)" using assms(1) by (simp add: ml_invar_def)
  show ?thesis
  proof (cases "Healthy (ml_upstreams m ! (ml_table m ! ?k))")
    case True
    then show ?thesis using assms(2) k e by (simp add: ml_select_def Let_def)
  next
    case False
    then have "ml_select m r = (case first_healthy (ml_upstreams m) 0 of
        Some i \<Rightarrow> Ret (Some i) | None \<Rightarrow> Ret (probeCandidate (ml_upstreams m)))"
      using assms(2) k e by (simp add: ml_select_def Let_def)
    then show ?thesis
      using first_healthy_Some [of "ml_upstreams m" 0] first_healthy_None_iff [of "ml_upstreams m" 0]
      by (cases "first_healthy (ml_upstreams m) 0") auto
  qed
qed

lemma ml_Next_ok:
  assumes "ml_invar m"
  shows "\<exists>c m'. ml_Next m r = Ret (c, m') \<and> ml_invar m' \<and> ml_upstreams m' = ml_upstreams m \<and>
    ml_dirty m' = False \<and> (ml_upstreams m = [] \<longrightarrow> c = None) \<and>
    (ml_upstreams m \<noteq> [] \<longrightarrow>
      (\<exists>i < length (ml_upstreams m). c = Some i \<and> Healthy (ml_upstreams m ! i)) \<or>
      c = probeCandidate (ml_upstreams m) \<and> (\<forall>u \<in> set (ml_upstreams m). \<not> Healthy u))"
proof -
  obtain m' where m': "(if ml_dirty m then go_bind (buildTableLocked m) (\<lambda>m'. Ret (m'\<lparr>ml_dirty := False\<rparr>))
        else Ret m) = Ret m'"
      "ml_invar m'" "ml_upstreams m' = ml_upstreams m" "ml_dirty m' = False"
  proof (cases "ml_dirty m")
    case True
    then show thesis using buildTableLocked_invar [OF assms] that by (auto simp: ml_invar_def)
  next
    case False
    then show thesis using that [of m] assms by simp
  qed
  show ?thesis
  proof (cases "ml_upstreams m = []")
    case True
    then show ?thesis using m' by (simp add: ml_Next_def ml_select_def)
  next
    case False
    then show ?thesis using m' ml_select_ok [OF m'(2), of r] by (auto simp: ml_Next_def)
  qed
qed

interpretation ml: load_balancer ml_Next ml_MarkHealthy ml_upstreams ml_invar
proof (rule load_balancerI)
  fix m r
  assume inv: "ml_invar m"
  obtain c m' where "ml_Next m r = Ret (c, m')" "ml_invar m'" "ml_upstreams m' = ml_upstreams m"
      "ml_upstreams m \<noteq> [] \<longrightarrow>
      (\<exists>i < length (ml_upstreams m). c = Some i \<and> Healthy (ml_upstreams m ! i)) \<or>
      c = probeCandidate (ml_upstreams m)" "ml_upstreams m = [] \<longrightarrow> c = None"
    using ml_Next_ok [OF inv] by blast
  then show "\<exists>c s'. ml_Next m r = Ret (c, s') \<and> ml_invar s' \<and> ml_upstreams s' = ml_upstreams m \<and>
      (c = None \<longrightarrow> ml_upstreams m = []) \<and> (\<forall>i. c = Some i \<longrightarrow> i < length (ml_upstreams m))"
    by (cases "ml_upstreams m = []") (auto simp: probeCandidate_range)
next
  fix m url h now
  assume "ml_invar m"
  moreover have "ml_invar (ml_MarkHealthy m url h now) = ml_invar m"
    by (rule ml_invar_URLs) simp_all
  ultimately show "ml_invar (ml_MarkHealthy m url h now) \<and>
      map URL (ml_upstreams (ml_MarkHealthy m url h now)) = map URL (ml_upstreams m) \<and>
      map Healthy (ml_upstreams (ml_MarkHealthy m url h now)) =
        map Healthy (mark_first (ml_upstreams m) url h now)" by simp
qed

interpretation ml: healthy_balancer ml_Next ml_MarkHealthy ml_upstreams ml_invar "\<lambda>_. True"
proof
  fix m r i m'
  assume *: "ml_invar m" "ml_Next m r = Ret (Some i, m')" "\<exists>u \<in> set (ml_upstreams m). Healthy u"
  then have "ml_upstreams m \<noteq> []" by auto
  then show "Healthy (ml_upstreams m ! i)" using ml_Next_ok [OF *(1), of r] *(2,3) by auto
qed

section \<open>A permutation that does not move\<close>

text \<open>
  When the second checksum is a multiple of the table size every place of the
  permutation is the same slot. Once that slot is occupied by an upstream other
  than 0 the walk runs past the end of the permutation.
\<close>

lemma slot_constant:
  assumes "\<not> perm_ok url"
  shows "slot url j = slot url 0"
proof -
  have "j * h2_of url mod maglevTableSize = 0"
    using assms by (metis mod_mult_right_eq mult_0_right mod_0 perm_ok_def)
  then show ?thesis unfolding slot_def by (metis add.right_neutral mod_add_right_eq mult_0)
qed

lemma probe_slot_Ret:
  assumes "probe_slot (maglev_perm url) table nx = Ret (s, nx')" "length table = maglevTableSize"
  shows "(\<exists>p. s = slot url p) \<and> table ! s = 0"
  using assms
proof (induction "maglevTableSize - nx" arbitrary: nx)
  case 0
  then show ?case by (simp add: probe_slot.simps [of _ _ nx])
next
  case (Suc d)
  have nx: "nx < maglevTableSize" using Suc.hyps(2) by simp
  show ?case
  proof (cases "table ! slot url nx = 0")
    case True
    with Suc.prems nx have "s = slot url nx"
      by (simp add: probe_slot.simps [of _ _ nx] nth_maglev_perm Let_def)
    with True show ?thesis by blast
  next
    case False
    with Suc.prems nx have "probe_slot (maglev_perm url) table (Suc nx) = Ret (s, nx')"
      by (simp add: probe_slot.simps [of _ _ nx] nth_maglev_perm Let_def)
    with Suc.hyps(1) [of "Suc nx"] Suc.hyps(2) Suc.prems(2) show ?thesis by simp
  qed
qed

lemma probe_slot_no_Diverge: "probe_slot perm table nx \<noteq> Diverge"
proof (induction "length perm - nx" arbitrary: nx)
  case 0
  then show ?case by (simp add: probe_slot.simps [of _ _ nx])
next
  case (Suc d)
  then have "probe_slot perm table (Suc nx) \<noteq> Diverge" by simp
  then show ?case
    by (simp add: probe_slot.simps [of _ _ nx] Let_def go_index_def)
qed

lemma fill_one_effect:
  assumes "fill_one (map (\<lambda>u. maglev_perm (URL u)) us) i st = Ret st'" "i < length us"
    and "length (fs_table st) = maglevTableSize"
  shows "occupied (fs_table st) \<subseteq> occupied (fs_table st')" "length (fs_table st') = maglevTableSize"
    "length (fs_next st') = length (fs_next st)" "fs_filled st' = Suc (fs_filled st)"
    "\<not> perm_ok (URL (us ! i)) \<Longrightarrow> i \<noteq> 0 \<Longrightarrow> slot (URL (us ! i)) 0 \<in> occupied (fs_table st')"
proof -
  obtain s nx nx' where s: "probe_slot (maglev_perm (URL (us ! i))) (fs_table st) nx = Ret (s, nx')"
      and st': "st' = st\<lparr>fs_table := (fs_table st)[s := i], fs_next := (fs_next st)[i := nx'],
        fs_filled := Suc (fs_filled st)\<rparr>"
    using assms(1,2) by (auto simp: fill_one_def go_bind_Ret_iff)
  obtain p where p: "s = slot (URL (us ! i)) p" "fs_table st ! s = 0"
    using probe_slot_Ret [OF s assms(3)] by blast
  then have lt: "s < length (fs_table st)" using assms(3) by simp
  have occ: "occupied (fs_table st') =
      (if i = 0 then occupied (fs_table st) else insert s (occupied (fs_table st)))"
    using occupied_update [OF lt p(2)] by (simp add: st')
  show "occupied (fs_table st) \<subseteq> occupied (fs_table st')" by (auto simp: occ)
  show "slot (URL (us ! i)) 0 \<in> occupied (fs_table st')" if "\<not> perm_ok (URL (us ! i))" "i \<noteq> 0"
    using that slot_constant [OF that(1), of p] by (simp add: occ p(1))
  show "length (fs_table st') = maglevTableSize" "length (fs_next st') = length (fs_next st)"
    "fs_filled st' = Suc (fs_filled st)"
    using assms(3) by (simp_all add: st')
qed

lemma fill_round_effect:
  assumes "fill_round (map (\<lambda>u. maglev_perm (URL u)) us) ws i st = Ret st'" "i + length ws \<le> length us"
    and "length (fs_table st) = maglevTableSize"
  shows "occupied (fs_table st) \<subseteq> occupied (fs_table st') \<and> length (fs_table st') = maglevTableSize \<and>
    length (fs_next st') = length (fs_next st) \<and> fs_filled st' \<le> fs_filled st + length ws"
  using assms
proof (induction ws arbitrary: i st)
  case Nil
  then show ?case by simp
next
  case (Cons w ws)
  consider (full) "maglevTableSize \<le> fs_filled st"
    | (down) "fs_filled st < maglevTableSize" "\<not> Healthy w"
    | (up) "fs_filled st < maglevTableSize" "Healthy w" by linarith
  then show ?case
  proof cases
    case full
    with Cons.prems show ?thesis by simp
  next
    case down
    with Cons.prems Cons.IH [of "Suc i" st] show ?thesis by auto
  next
    case up
    then obtain st1 where st1: "fill_one (map (\<lambda>u. maglev_perm (URL u)) us) i st = Ret st1"
        "fill_round (map (\<lambda>u. maglev_perm (URL u)) us) ws (Suc i) st1 = Ret st'"
      using Cons.prems(1) by (auto simp: go_bind_Ret_iff)
    note e = fill_one_effect(1-4) [OF st1(1) _ Cons.prems(3)]
    from Cons.IH [OF st1(2) _ e(2)] e Cons.prems(2) show ?thesis by auto
  qed
qed

lemma fill_round_append:
  "fill_round perms (vs @ ws) i st =
     go_bind (fill_round perms vs i st) (fill_round perms ws (i + length vs))"
proof (induction vs arbitrary: i st)
  case Nil
  then show ?case by simp
next
  case (Cons v vs)
  have full: "maglevTableSize \<le> fs_filled st \<Longrightarrow> fill_round perms ws j st = Ret st" for j
    by (cases ws) auto
  show ?case
    using Cons.IH [of "Suc i"] full
    by (cases "fill_one perms i st") auto
qed

lemma fill_round_no_Diverge: "fill_round perms ws i st \<noteq> Diverge"
proof (induction ws arbitrary: i st)
  case Nil
  then show ?case by simp
next
  case (Cons w ws)
  have "fill_one perms i st \<noteq> Diverge"
    using probe_slot_no_Diverge [of "perms ! i" "fs_table st" "fs_next st ! i"]
    by (cases "probe_slot (perms ! i) (fs_table st) (fs_next st ! i)")
      (auto simp: fill_one_def go_index_def)
  with Cons.IH show ?case by (cases "fill_one perms i st") auto
qed

text \<open>Serving the upstream whose only slot is occupied is an index panic.\<close>

lemma fill_one_panics:
  assumes "i < length us" "length (fs_next st) = length us" "length (fs_table st) = maglevTableSize"
    and "\<not> perm_ok (URL (us ! i))" "slot (URL (us ! i)) 0 \<in> occupied (fs_table st)"
  shows "fill_one (map (\<lambda>u. maglev_perm (URL u)) us) i st = Panic"
proof -
  have "probe_slot (maglev_perm (URL (us ! i))) (fs_table st) (fs_next st ! i) = Panic"
    using assms(5) slot_constant [OF assms(4)] by (intro probe_slot_runs_out [OF assms(3)]) metis
  then show ?thesis using assms(1,2) by (simp add: fill_one_def)
qed

lemma fill_round_panics:
  assumes us: "us = vs @ w # ws" and healthy: "\<forall>u \<in> set us. Healthy u"
    and st: "length (fs_table st) = maglevTableSize" "length (fs_next st) = length us"
    and bad: "\<not> perm_ok (URL w)" and room: "fs_filled st + length us \<le> maglevTableSize"
  shows "slot (URL w) 0 \<in> occupied (fs_table st) \<Longrightarrow>
      fill_round (map (\<lambda>u. maglev_perm (URL u)) us) us 0 st = Panic"
    and "vs \<noteq> [] \<Longrightarrow> fill_round (map (\<lambda>u. maglev_perm (URL u)) us) us 0 st = Ret st' \<Longrightarrow>
      slot (URL w) 0 \<in> occupied (fs_table st')"
proof -
  let ?perms = "map (\<lambda>u. maglev_perm (URL u)) us"
  have split: "fill_round ?perms us 0 st =
      go_bind (fill_round ?perms vs 0 st) (fill_round ?perms (w # ws) (length vs))"
    using fill_round_append [of ?perms vs "w # ws" 0 st] us by simp
  have w: "us ! length vs = w" "Healthy w" using us healthy by auto
  have effect: "occupied (fs_table st) \<subseteq> occupied (fs_table a)" "length (fs_table a) = maglevTableSize"
      "length (fs_next a) = length us" "fs_filled a < maglevTableSize"
    if "fill_round ?perms vs 0 st = Ret a" for a
    using fill_round_effect [OF that _ st(1)] st(2) room us by auto
  show "fill_round ?perms us 0 st = Panic" if occ: "slot (URL w) 0 \<in> occupied (fs_table st)"
  proof (cases "fill_round ?perms vs 0 st")
    case (Ret a)
    have "fill_one ?perms (length vs) a = Panic"
      using effect [OF Ret] occ bad w us by (intro fill_one_panics) auto
    then show ?thesis using split Ret w(2) effect(4) [OF Ret] by simp
  qed (use split fill_round_no_Diverge in auto)
  show "slot (URL w) 0 \<in> occupied (fs_table st')"
    if ne: "vs \<noteq> []" and run: "fill_round ?perms us 0 st = Ret st'"
  proof -
    obtain a b where a: "fill_round ?perms vs 0 st = Ret a"
        and b: "fill_one ?perms (length vs) a = Ret b" "fill_round ?perms ws (Suc (length vs)) b = Ret st'"
      using run split w(2) effect(4) by (auto simp: go_bind_Ret_iff)
    note e = effect [OF a]
    have "slot (URL w) 0 \<in> occupied (fs_table b)"
      using fill_one_effect(5) [OF b(1) _ e(2)] us bad ne w by simp
    moreover have "length (fs_table b) = maglevTableSize"
      using fill_one_effect(2) [OF b(1) _ e(2)] us by simp
    ultimately show ?thesis using fill_round_effect [OF b(2)] us by auto
  qed
qed

lemma fill_table_panics:
  assumes us: "us = vs @ w # ws" "vs \<noteq> []" and healthy: "\<forall>u \<in> set us. Healthy u"
    and bad: "\<not> perm_ok (URL w)" and room: "2 * length us \<le> maglevTableSize"
  shows "fill_table (map (\<lambda>u. maglev_perm (URL u)) us) us
    \<lparr>fs_table = replicate maglevTableSize 0, fs_next = replicate (length us) 0, fs_filled = 0\<rparr> = Some Panic"
    (is "fill_table ?perms us ?st = _")
proof -
  have pos: "fs_filled ?st < maglevTableSize" by (simp add: maglevTableSize_def)
  show ?thesis
  proof (cases "fill_round ?perms us 0 ?st")
    case (Ret a)
    have e: "length (fs_table a) = maglevTableSize" "length (fs_next a) = length us"
        "fs_filled a \<le> length us"
      using fill_round_effect [OF Ret] by auto
    have occ: "slot (URL w) 0 \<in> occupied (fs_table a)"
      using fill_round_panics(2) [OF us(1) healthy _ _ bad _ us(2) Ret] room by simp
    have "fill_round ?perms us 0 a = Panic"
      using fill_round_panics(1) [OF us(1) healthy e(1,2) bad _ occ] room e(3) by simp
    moreover have "fs_filled a < maglevTableSize" using e(3) room us(1) by simp
    ultimately show ?thesis
      using Ret pos by (simp add: fill_table.simps [of _ _ ?st] fill_table.simps [of _ _ a])
  qed (use pos fill_round_no_Diverge in \<open>auto simp: fill_table.simps [of _ _ ?st]\<close>)
qed

section \<open>Properties\<close>

text \<open>Three concrete upstreams: two ordinary ones and one whose permutation does not move.\<close>

lemma perm_ok_a: "perm_ok ''http://a:80''"
proof -
  have "ChecksumIEEE (bytes_of (''http://a:80'' @ ''2'')) = 3378397087" by (simp add: crc_eval)
  then show ?thesis unfolding perm_ok_def h2_of_def maglevTableSize_def by simp
qed

lemma perm_ok_b: "perm_ok ''http://b:80''"
proof -
  have "ChecksumIEEE (bytes_of (''http://b:80'' @ ''2'')) = 2399028559" by (simp add: crc_eval)
  then show ?thesis unfolding perm_ok_def h2_of_def maglevTableSize_def by simp
qed

lemma perm_ok_stuck: "\<not> perm_ok ''http://10.1.60.38:8080''"
proof -
  have "ChecksumIEEE (bytes_of (''http://10.1.60.38:8080'' @ ''2'')) = 166201832" by (simp add: crc_eval)
  then show ?thesis unfolding perm_ok_def h2_of_def maglevTableSize_def by simp
qed



text \<open>
  Building a Maglev balancer panics when an upstream other than the first has
  a URL whose second checksum is a multiple of 65537 (in a pool of at most
  32768 upstreams): its permutation is a single slot, and its second turn runs
  past the end of it.
\<close>

theorem NewMaglev_panics:
  assumes "0 < i" "i < length us" "\<not> perm_ok (URL (us ! i))" "2 * length us \<le> 65537"
  shows "NewMaglev us = Panic"
proof -
  let ?us = "all_healthy us"
  have i: "i < length ?us" "URL (?us ! i) = URL (us ! i)" using assms(2) by (simp_all add: all_healthy_def)
  have split: "?us = take i ?us @ ?us ! i # drop (Suc i) ?us" using i(1) by (rule id_take_nth_drop)
  have room: "2 * length ?us \<le> maglevTableSize" using assms(4) unfolding maglevTableSize_def by simp
  have "take i ?us \<noteq> []" using assms(1,2) by auto
  moreover have "\<forall>u \<in> set ?us. Healthy u" by auto
  ultimately have "fill_table (map (\<lambda>u. maglev_perm (URL u)) ?us) ?us
    \<lparr>fs_table = replicate maglevTableSize 0, fs_next = replicate (length ?us) 0, fs_filled = 0\<rparr> = Some Panic"
    using fill_table_panics [OF split] assms(3) i(2) room by metis
  moreover have "hasHealthy ?us" using i(1) unfolding hasHealthy_def by (metis all_healthy_Healthy nth_mem)
  ultimately show ?thesis by (simp add: NewMaglev_def buildTableLocked_def Let_def)
qed

theorem NewMaglev_panics_witness:
  "NewMaglev [\<lparr>URL = ''http://a:80'', Weight = 1, Healthy = False, LastCheck = 0\<rparr>,
      \<lparr>URL = ''http://10.1.60.38:8080'', Weight = 1, Healthy = False, LastCheck = 0\<rparr>] = Panic"
proof -
  show ?thesis
    using perm_ok_stuck NewMaglev_panics [of 1 "[\<lparr>URL = ''http://a:80'', Weight = 1, Healthy = False, LastCheck = 0\<rparr>,
      \<lparr>URL = ''http://10.1.60.38:8080'', Weight = 1, Healthy = False, LastCheck = 0\<rparr>]"]
    by simp
qed

text \<open>
  With Maglev a pool that is entirely down is never rotated: a failed retry
  leaves \<open>LastCheck\<close> as it was, so every request goes to the same upstream, for
  as many requests as fail.
\<close>

theorem maglev_retries_one_upstream:
  assumes "ml_invar m" "ml_upstreams m \<noteq> []" "\<forall>u \<in> set (ml_upstreams m). \<not> Healthy u"
  shows "\<exists>i. failing_requests ml_Next ml_MarkHealthy ml_upstreams m rs = replicate (length rs) i"
proof -
  obtain i where i: "probeCandidate (ml_upstreams m) = Some i"
    using assms(2) probeCandidate_Some_ex by blast
  have "failing_requests ml_Next ml_MarkHealthy ml_upstreams m rs = replicate (length rs) i"
    using assms i
  proof (induction rs arbitrary: m)
    case Nil
    then show ?case by simp
  next
    case (Cons rt rs)
    obtain r t where rt: "rt = (r, t)" by (cases rt)
    obtain m' where m': "ml_Next m r = Ret (Some i, m')" "ml_invar m'" "ml_upstreams m' = ml_upstreams m"
      using ml_Next_ok [OF Cons.prems(1), of r] Cons.prems by fastforce
    have "ml_MarkHealthy m' (URL (ml_upstreams m' ! i)) False t = m'"
      using Cons.prems(3) setHealth_same [of "ml_upstreams m'"] m'(3)
      by (simp add: ml_MarkHealthy_def Let_def)
    with Cons.IH [of m'] Cons.prems m' show ?case by (simp add: rt)
  qed
  then show ?thesis by blast
qed

theorem maglev_retries_one_upstream_witness:
  "\<exists>i. failing_requests ml_Next ml_MarkHealthy ml_upstreams
     \<lparr>ml_upstreams = [\<lparr>URL = ''http://a:80'', Weight = 1, Healthy = False, LastCheck = 3\<rparr>,
        \<lparr>URL = ''http://b:80'', Weight = 1, Healthy = False, LastCheck = 4\<rparr>],
      ml_table = replicate 65537 1, ml_dirty = True\<rparr> [(some_request, 5), (some_request, 6)] = replicate 2 i"
proof -
  show ?thesis
    using perm_ok_a perm_ok_b maglev_retries_one_upstream [of
      "\<lparr>ml_upstreams = [\<lparr>URL = ''http://a:80'', Weight = 1, Healthy = False, LastCheck = 3\<rparr>,
        \<lparr>URL = ''http://b:80'', Weight = 1, Healthy = False, LastCheck = 4\<rparr>],
      ml_table = replicate 65537 1, ml_dirty = True\<rparr>" "[(some_request, 5), (some_request, 6)]"]
    by (simp add: ml_invar_def maglevTableSize_def numeral_2_eq_2)
qed

end
