(* ===== verification/Balancers.thy ===== *)
theory Balancers
  imports Maglev
begin

text \<open>
  The constructor \<open>New\<close> of \<open>internal/loadbalancer/loadbalancer.go\<close> and the
  balancer a target holds: a value of the Go interface is one of the four
  algorithms, and a call is dispatched on it. The interface's laws hold of the
  dispatched operations, so they hold whatever the configured algorithm.
\<close>

datatype balancer =
    RoundRobin roundRobin
  | Weighted weightedRoundRobin
  | MaglevHash maglev
  | LeastConn leastConnections

definition New :: "string \<Rightarrow> upstream list \<Rightarrow> balancer go" where
  "New algorithm us =
     (if algorithm = ''weighted_rr'' \<or> algorithm = ''wrr''
      then Ret (Weighted (NewWeightedRoundRobin us))
      else if algorithm = ''maglev'' then go_bind (NewMaglev us) (\<lambda>m. Ret (MaglevHash m))
      else if algorithm = ''least_conn'' \<or> algorithm = ''least_connections''
      then Ret (LeastConn (NewLeastConnections us))
      else Ret (RoundRobin (NewRoundRobin us)))"

fun lb_Next :: "balancer \<Rightarrow> request \<Rightarrow> (nat option \<times> balancer) go" where
  "lb_Next (RoundRobin b) r = go_bind (rr_Next b r) (\<lambda>(c, b'). Ret (c, RoundRobin b'))"
| "lb_Next (Weighted b) r = go_bind (wrr_Next b r) (\<lambda>(c, b'). Ret (c, Weighted b'))"
| "lb_Next (MaglevHash b) r = go_bind (ml_Next b r) (\<lambda>(c, b'). Ret (c, MaglevHash b'))"
| "lb_Next (LeastConn b) r = go_bind (lc_Next b r) (\<lambda>(c, b'). Ret (c, LeastConn b'))"

fun lb_MarkHealthy :: "balancer \<Rightarrow> string \<Rightarrow> bool \<Rightarrow> int \<Rightarrow> balancer" where
  "lb_MarkHealthy (RoundRobin b) url h now = RoundRobin (rr_MarkHealthy b url h now)"
| "lb_MarkHealthy (Weighted b) url h now = Weighted (wrr_MarkHealthy b url h now)"
| "lb_MarkHealthy (MaglevHash b) url h now = MaglevHash (ml_MarkHealthy b url h now)"
| "lb_MarkHealthy (LeastConn b) url h now = LeastConn (lc_MarkHealthy b url h now)"

fun GetUpstreams :: "balancer \<Rightarrow> upstream list" where
  "GetUpstreams (RoundRobin b) = rr_upstreams b"
| "GetUpstreams (Weighted b) = wrr_upstreams b"
| "GetUpstreams (MaglevHash b) = ml_upstreams b"
| "GetUpstreams (LeastConn b) = lc_upstreams b"

fun lb_invar :: "balancer \<Rightarrow> bool" where
  "lb_invar (RoundRobin b) = rr_invar b"
| "lb_invar (Weighted b) = wrr_invar b"
| "lb_invar (MaglevHash b) = ml_invar b"
| "lb_invar (LeastConn b) = lc_invar b"

fun lb_ready :: "balancer \<Rightarrow> bool" where
  "lb_ready (RoundRobin b) = rr_ready b"
| "lb_ready (Weighted b) = True"
| "lb_ready (MaglevHash b) = True"
| "lb_ready (LeastConn b) = True"

section \<open>The laws of the interface\<close>

interpretation lb: load_balancer lb_Next lb_MarkHealthy GetUpstreams lb_invar
proof (rule load_balancerI)
  fix b r
  assume "lb_invar b"
  then show "\<exists>c s'. lb_Next b r = Ret (c, s') \<and> lb_invar s' \<and> GetUpstreams s' = GetUpstreams b \<and>
      (c = None \<longrightarrow> GetUpstreams b = []) \<and> (\<forall>i. c = Some i \<longrightarrow> i < length (GetUpstreams b))"
  proof (cases b)
    case (RoundRobin x)
    with \<open>lb_invar b\<close> show ?thesis
      using rr.next_total [of x r] rr.next_invar rr.next_ups rr.next_range rr.next_some by fastforce
  next
    case (Weighted x)
    with \<open>lb_invar b\<close> show ?thesis
      using wrr.next_total [of x r] wrr.next_invar wrr.next_ups wrr.next_range wrr.next_some by fastforce
  next
    case (MaglevHash x)
    with \<open>lb_invar b\<close> show ?thesis
      using ml.next_total [of x r] ml.next_invar ml.next_ups ml.next_range ml.next_some by fastforce
  next
    case (LeastConn x)
    with \<open>lb_invar b\<close> show ?thesis
      using lc.next_total [of x r] lc.next_invar lc.next_ups lc.next_range lc.next_some by fastforce
  qed
next
  fix b url h now
  assume "lb_invar b"
  then show "lb_invar (lb_MarkHealthy b url h now) \<and>
      map URL (GetUpstreams (lb_MarkHealthy b url h now)) = map URL (GetUpstreams b) \<and>
      map Healthy (GetUpstreams (lb_MarkHealthy b url h now)) =
        map Healthy (mark_first (GetUpstreams b) url h now)"
    by (cases b) (auto simp: rr.mark_invar wrr.mark_invar ml.mark_invar lc.mark_invar)
qed

interpretation lb: healthy_balancer lb_Next lb_MarkHealthy GetUpstreams lb_invar lb_ready
proof
  fix b r i b'
  assume "lb_invar b" "lb_ready b" "lb_Next b r = Ret (Some i, b')" "\<exists>u \<in> set (GetUpstreams b). Healthy u"
  then show "Healthy (GetUpstreams b ! i)"
    by (cases b) (auto simp: go_bind_Ret_iff
        intro: rr.next_healthy wrr.next_healthy ml.next_healthy lc.next_healthy)
qed


section \<open>Construction\<close>

text \<open>
  A pool \<open>New\<close> can be called on: a slice length, and for Maglev no upstream
  whose permutation stands still.
\<close>

definition pool_ok :: "string \<Rightarrow> upstream list \<Rightarrow> bool" where
  "pool_ok algorithm us \<longleftrightarrow> length us < 2 ^ 63 \<and>
     (algorithm = ''maglev'' \<longrightarrow> (\<forall>u \<in> set us. perm_ok (URL u)))"

lemma NewMaglev_invar:
  assumes "\<forall>u \<in> set us. perm_ok (URL u)"
  shows "\<exists>m. NewMaglev us = Ret m \<and> ml_invar m \<and> ml_upstreams m = all_healthy us"
proof (cases "us = []")
  case True
  then show ?thesis
    by (simp add: NewMaglev_def buildTableLocked_def hasHealthy_def all_healthy_def ml_invar_def)
next
  case False
  let ?m = "\<lparr>ml_upstreams = all_healthy us, ml_table = [], ml_dirty = False\<rparr>"
  have ok: "\<forall>u \<in> set (ml_upstreams ?m). perm_ok (URL u)"
    using assms by (auto simp: all_healthy_def)
  have up: "hasHealthy (ml_upstreams ?m)"
    using False by (cases us) (auto simp: hasHealthy_def all_healthy_def)
  show ?thesis
    by (rule buildTableLocked_ok [OF ok up]) (use ok in \<open>auto simp: ml_invar_def NewMaglev_def\<close>)
qed

lemma New_ok:
  assumes "pool_ok algorithm us"
  shows "\<exists>b. New algorithm us = Ret b \<and> lb_invar b \<and> GetUpstreams b = all_healthy us"
  using assms NewMaglev_invar [of us] wrr_invar_New
  by (auto simp: New_def pool_ok_def rr_invar_def lc_invar_def)

text \<open>
  Whatever the configured algorithm, a balancer built by \<open>New\<close> serves every
  sequence of requests and health marks without a panic: each request gets an
  upstream of the configured pool (none only if the pool is empty), and the
  pool's URLs stay what was configured.
\<close>

theorem New_serves:
  assumes "pool_ok algorithm us"
  shows "\<exists>b cs b'. New algorithm us = Ret b \<and> lb_run lb_Next lb_MarkHealthy b es = Ret (cs, b') \<and>
    map URL (GetUpstreams b') = map URL us \<and>
    (\<forall>c \<in> set cs. case c of None \<Rightarrow> us = [] | Some i \<Rightarrow> i < length us)"
proof -
  obtain b where b: "New algorithm us = Ret b" "lb_invar b" "GetUpstreams b = all_healthy us"
    using New_ok [OF assms] by blast
  from lb.lb_run_safe [OF b(2), of es, unfolded b(3) all_healthy_simps] b(1) show ?thesis by auto
qed

theorem New_serves_witness:
  "\<exists>b cs b'. New ''maglev'' [\<lparr>URL = ''http://a:80'', Weight = 1, Healthy = False, LastCheck = 0\<rparr>] = Ret b \<and>
    lb_run lb_Next lb_MarkHealthy b [Request some_request, Mark ''http://a:80'' False 3, Request some_request] =
      Ret (cs, b') \<and>
    map URL (GetUpstreams b') = [''http://a:80''] \<and>
    (\<forall>c \<in> set cs. case c of None \<Rightarrow> False | Some i \<Rightarrow> i < 1)"
  using New_serves [of "''maglev''" "[\<lparr>URL = ''http://a:80'', Weight = 1, Healthy = False, LastCheck = 0\<rparr>]"
      "[Request some_request, Mark ''http://a:80'' False 3, Request some_request]"] perm_ok_a
  by (simp add: pool_ok_def cong: option.case_cong)

text \<open>
  C30. A request is never sent to an unhealthy upstream while a healthy one is
  in the pool, for every algorithm (for round robin as long as its 64-bit
  counter does not wrap within the scan).
\<close>

theorem Next_prefers_healthy:
  assumes "lb_invar b" "lb_ready b" "\<exists>u \<in> set (GetUpstreams b). Healthy u"
  shows "\<exists>i b'. lb_Next b r = Ret (Some i, b') \<and> i < length (GetUpstreams b) \<and>
    Healthy (GetUpstreams b ! i) \<and> GetUpstreams b' = GetUpstreams b"
proof -
  have "GetUpstreams b \<noteq> []" using assms(3) by auto
  from lb.next_index [OF assms(1) this, of r] lb.next_healthy [OF assms(1,2) _ assms(3)]
  show ?thesis by metis
qed

theorem Next_prefers_healthy_witness:
  "\<exists>i b'. lb_Next (LeastConn \<lparr>lc_upstreams = [\<lparr>URL = ''a'', Weight = 1, Healthy = False, LastCheck = 0\<rparr>,
      \<lparr>URL = ''b'', Weight = 1, Healthy = True, LastCheck = 0\<rparr>], lc_active = [0, 5]\<rparr>) some_request =
      Ret (Some i, b') \<and> i < 2"
  using Next_prefers_healthy [of "LeastConn \<lparr>lc_upstreams =
      [\<lparr>URL = ''a'', Weight = 1, Healthy = False, LastCheck = 0\<rparr>,
      \<lparr>URL = ''b'', Weight = 1, Healthy = True, LastCheck = 0\<rparr>], lc_active = [0, 5]\<rparr>" some_request]
  by (auto simp: lc_invar_def)



end
