(* ===== verification/HealthCheck.thy ===== *)
theory HealthCheck
  imports Balancers
begin

text \<open>
  The active health checker of \<open>internal/loadbalancer/healthcheck.go\<close>. It is a
  client of the interface \<open>LoadBalancer\<close>, so its definitions take the
  interface's operations as arguments and its lemmas are proved once for every
  balancer. The answer of the network to a probe is the argument \<open>send\<close>: the
  status code for a URL and headers, None when the request cannot be built or
  no response arrives.
\<close>

record health_config =
  hc_Path :: string
  hc_Interval :: duration
  hc_Timeout :: duration
  hc_ExpectedStatus :: int
  hc_Headers :: "(string \<times> string) list"

definition DefaultHealthCheckConfig :: health_config where
  "DefaultHealthCheckConfig =
     \<lparr>hc_Path = ''/healthz'', hc_Interval = 10 * 10 ^ 9, hc_Timeout = 3 * 10 ^ 9,
      hc_ExpectedStatus = 200, hc_Headers = []\<rparr>"

text \<open>The configuration a checker runs with: the default for a nil one.\<close>

definition NewHealthChecker :: "health_config option \<Rightarrow> health_config" where
  "NewHealthChecker config = (case config of None \<Rightarrow> DefaultHealthCheckConfig | Some c \<Rightarrow> c)"

definition probe :: "health_config \<Rightarrow> (string \<Rightarrow> header \<Rightarrow> int option) \<Rightarrow> string \<Rightarrow> bool" where
  "probe cfg send url =
     (case Cut url ''://'' of
        None \<Rightarrow> False
      | Some (scheme, host) \<Rightarrow>
          (let probeURL = scheme @ ''://'' @ host @ hc_Path cfg;
               hdrs = foldl (\<lambda>h (k, v). Header_Set h k v) [] (hc_Headers cfg)
           in case send probeURL hdrs of
                None \<Rightarrow> False
              | Some status \<Rightarrow>
                  (let expected = if hc_ExpectedStatus cfg = 0 then 200 else hc_ExpectedStatus cfg
                   in status = expected)))"

text \<open>
  The loop over the balancer's upstreams, which are shared: the health read at
  position \<open>i\<close> is that of the state the marks before have left. \<open>now i\<close> is the
  clock at the mark of position \<open>i\<close>.
\<close>

fun probe_from ::
  "('s \<Rightarrow> string \<Rightarrow> bool \<Rightarrow> int \<Rightarrow> 's) \<Rightarrow> ('s \<Rightarrow> upstream list) \<Rightarrow> health_config \<Rightarrow>
   (string \<Rightarrow> header \<Rightarrow> int option) \<Rightarrow> (nat \<Rightarrow> int) \<Rightarrow> nat list \<Rightarrow> 's \<Rightarrow> 's" where
  "probe_from mark ups cfg send now [] s = s"
| "probe_from mark ups cfg send now (i # is) s =
     (let u = ups s ! i in
      if Healthy u then probe_from mark ups cfg send now is s
      else probe_from mark ups cfg send now is (mark s (URL u) (probe cfg send (URL u)) (now i)))"

definition probeUnhealthy ::
  "('s \<Rightarrow> string \<Rightarrow> bool \<Rightarrow> int \<Rightarrow> 's) \<Rightarrow> ('s \<Rightarrow> upstream list) \<Rightarrow> health_config \<Rightarrow>
   (string \<Rightarrow> header \<Rightarrow> int option) \<Rightarrow> (nat \<Rightarrow> int) \<Rightarrow> 's \<Rightarrow> 's" where
  "probeUnhealthy mark ups cfg send now s =
     (if ups s = [] then s else probe_from mark ups cfg send now [0..<length (ups s)] s)"

section \<open>What a round of probes does\<close>

context load_balancer
begin

lemma probe_from_effect:
  assumes "invar s" "distinct (map URL (ups s))" "set is \<subseteq> {..<length (ups s)}" "distinct is"
  shows "invar (probe_from mark ups cfg send now is s) \<and>
    map URL (ups (probe_from mark ups cfg send now is s)) = map URL (ups s) \<and>
    (\<forall>j < length (ups s). Healthy (ups (probe_from mark ups cfg send now is s) ! j) =
      (Healthy (ups s ! j) \<or> j \<in> set is \<and> probe cfg send (URL (ups s ! j))))"
  using assms
proof (induction "is" arbitrary: s)
  case Nil
  then show ?case by simp
next
  case (Cons i "is")
  let ?u = "ups s ! i"
  have i: "i < length (ups s)" "i \<notin> set is" "set is \<subseteq> {..<length (ups s)}" "distinct is"
    using Cons.prems by auto
  show ?case
  proof (cases "Healthy ?u")
    case True
    with Cons.IH [OF Cons.prems(1,2) i(3,4)] show ?thesis by (auto simp: Let_def)
  next
    case False
    let ?m = "mark s (URL ?u) (probe cfg send (URL ?u)) (now i)"
    have inv: "invar ?m" and urls: "map URL (ups ?m) = map URL (ups s)"
      using mark_invar mark_urls Cons.prems(1) by auto
    then have len: "length (ups ?m) = length (ups s)" using map_eq_imp_length_eq by blast
    have nth: "URL (ups ?m ! j) = URL (ups s ! j)"
      "Healthy (ups ?m ! j) = (if URL (ups s ! j) = URL ?u then probe cfg send (URL ?u) else Healthy (ups s ! j))"
      if "j < length (ups s)" for j
      using mark_nth mark_url_nth Cons.prems(1,2) that by auto
    have only: "URL (ups s ! j) = URL ?u \<longleftrightarrow> j = i" if "j < length (ups s)" for j
      using Cons.prems(2) that i(1) by (simp add: distinct_conv_nth)
        (metis)
    from Cons.IH [OF inv _ _ i(4)] urls len Cons.prems(2) i(3)
    have "invar (probe_from mark ups cfg send now is ?m)"
      "map URL (ups (probe_from mark ups cfg send now is ?m)) = map URL (ups s)"
      "\<forall>j < length (ups s). Healthy (ups (probe_from mark ups cfg send now is ?m) ! j) =
        (Healthy (ups ?m ! j) \<or> j \<in> set is \<and> probe cfg send (URL (ups ?m ! j)))"
      by auto
    then show ?thesis using False nth only i(2) by (auto simp: Let_def)
  qed
qed

lemma probeUnhealthy_effect:
  assumes "invar s" "distinct (map URL (ups s))"
  shows "invar (probeUnhealthy mark ups cfg send now s)"
    and "map URL (ups (probeUnhealthy mark ups cfg send now s)) = map URL (ups s)"
    and "j < length (ups s) \<Longrightarrow> Healthy (ups (probeUnhealthy mark ups cfg send now s) ! j) =
      (Healthy (ups s ! j) \<or> probe cfg send (URL (ups s ! j)))"
  using probe_from_effect [OF assms, of "[0..<length (ups s)]" cfg send now] assms(1)
  by (auto simp: probeUnhealthy_def atLeast0LessThan)

end

text \<open>
  A round of active health checks, for every algorithm and a pool of distinct
  URLs: afterwards an upstream is healthy exactly when it was healthy before or
  its probe answered with the expected status; the pool is unchanged.
\<close>

theorem probeUnhealthy_correct:
  assumes "lb_invar b" "distinct (map URL (GetUpstreams b))"
  shows "lb_invar (probeUnhealthy lb_MarkHealthy GetUpstreams cfg send now b) \<and>
    map URL (GetUpstreams (probeUnhealthy lb_MarkHealthy GetUpstreams cfg send now b)) =
      map URL (GetUpstreams b) \<and>
    (\<forall>j < length (GetUpstreams b).
      Healthy (GetUpstreams (probeUnhealthy lb_MarkHealthy GetUpstreams cfg send now b) ! j) =
        (Healthy (GetUpstreams b ! j) \<or> probe cfg send (URL (GetUpstreams b ! j))))"
  using lb.probeUnhealthy_effect [OF assms] by blast

theorem probeUnhealthy_correct_witness:
  "map Healthy (GetUpstreams (probeUnhealthy lb_MarkHealthy GetUpstreams DefaultHealthCheckConfig
      (\<lambda>url h. if url = ''http://b/healthz'' then Some 200 else None) (\<lambda>i. 7)
      (LeastConn \<lparr>lc_upstreams = [\<lparr>URL = ''http://a'', Weight = 1, Healthy = False, LastCheck = 0\<rparr>,
        \<lparr>URL = ''http://b'', Weight = 1, Healthy = False, LastCheck = 0\<rparr>], lc_active = [0, 0]\<rparr>))) = [False, True]"
proof -
  let ?send = "\<lambda>url h. if url = ''http://b/healthz'' then Some 200 else None"
  let ?b = "LeastConn \<lparr>lc_upstreams = [\<lparr>URL = ''http://a'', Weight = 1, Healthy = False, LastCheck = 0\<rparr>,
        \<lparr>URL = ''http://b'', Weight = 1, Healthy = False, LastCheck = 0\<rparr>], lc_active = [0, 0]\<rparr>"
  have "\<not> probe DefaultHealthCheckConfig ?send ''http://a''" "probe DefaultHealthCheckConfig ?send ''http://b''"
    by (simp_all add: probe_def DefaultHealthCheckConfig_def Cut_def HasPrefix_def)
  moreover have "lb_invar ?b" "distinct (map URL (GetUpstreams ?b))" by (simp_all add: lc_invar_def)
  note r = probeUnhealthy_correct [OF this, of DefaultHealthCheckConfig ?send "\<lambda>i. 7"]
  let ?us = "GetUpstreams (probeUnhealthy lb_MarkHealthy GetUpstreams DefaultHealthCheckConfig ?send (\<lambda>i. 7) ?b)"
  have "map URL ?us = [''http://a'', ''http://b'']" using r by simp
  then have len: "length ?us = 2" by (metis length_map length_Cons list.size(3) numeral_2_eq_2)
  moreover have "\<forall>j < 2. Healthy (?us ! j) = (j = 1)"
    using r calculation by (simp add: numeral_2_eq_2 All_less_Suc)
  ultimately show ?thesis by (simp add: list_eq_iff_nth_eq numeral_2_eq_2 All_less_Suc)
qed

end
