(* ===== verification/LruCache.thy ===== *)
theory LruCache
  imports Prelude "HOL-Library.AList"
begin

text \<open>
  The generic LRU cache of \<open>internal/cluster/lru.go\<close>, which holds the target
  handlers materialised on demand. The model is at the level of the code: a
  heap of nodes linked both ways between two sentinels, and a map from keys to
  node addresses. It is shown to refine a list of key/value pairs, most
  recently used first, and the interface the lazy handlers rely on is a locale
  over that list.
\<close>

section \<open>Nodes and the heap\<close>

text \<open>
  An address is a natural number, 0 the nil pointer. The sentinels carry the
  zero key and value of Go, which no operation reads: None.
\<close>

record ('k, 'v) lruNode =
  n_key :: "'k option"
  n_value :: "'v option"
  n_prev :: nat
  n_next :: nat

record ('k, 'v) LRUCache =
  capacity :: nat
  cache :: "('k \<times> nat) list"
  head :: nat
  tail :: nat
  heap :: "nat \<Rightarrow> ('k, 'v) lruNode"
  fresh :: nat

definition zero_node :: "('k, 'v) lruNode" where
  "zero_node = \<lparr>n_key = None, n_value = None, n_prev = 0, n_next = 0\<rparr>"

definition NewLRUCache :: "int \<Rightarrow> ('k, 'v) LRUCache" where
  "NewLRUCache cap =
     \<lparr>capacity = (if cap \<le> 0 then 10000 else nat cap), cache = [], head = 1, tail = 2,
      heap = (\<lambda>_. zero_node)(1 := zero_node\<lparr>n_next := 2\<rparr>, 2 := zero_node\<lparr>n_prev := 1\<rparr>),
      fresh = 3\<rparr>"

text \<open>Field access through a pointer; a nil pointer panics.\<close>

definition get_next :: "('k, 'v) LRUCache \<Rightarrow> nat \<Rightarrow> nat go" where
  "get_next c a = (if a = 0 then Panic else Ret (n_next (heap c a)))"

definition get_prev :: "('k, 'v) LRUCache \<Rightarrow> nat \<Rightarrow> nat go" where
  "get_prev c a = (if a = 0 then Panic else Ret (n_prev (heap c a)))"

definition set_next :: "('k, 'v) LRUCache \<Rightarrow> nat \<Rightarrow> nat \<Rightarrow> ('k, 'v) LRUCache go" where
  "set_next c a b = (if a = 0 then Panic
     else Ret (c\<lparr>heap := (heap c)(a := (heap c a)\<lparr>n_next := b\<rparr>)\<rparr>))"

definition set_prev :: "('k, 'v) LRUCache \<Rightarrow> nat \<Rightarrow> nat \<Rightarrow> ('k, 'v) LRUCache go" where
  "set_prev c a b = (if a = 0 then Panic
     else Ret (c\<lparr>heap := (heap c)(a := (heap c a)\<lparr>n_prev := b\<rparr>)\<rparr>))"

section \<open>Operations\<close>

definition addToFront :: "('k, 'v) LRUCache \<Rightarrow> nat \<Rightarrow> ('k, 'v) LRUCache go" where
  "addToFront c node =
     go_bind (get_next c (head c)) (\<lambda>n.
     go_bind (set_next c node n) (\<lambda>c.
     go_bind (set_prev c node (head c)) (\<lambda>c.
     go_bind (get_next c (head c)) (\<lambda>n.
     go_bind (set_prev c n node) (\<lambda>c.
       set_next c (head c) node)))))"

definition lru_remove :: "('k, 'v) LRUCache \<Rightarrow> nat \<Rightarrow> ('k, 'v) LRUCache go" where
  "lru_remove c node =
     go_bind (get_prev c node) (\<lambda>p.
     go_bind (get_next c node) (\<lambda>n.
     go_bind (set_next c p n) (\<lambda>c.
     go_bind (get_next c node) (\<lambda>n.
     go_bind (get_prev c node) (\<lambda>p.
       set_prev c n p)))))"

definition moveToFront :: "('k, 'v) LRUCache \<Rightarrow> nat \<Rightarrow> ('k, 'v) LRUCache go" where
  "moveToFront c node = go_bind (lru_remove c node) (\<lambda>c. addToFront c node)"

text \<open>Deleting the key of a node from the map; a sentinel's zero key is in no map.\<close>

definition delete_key :: "('k \<times> nat) list \<Rightarrow> 'k option \<Rightarrow> ('k \<times> nat) list" where
  "delete_key m k = (case k of None \<Rightarrow> m | Some k \<Rightarrow> AList.delete k m)"

definition lru_evict :: "('k, 'v) LRUCache \<Rightarrow> ('k, 'v) LRUCache go" where
  "lru_evict c =
     go_bind (get_prev c (tail c)) (\<lambda>node.
       if node = head c then Ret c
       else go_bind (lru_remove c node) (\<lambda>c.
              Ret (c\<lparr>cache := delete_key (cache c) (n_key (heap c node))\<rparr>)))"

definition lru_Get :: "('k, 'v) LRUCache \<Rightarrow> 'k \<Rightarrow> ('v option \<times> ('k, 'v) LRUCache) go" where
  "lru_Get c key =
     (case map_of (cache c) key of
        None \<Rightarrow> Ret (None, c)
      | Some node \<Rightarrow> go_bind (moveToFront c node) (\<lambda>c. Ret (n_value (heap c node), c)))"

definition lru_Put :: "('k, 'v) LRUCache \<Rightarrow> 'k \<Rightarrow> 'v \<Rightarrow> ('k, 'v) LRUCache go" where
  "lru_Put c key value =
     (case map_of (cache c) key of
        Some node \<Rightarrow>
          moveToFront (c\<lparr>heap := (heap c)(node := (heap c node)\<lparr>n_value := Some value\<rparr>)\<rparr>) node
      | None \<Rightarrow>
          go_bind (if capacity c \<le> length (cache c) then lru_evict c else Ret c) (\<lambda>c.
            (let node = fresh c;
                 c = c\<lparr>heap := (heap c)(node := \<lparr>n_key = Some key, n_value = Some value,
                                               n_prev = 0, n_next = 0\<rparr>),
                       fresh := Suc node, cache := AList.update key node (cache c)\<rparr>
             in addToFront c node)))"

definition lru_Delete :: "('k, 'v) LRUCache \<Rightarrow> 'k \<Rightarrow> (bool \<times> ('k, 'v) LRUCache) go" where
  "lru_Delete c key =
     (case map_of (cache c) key of
        None \<Rightarrow> Ret (False, c)
      | Some node \<Rightarrow>
          go_bind (lru_remove c node) (\<lambda>c. Ret (True, c\<lparr>cache := AList.delete key (cache c)\<rparr>)))"

definition lru_Len :: "('k, 'v) LRUCache \<Rightarrow> nat" where
  "lru_Len c = length (cache c)"

definition lru_Capacity :: "('k, 'v) LRUCache \<Rightarrow> nat" where
  "lru_Capacity c = capacity c"

section \<open>The specification: a recency list\<close>

text \<open>The entries in order of use, the most recent first.\<close>

definition spec_front :: "'k \<Rightarrow> 'v \<Rightarrow> ('k \<times> 'v) list \<Rightarrow> ('k \<times> 'v) list" where
  "spec_front k v l = (k, v) # AList.delete k l"

definition spec_Get :: "('k \<times> 'v) list \<Rightarrow> 'k \<Rightarrow> 'v option \<times> ('k \<times> 'v) list" where
  "spec_Get l k = (case map_of l k of None \<Rightarrow> (None, l) | Some v \<Rightarrow> (Some v, spec_front k v l))"

definition spec_Put :: "nat \<Rightarrow> ('k \<times> 'v) list \<Rightarrow> 'k \<Rightarrow> 'v \<Rightarrow> ('k \<times> 'v) list" where
  "spec_Put cap l k v =
     (if k \<in> fst ` set l then spec_front k v l
      else (k, v) # (if cap \<le> length l then butlast l else l))"

definition spec_Delete :: "('k \<times> 'v) list \<Rightarrow> 'k \<Rightarrow> bool \<times> ('k \<times> 'v) list" where
  "spec_Delete l k = (k \<in> fst ` set l, AList.delete k l)"

section \<open>Linked lists in the heap\<close>

text \<open>Consecutive addresses of the list are linked in both directions.\<close>

fun linked :: "(nat \<Rightarrow> ('k, 'v) lruNode) \<Rightarrow> nat list \<Rightarrow> bool" where
  "linked h (x # y # zs) \<longleftrightarrow> n_next (h x) = y \<and> n_prev (h y) = x \<and> linked h (y # zs)"
| "linked h zs \<longleftrightarrow> True"

lemma linked_append:
  "linked h (xs @ x # ys) \<longleftrightarrow> linked h (xs @ [x]) \<and> linked h (x # ys)"
proof (induction xs)
  case (Cons a xs)
  then show ?case by (cases xs) auto
qed simp

lemma linked_cong:
  assumes "\<And>a. a \<in> set (butlast zs) \<Longrightarrow> n_next (h a) = n_next (g a)"
    and "\<And>a. a \<in> set (tl zs) \<Longrightarrow> n_prev (h a) = n_prev (g a)"
  shows "linked h zs = linked g zs"
  using assms by (induction g zs rule: linked.induct) auto

text \<open>Taking a node out of a list and putting one in after the first address.\<close>

lemma linked_unlink:
  assumes "linked h (xs @ p # a # q # ys)" "distinct (xs @ p # a # q # ys)"
    and "\<And>z. n_next (g z) = (if z = p then q else n_next (h z))"
    and "\<And>z. n_prev (g z) = (if z = q then p else n_prev (h z))"
  shows "linked g (xs @ p # q # ys)"
proof -
  have "linked h (xs @ [p])" "linked h (q # ys)"
    using assms(1) linked_append [of h xs p "a # q # ys"] by simp_all
  moreover have "linked g (xs @ [p]) = linked h (xs @ [p])"
  proof (rule linked_cong)
    fix z
    show "z \<in> set (butlast (xs @ [p])) \<Longrightarrow> n_next (g z) = n_next (h z)"
      using assms(2,3) by auto
    have "set (tl (xs @ [p])) \<subseteq> insert p (set xs)" by (cases xs) auto
    then show "z \<in> set (tl (xs @ [p])) \<Longrightarrow> n_prev (g z) = n_prev (h z)"
      using assms(2,4) by auto
  qed
  moreover have "linked g (q # ys) = linked h (q # ys)"
    using assms(2-4) by (intro linked_cong) (auto dest: in_set_butlastD split: if_splits)
  ultimately show ?thesis using assms(3,4) linked_append [of g xs p "q # ys"] by simp
qed

lemma linked_insert:
  assumes "linked h (p # q # ys)" "distinct (p # q # ys)" "a \<notin> set (p # q # ys)"
    and "\<And>z. n_next (g z) = (if z = p then a else if z = a then q else n_next (h z))"
    and "\<And>z. n_prev (g z) = (if z = q then a else if z = a then p else n_prev (h z))"
  shows "linked g (p # a # q # ys)"
proof -
  have "linked g (q # ys) = linked h (q # ys)"
    using assms(2-5) by (intro linked_cong) (auto dest: in_set_butlastD split: if_splits)
  then show ?thesis using assms by auto
qed

section \<open>The refinement relation\<close>

text \<open>
  \<open>represents c as l\<close>: the nodes at the addresses \<open>as\<close>, in list order between the
  sentinels, hold the entries \<open>l\<close>; the map holds exactly their keys.
\<close>

definition represents :: "('k, 'v) LRUCache \<Rightarrow> nat list \<Rightarrow> ('k \<times> 'v) list \<Rightarrow> bool" where
  "represents c as l \<longleftrightarrow>
     head c = 1 \<and> tail c = 2 \<and> 3 \<le> fresh c \<and> linked (heap c) (1 # as @ [2]) \<and>
     distinct as \<and> (\<forall>a \<in> set as. 3 \<le> a \<and> a < fresh c) \<and>
     map (\<lambda>a. (n_key (heap c a), n_value (heap c a))) as = map (\<lambda>(k, v). (Some k, Some v)) l \<and>
     distinct (map fst l) \<and> distinct (map fst (cache c)) \<and>
     (\<forall>k a. map_of (cache c) k = Some a \<longleftrightarrow> a \<in> set as \<and> n_key (heap c a) = Some k)"

definition lru_invar :: "('k, 'v) LRUCache \<Rightarrow> bool" where
  "lru_invar c \<longleftrightarrow> (\<exists>as l. represents c as l \<and> 0 < capacity c \<and> length l \<le> capacity c)"

text \<open>The abstraction: the entries read off the list from the head sentinel.\<close>

fun walk :: "(nat \<Rightarrow> ('k, 'v) lruNode) \<Rightarrow> nat \<Rightarrow> nat \<Rightarrow> ('k \<times> 'v) list" where
  "walk h a 0 = []"
| "walk h a (Suc n) = (the (n_key (h a)), the (n_value (h a))) # walk h (n_next (h a)) n"

definition lru_abs :: "('k, 'v) LRUCache \<Rightarrow> ('k \<times> 'v) list" where
  "lru_abs c = walk (heap c) (n_next (heap c 1)) (length (cache c))"

lemma represents_nth:
  assumes "represents c as l" "i < length as"
  shows "i < length l" "n_key (heap c (as ! i)) = Some (fst (l ! i))"
    "n_value (heap c (as ! i)) = Some (snd (l ! i))"
proof -
  have m: "map (\<lambda>a. (n_key (heap c a), n_value (heap c a))) as = map (\<lambda>(k, v). (Some k, Some v)) l"
    using assms(1) by (simp add: represents_def)
  then have len: "length as = length l" using map_eq_imp_length_eq by blast
  then show "i < length l" using assms(2) by simp
  from m assms(2) len have "(n_key (heap c (as ! i)), n_value (heap c (as ! i))) =
      (\<lambda>(k, v). (Some k, Some v)) (l ! i)"
    by (metis (no_types, lifting) nth_map)
  then show "n_key (heap c (as ! i)) = Some (fst (l ! i))" "n_value (heap c (as ! i)) = Some (snd (l ! i))"
    by (simp_all split: prod.splits)
qed

lemma represents_length: "represents c as l \<Longrightarrow> length as = length l"
  unfolding represents_def using map_eq_imp_length_eq by blast

lemma length_cache:
  assumes "represents c as l"
  shows "length (cache c) = length as"
proof -
  have "set (cache c) = (\<lambda>a. (the (n_key (heap c a)), a)) ` set as"
  proof (intro set_eqI iffI)
    fix x assume "x \<in> set (cache c)"
    then have "map_of (cache c) (fst x) = Some (snd x)"
      using assms by (intro map_of_is_SomeI) (auto simp: represents_def)
    then show "x \<in> (\<lambda>a. (the (n_key (heap c a)), a)) ` set as"
      using assms by (auto simp: represents_def image_iff) (metis option.sel prod.collapse)
  next
    fix x assume "x \<in> (\<lambda>a. (the (n_key (heap c a)), a)) ` set as"
    then obtain i where i: "i < length as" "x = (the (n_key (heap c (as ! i))), as ! i)"
      by (auto simp: in_set_conv_nth)
    then have "map_of (cache c) (fst x) = Some (snd x)"
      using assms represents_nth [OF assms i(1)] by (simp add: represents_def)
    then show "x \<in> set (cache c)" using map_of_SomeD by fastforce
  qed
  then have "card (set (cache c)) = card (set as)"
    by (simp add: card_image inj_on_def)
  moreover have "distinct (cache c)" "distinct as"
    using assms distinct_map by (auto simp: represents_def)
  ultimately show ?thesis by (simp add: distinct_card)
qed

lemma walk_linked:
  assumes "linked h (x # as @ [t])"
    and "map (\<lambda>a. (n_key (h a), n_value (h a))) as = map (\<lambda>(k, v). (Some k, Some v)) l"
  shows "walk h (n_next (h x)) (length as) = l"
  using assms
proof (induction as arbitrary: x l)
  case (Cons a as)
  then obtain k v l' where l: "l = (k, v) # l'" by (cases l) auto
  with Cons show ?case by simp
qed simp

lemma lru_abs_eq: "represents c as l \<Longrightarrow> lru_abs c = l"
  using walk_linked [of "heap c" 1 as 2 l] length_cache [of c as l]
  by (simp add: lru_abs_def represents_def)

text \<open>The map finds the node of a key exactly when the key is in the list.\<close>

lemma represents_lookup:
  assumes "represents c as l"
  shows "map_of (cache c) k = None \<longleftrightarrow> k \<notin> fst ` set l"
    and "map_of (cache c) k = Some a \<Longrightarrow> \<exists>xs ys ls ms v. as = xs @ a # ys \<and> l = ls @ (k, v) # ms \<and>
      length xs = length ls \<and> n_value (heap c a) = Some v"
proof -
  have cache: "\<And>k a. map_of (cache c) k = Some a \<longleftrightarrow> a \<in> set as \<and> n_key (heap c a) = Some k"
    using assms by (auto simp: represents_def)
  show "map_of (cache c) k = None \<longleftrightarrow> k \<notin> fst ` set l"
  proof
    assume none: "map_of (cache c) k = None"
    show "k \<notin> fst ` set l"
    proof
      assume "k \<in> fst ` set l"
      then obtain i where i: "i < length l" "fst (l ! i) = k" by (auto simp: in_set_conv_nth)
      then have "i < length as" using represents_length [OF assms] by simp
      then have "map_of (cache c) k = Some (as ! i)"
        using represents_nth [OF assms] i cache by simp
      with none show False by simp
    qed
  next
    assume "k \<notin> fst ` set l"
    show "map_of (cache c) k = None"
    proof (rule ccontr)
      assume "map_of (cache c) k \<noteq> None"
      then obtain a where "a \<in> set as" "n_key (heap c a) = Some k" using cache by auto
      then obtain i where i: "i < length as" "n_key (heap c (as ! i)) = Some k"
        by (auto simp: in_set_conv_nth)
      then have "fst (l ! i) = k" "i < length l" using represents_nth [OF assms] by auto
      with \<open>k \<notin> fst ` set l\<close> show False by (metis image_eqI nth_mem)
    qed
  qed
  assume "map_of (cache c) k = Some a"
  then obtain i where i: "i < length as" "as ! i = a" "n_key (heap c a) = Some k"
    using cache by (auto simp: in_set_conv_nth)
  note nth = represents_nth [OF assms i(1)]
  have "as = take i as @ a # drop (Suc i) as" using i(1,2) id_take_nth_drop by metis
  moreover have "l = take i l @ (k, snd (l ! i)) # drop (Suc i) l"
    using nth i id_take_nth_drop [OF nth(1)] by (metis option.inject prod.collapse)
  ultimately show "\<exists>xs ys ls ms v. as = xs @ a # ys \<and> l = ls @ (k, v) # ms \<and>
      length xs = length ls \<and> n_value (heap c a) = Some v"
    using nth i represents_length [OF assms]
    by (intro exI [of _ "take i as"] exI [of _ "drop (Suc i) as"] exI [of _ "take i l"]
        exI [of _ "drop (Suc i) l"] exI [of _ "snd (l ! i)"]) simp
qed

section \<open>Moving nodes\<close>

lemma addToFront_effect:
  assumes "head c = 1" "a \<noteq> 0" "a \<noteq> 1" "n = n_next (heap c 1)" "n \<noteq> 0" "n \<noteq> a"
  shows "\<exists>d. addToFront c a = Ret d \<and> d = c\<lparr>heap := heap d\<rparr> \<and>
    (\<forall>z. n_next (heap d z) = (if z = 1 then a else if z = a then n else n_next (heap c z))) \<and>
    (\<forall>z. n_prev (heap d z) = (if z = n then a else if z = a then 1 else n_prev (heap c z))) \<and>
    (\<forall>z. n_key (heap d z) = n_key (heap c z) \<and> n_value (heap d z) = n_value (heap c z))"
  using assms by (simp add: addToFront_def get_next_def set_next_def set_prev_def)

lemma lru_remove_effect:
  assumes "a \<noteq> 0" "p = n_prev (heap c a)" "n = n_next (heap c a)" "p \<noteq> 0" "n \<noteq> 0" "p \<noteq> a" "n \<noteq> a"
  shows "\<exists>d. lru_remove c a = Ret d \<and> d = c\<lparr>heap := heap d\<rparr> \<and>
    (\<forall>z. n_next (heap d z) = (if z = p then n else n_next (heap c z))) \<and>
    (\<forall>z. n_prev (heap d z) = (if z = n then p else n_prev (heap c z))) \<and>
    (\<forall>z. n_key (heap d z) = n_key (heap c z) \<and> n_value (heap d z) = n_value (heap c z))"
  using assms by (simp add: lru_remove_def get_next_def get_prev_def set_next_def set_prev_def)

text \<open>The part of the relation the pointer operations work on.\<close>

definition chain :: "('k, 'v) LRUCache \<Rightarrow> nat list \<Rightarrow> bool" where
  "chain c as \<longleftrightarrow> head c = 1 \<and> tail c = 2 \<and> linked (heap c) (1 # as @ [2]) \<and> distinct as \<and>
     (\<forall>a \<in> set as. 3 \<le> a)"

definition same_data :: "('k, 'v) LRUCache \<Rightarrow> ('k, 'v) LRUCache \<Rightarrow> bool" where
  "same_data c d \<longleftrightarrow> d = c\<lparr>heap := heap d\<rparr> \<and>
     (\<forall>z. n_key (heap d z) = n_key (heap c z) \<and> n_value (heap d z) = n_value (heap c z))"

lemma same_dataD:
  assumes "same_data c d"
  shows "capacity d = capacity c" "cache d = cache c" "head d = head c" "tail d = tail c"
    "fresh d = fresh c" "n_key (heap d z) = n_key (heap c z)" "n_value (heap d z) = n_value (heap c z)"
proof -
  have d: "d = c\<lparr>heap := heap d\<rparr>" using assms by (simp add: same_data_def)
  show "capacity d = capacity c" "cache d = cache c" "head d = head c" "tail d = tail c"
    "fresh d = fresh c" by (subst d, simp)+
  show "n_key (heap d z) = n_key (heap c z)" "n_value (heap d z) = n_value (heap c z)"
    using assms by (simp_all add: same_data_def)
qed

lemma same_data_trans: "same_data c d \<Longrightarrow> same_data d e \<Longrightarrow> same_data c e"
  by (cases c; cases d; cases e) (simp add: same_data_def)

lemma chain_distinct:
  assumes "chain c as"
  shows "distinct (1 # as @ [2])" "0 \<notin> set (1 # as @ [2])"
proof -
  have "3 \<le> z" if "z \<in> set as" for z using assms that by (simp add: chain_def)
  from this [of 0] this [of 1] this [of 2]
  have "0 \<notin> set as" "1 \<notin> set as" "2 \<notin> set as" by auto
  then show "distinct (1 # as @ [2])" "0 \<notin> set (1 # as @ [2])"
    using assms by (simp_all add: chain_def)
qed

lemma chain_front:
  assumes "chain c as" "3 \<le> a" "a \<notin> set as"
  shows "\<exists>d. addToFront c a = Ret d \<and> chain d (a # as) \<and> same_data c d"
proof -
  obtain q ys where q: "as @ [2] = q # ys" by (cases as) auto
  note nice = chain_distinct [OF assms(1), unfolded q]
  have c: "head c = 1" "linked (heap c) (1 # q # ys)"
    using assms(1) q by (simp_all add: chain_def)
  have fresh: "a \<notin> set (1 # q # ys)"
    unfolding q [symmetric] using assms(2,3) by auto
  have qa: "n_next (heap c 1) = q" "q \<noteq> 0" "q \<noteq> a" using c(2) nice(2) fresh by auto
  obtain d where d: "addToFront c a = Ret d" "d = c\<lparr>heap := heap d\<rparr>"
      "\<forall>z. n_next (heap d z) = (if z = 1 then a else if z = a then q else n_next (heap c z))"
      "\<forall>z. n_prev (heap d z) = (if z = q then a else if z = a then 1 else n_prev (heap c z))"
      "\<forall>z. n_key (heap d z) = n_key (heap c z) \<and> n_value (heap d z) = n_value (heap c z)"
    using addToFront_effect [of c a q] c(1) assms(2) qa by auto
  have same: "same_data c d" using d(2,5) by (simp add: same_data_def)
  have "linked (heap d) (1 # a # q # ys)"
    using linked_insert [OF c(2) nice(1) fresh] d(3,4) by blast
  then have "chain d (a # as)"
    using assms q same_dataD [OF same] by (simp add: chain_def)
  then show ?thesis using d(1) same by blast
qed

lemma chain_remove:
  assumes "chain c (xs @ a # ys)"
  shows "\<exists>d. lru_remove c a = Ret d \<and> chain d (xs @ ys) \<and> same_data c d"
proof -
  obtain xs' p where p: "1 # xs = xs' @ [p]" by (metis append_butlast_last_id list.distinct(1))
  obtain q ys' where q: "ys @ [2] = q # ys'" by (cases ys) auto
  have all: "1 # (xs @ zs @ ys) @ [2] = xs' @ p # zs @ q # ys'" for zs
    using p q by (metis append.assoc append_Cons append_Nil)
  have "distinct (1 # (xs @ [a] @ ys) @ [2])" "0 \<notin> set (1 # (xs @ [a] @ ys) @ [2])"
      "linked (heap c) (1 # (xs @ [a] @ ys) @ [2])"
    using assms chain_distinct [OF assms] by (simp_all add: chain_def)
  then have c: "linked (heap c) (xs' @ p # a # q # ys')" "distinct (xs' @ p # a # q # ys')"
      "0 \<notin> set (xs' @ p # a # q # ys')"
    unfolding all by simp_all
  have link: "n_prev (heap c a) = p" "n_next (heap c a) = q"
    using c(1) linked_append [of "heap c" xs' p "a # q # ys'"] by auto
  obtain d where d: "lru_remove c a = Ret d" "d = c\<lparr>heap := heap d\<rparr>"
      "\<forall>z. n_next (heap d z) = (if z = p then q else n_next (heap c z))"
      "\<forall>z. n_prev (heap d z) = (if z = q then p else n_prev (heap c z))"
      "\<forall>z. n_key (heap d z) = n_key (heap c z) \<and> n_value (heap d z) = n_value (heap c z)"
    using lru_remove_effect [of a p c q] c(2,3) link by auto
  have same: "same_data c d" using d(2,5) by (simp add: same_data_def)
  have "linked (heap d) (xs' @ p # q # ys')"
    using linked_unlink [OF c(1,2)] d(3,4) by blast
  then have "linked (heap d) (1 # (xs @ ys) @ [2])" using all [of "[]"] by simp
  then have "chain d (xs @ ys)"
    using assms same_dataD [OF same] by (simp add: chain_def)
  then show ?thesis using d(1) same by blast
qed

lemma chain_move:
  assumes "chain c (xs @ a # ys)"
  shows "\<exists>d. moveToFront c a = Ret d \<and> chain d (a # xs @ ys) \<and> same_data c d"
proof -
  obtain d where d: "lru_remove c a = Ret d" "chain d (xs @ ys)" "same_data c d"
    using chain_remove [OF assms] by blast
  have "3 \<le> a" "a \<notin> set (xs @ ys)" using assms by (auto simp: chain_def)
  then obtain e where "addToFront d a = Ret e" "chain e (a # xs @ ys)" "same_data d e"
    using chain_front [OF d(2)] by blast
  with d show ?thesis by (auto simp: moveToFront_def intro: same_data_trans)
qed

section \<open>Each operation refines the specification\<close>

abbreviation entries_of :: "('k, 'v) LRUCache \<Rightarrow> nat list \<Rightarrow> ('k option \<times> 'v option) list" where
  "entries_of c as \<equiv> map (\<lambda>a. (n_key (heap c a), n_value (heap c a))) as"

abbreviation some_pairs :: "('k \<times> 'v) list \<Rightarrow> ('k option \<times> 'v option) list" where
  "some_pairs l \<equiv> map (\<lambda>(k, v). (Some k, Some v)) l"

lemma represents_chain: "represents c as l \<Longrightarrow> chain c as"
  by (simp add: represents_def chain_def)

lemma same_data_entries: "same_data c d \<Longrightarrow> entries_of d as = entries_of c as"
  using same_dataD(6,7) [of c d] by simp

lemma represents_split:
  assumes "represents c (xs @ a # ys) (ls @ (k, v) # ms)" "length xs = length ls"
  shows "entries_of c xs = some_pairs ls" "n_key (heap c a) = Some k" "n_value (heap c a) = Some v"
    "entries_of c ys = some_pairs ms"
proof -
  have "entries_of c xs @ (n_key (heap c a), n_value (heap c a)) # entries_of c ys =
      some_pairs ls @ (Some k, Some v) # some_pairs ms"
    using assms(1) by (simp add: represents_def)
  moreover have "length (entries_of c xs) = length (some_pairs ls)" using assms(2) by simp
  ultimately show "entries_of c xs = some_pairs ls" "n_key (heap c a) = Some k"
    "n_value (heap c a) = Some v" "entries_of c ys = some_pairs ms"
    by (auto dest: append_eq_append_conv [THEN iffD1, rotated])
qed

lemma delete_middle:
  assumes "distinct (map fst (ls @ (k, v) # ms))"
  shows "AList.delete k (ls @ (k, v) # ms) = ls @ ms"
proof -
  have "filter (\<lambda>(k', _). k \<noteq> k') ls = ls" "filter (\<lambda>(k', _). k \<noteq> k') ms = ms"
    using assms by (auto simp: filter_id_conv image_iff split: prod.splits)
  then show ?thesis by (simp add: AList.delete_eq)
qed

lemma represents_move:
  assumes "represents c (xs @ a # ys) (ls @ (k, v) # ms)" "length xs = length ls"
  shows "\<exists>d. moveToFront c a = Ret d \<and> represents d (a # xs @ ys) ((k, v) # ls @ ms) \<and> same_data c d"
proof -
  obtain d where d: "moveToFront c a = Ret d" "chain d (a # xs @ ys)" "same_data c d"
    using chain_move [OF represents_chain [OF assms(1)]] by blast
  note data = same_dataD [OF d(3)] and parts = represents_split [OF assms]
  have "entries_of d (a # xs @ ys) = some_pairs ((k, v) # ls @ ms)"
    using parts by (simp add: data)
  moreover have "distinct (map fst ((k, v) # ls @ ms))" using assms(1) by (auto simp: represents_def)
  ultimately have "represents d (a # xs @ ys) ((k, v) # ls @ ms)"
    using assms(1) d(2) by (auto simp: represents_def chain_def data)
  with d show ?thesis by blast
qed

lemma represents_drop:
  assumes "represents c (xs @ a # ys) (ls @ (k, v) # ms)" "length xs = length ls"
    and "chain d (xs @ ys)" "same_data c d"
  shows "represents (d\<lparr>cache := AList.delete k (cache d)\<rparr>) (xs @ ys) (ls @ ms)"
proof -
  note data = same_dataD [OF assms(4)] and parts = represents_split [OF assms(1,2)]
  have cache: "\<And>k b. map_of (cache c) k = Some b \<longleftrightarrow>
      (b = a \<or> b \<in> set (xs @ ys)) \<and> n_key (heap c b) = Some k"
    and a: "a \<notin> set (xs @ ys)"
    using assms(1) by (auto simp: represents_def)
  have "n_key (heap c b) \<noteq> Some k" if "b \<in> set (xs @ ys)" for b
    using cache [of k b] cache [of k a] parts(2) that a by auto
  then have "map_of (AList.delete k (cache c)) k' = Some b \<longleftrightarrow>
      b \<in> set (xs @ ys) \<and> n_key (heap c b) = Some k'" for k' b
    using cache [of k' b] parts(2) by (auto simp: AList.delete_conv')
  moreover have "distinct (map fst (AList.delete k (cache c)))"
    using assms(1) by (simp add: represents_def AList.distinct_delete)
  moreover have "distinct (map fst (ls @ ms))" using assms(1) by (auto simp: represents_def)
  ultimately show ?thesis
    using assms(1,3) parts by (auto simp: represents_def chain_def data)
qed

lemma lru_Get_refines:
  assumes "represents c as l"
  shows "\<exists>d bs. lru_Get c k = Ret (fst (spec_Get l k), d) \<and> represents d bs (snd (spec_Get l k)) \<and>
    capacity d = capacity c"
proof (cases "map_of (cache c) k")
  case None
  then have "map_of l k = None"
    using represents_lookup(1) [OF assms] by (simp add: map_of_eq_None_iff)
  with None assms show ?thesis by (auto simp: lru_Get_def spec_Get_def)
next
  case (Some a)
  obtain xs ys ls ms v where s: "as = xs @ a # ys" "l = ls @ (k, v) # ms" "length xs = length ls"
      "n_value (heap c a) = Some v"
    using represents_lookup(2) [OF assms Some] by blast
  obtain d where d: "moveToFront c a = Ret d" "represents d (a # xs @ ys) ((k, v) # ls @ ms)" "same_data c d"
    using represents_move [OF assms [unfolded s(1,2)] s(3)] by blast
  have dist: "distinct (map fst l)" using assms by (simp add: represents_def)
  then have "map_of l k = Some v" using s(2) by (intro map_of_is_SomeI) auto
  then have "spec_Get l k = (Some v, (k, v) # ls @ ms)"
    using delete_middle dist s(2) by (simp add: spec_Get_def spec_front_def)
  with d(1,2) s(4) Some same_dataD(1,7) [OF d(3)] show ?thesis by (auto simp: lru_Get_def)
qed

lemma lru_Delete_refines:
  assumes "represents c as l"
  shows "\<exists>d bs. lru_Delete c k = Ret (fst (spec_Delete l k), d) \<and> represents d bs (snd (spec_Delete l k)) \<and>
    capacity d = capacity c"
proof (cases "map_of (cache c) k")
  case None
  then have "k \<notin> fst ` set l" using represents_lookup(1) [OF assms] by simp
  then have "AList.delete k l = l" by (auto simp: AList.delete_eq filter_id_conv image_iff)
  with None assms \<open>k \<notin> fst ` set l\<close> show ?thesis by (auto simp: lru_Delete_def spec_Delete_def)
next
  case (Some a)
  obtain xs ys ls ms v where s: "as = xs @ a # ys" "l = ls @ (k, v) # ms" "length xs = length ls"
    using represents_lookup(2) [OF assms Some] by blast
  obtain d where d: "lru_remove c a = Ret d" "chain d (xs @ ys)" "same_data c d"
    using chain_remove represents_chain assms s(1) by blast
  have "spec_Delete l k = (True, ls @ ms)"
    using delete_middle [of ls k v ms] assms s(2) by (simp add: spec_Delete_def represents_def)
  moreover have "represents (d\<lparr>cache := AList.delete k (cache d)\<rparr>) (xs @ ys) (ls @ ms)"
    using represents_drop [OF _ s(3) d(2,3)] assms s(1,2) by blast
  ultimately show ?thesis using d(1) Some same_dataD(1) [OF d(3)] by (auto simp: lru_Delete_def)
qed

lemma lru_evict_refines:
  assumes "represents c as l"
  shows "\<exists>d bs. lru_evict c = Ret d \<and> represents d bs (butlast l) \<and> capacity d = capacity c"
proof (cases as rule: rev_cases)
  case Nil
  then have "l = []" "n_prev (heap c 2) = 1" using assms by (auto simp: represents_def)
  with assms Nil show ?thesis by (auto simp: lru_evict_def get_prev_def represents_def)
next
  case (snoc xs a)
  then obtain ls k v where l: "l = ls @ [(k, v)]" "length xs = length ls"
    using represents_length [OF assms] by (cases l rule: rev_cases) auto
  have chain: "chain c (xs @ a # [])" using represents_chain [OF assms] snoc by simp
  have link: "linked (heap c) ((1 # xs) @ a # [2])" using chain by (simp add: chain_def)
  then have "n_prev (heap c 2) = a" using linked_append [of "heap c" "1 # xs" a "[2]"] by simp
  moreover have "a \<noteq> 1" using chain_distinct(1) [OF chain] by auto
  moreover obtain d where d: "lru_remove c a = Ret d" "chain d (xs @ [])" "same_data c d"
    using chain_remove [OF chain] by blast
  moreover have "n_key (heap d a) = Some k"
    using represents_split(2) [of c xs a "[]" ls k v "[]"] assms snoc l same_dataD(6) [OF d(3)] by simp
  moreover have "represents (d\<lparr>cache := AList.delete k (cache d)\<rparr>) (xs @ []) (ls @ [])"
    using represents_drop [of c xs a "[]" ls k v "[]" d] d(2,3) assms snoc l by simp
  moreover have "head c = 1" "tail c = 2" using chain by (auto simp: chain_def)
  ultimately show ?thesis
    using l(1) same_dataD(1) [OF d(3)] by (auto simp: lru_evict_def get_prev_def delete_key_def)
qed

text \<open>A new node in front: its address is not in the list, so the list is undisturbed.\<close>

lemma represents_add:
  assumes "represents c as l" "k \<notin> fst ` set l"
    and c': "c' = c\<lparr>heap := (heap c)(fresh c := \<lparr>n_key = Some k, n_value = Some v, n_prev = 0, n_next = 0\<rparr>),
        fresh := Suc (fresh c), cache := AList.update k (fresh c) (cache c)\<rparr>"
  shows "\<exists>d. addToFront c' (fresh c) = Ret d \<and> represents d (fresh c # as) ((k, v) # l) \<and>
    capacity d = capacity c"
proof -
  let ?a = "fresh c"
  have a: "3 \<le> ?a" "?a \<notin> set as" "?a \<noteq> 1" "?a \<noteq> 2" using assms(1) by (auto simp: represents_def)
  have "linked (heap c') (1 # as @ [2]) = linked (heap c) (1 # as @ [2])"
    using a by (intro linked_cong) (auto simp: c')
  then have chain: "chain c' as" using assms(1) by (auto simp: represents_def chain_def c')
  obtain d where d: "addToFront c' ?a = Ret d" "chain d (?a # as)" "same_data c' d"
    using chain_front [OF chain a(1,2)] by blast
  note data = same_dataD [OF d(3)]
  have upd: "entries_of c' as = entries_of c as" using a(2) by (auto simp: c')
  have "entries_of d (?a # as) = some_pairs ((k, v) # l)"
    unfolding same_data_entries [OF d(3)] list.map upd using assms(1) by (simp add: c' represents_def)
  moreover have "map_of (AList.update k ?a (cache c)) k' = Some b \<longleftrightarrow>
      b \<in> set (?a # as) \<and> n_key (heap c' b) = Some k'" for k' b
  proof -
    have "map_of (cache c) k \<noteq> Some b" using represents_lookup(1) [OF assms(1), of k] assms(2) by simp
    then have "\<not> (b \<in> set as \<and> n_key (heap c b) = Some k)" using assms(1) by (simp add: represents_def)
    then show ?thesis using assms(1) a(2) by (auto simp: AList.update_conv' c' represents_def)
  qed
  moreover have "distinct (map fst (AList.update k ?a (cache c)))"
    using assms(1) by (simp add: represents_def AList.distinct_update)
  moreover have "distinct (map fst ((k, v) # l))" using assms(1,2) by (simp add: represents_def)
  ultimately have "represents d (?a # as) ((k, v) # l)"
    using assms(1) d(2) by (auto simp: represents_def chain_def data c')
  with d(1) show ?thesis by (auto simp: data c')
qed

lemma represents_set_value:
  assumes "represents c (xs @ a # ys) (ls @ (k, v) # ms)" "length xs = length ls"
  shows "represents (c\<lparr>heap := (heap c)(a := (heap c a)\<lparr>n_value := Some w\<rparr>)\<rparr>) (xs @ a # ys) (ls @ (k, w) # ms)"
    (is "represents ?c _ _")
proof -
  have a: "a \<notin> set xs" "a \<notin> set ys" using assms(1) by (auto simp: represents_def)
  have "linked (heap ?c) (1 # (xs @ a # ys) @ [2]) = linked (heap c) (1 # (xs @ a # ys) @ [2])"
    by (rule linked_cong) simp_all
  moreover have upd: "entries_of ?c xs = entries_of c xs" "entries_of ?c ys = entries_of c ys"
    using a by auto
  have "entries_of ?c (xs @ a # ys) = some_pairs (ls @ (k, w) # ms)"
    unfolding map_append list.map upd using represents_split [OF assms] by simp
  ultimately show ?thesis using assms(1) by (auto simp: represents_def)
qed

lemma lru_Put_refines:
  assumes "represents c as l"
  shows "\<exists>d bs. lru_Put c k v = Ret d \<and> represents d bs (spec_Put (capacity c) l k v) \<and>
    capacity d = capacity c"
proof (cases "map_of (cache c) k")
  case (Some a)
  let ?c = "c\<lparr>heap := (heap c)(a := (heap c a)\<lparr>n_value := Some v\<rparr>)\<rparr>"
  obtain xs ys ls ms w where s: "as = xs @ a # ys" "l = ls @ (k, w) # ms" "length xs = length ls"
    using represents_lookup(2) [OF assms Some] by blast
  have "represents ?c (xs @ a # ys) (ls @ (k, v) # ms)"
    using represents_set_value [OF assms [unfolded s(1,2)] s(3)] .
  from represents_move [OF this s(3)]
  obtain d where d: "moveToFront ?c a = Ret d" "represents d (a # xs @ ys) ((k, v) # ls @ ms)" "same_data ?c d"
    by blast
  have "spec_Put (capacity c) l k v = (k, v) # ls @ ms"
    using delete_middle [of ls k w ms] assms s(2) by (simp add: spec_Put_def spec_front_def represents_def)
  with d(1,2) Some same_dataD(1) [OF d(3)] show ?thesis by (auto simp: lru_Put_def)
next
  case None
  then have k: "k \<notin> fst ` set l" using represents_lookup(1) [OF assms] by simp
  let ?l = "if capacity c \<le> length l then butlast l else l"
  have len: "length (cache c) = length l" using length_cache [OF assms] represents_length [OF assms] by simp
  obtain d bs where d: "(if capacity c \<le> length (cache c) then lru_evict c else Ret c) = Ret d"
      "represents d bs ?l" "capacity d = capacity c"
  proof (cases "capacity c \<le> length l")
    case True
    obtain d bs where "lru_evict c = Ret d" "represents d bs (butlast l)" "capacity d = capacity c"
      using lru_evict_refines [OF assms] by blast
    then show thesis using True len by (intro that [of d bs]) simp_all
  next
    case False
    then show thesis using assms len by (intro that [of c as]) simp_all
  qed
  have "set ?l \<subseteq> set l" by (simp add: subsetI in_set_butlastD)
  then have k': "k \<notin> fst ` set ?l" using k by (meson image_mono subsetD)
  obtain e where e: "addToFront (d\<lparr>heap := (heap d)(fresh d :=
        \<lparr>n_key = Some k, n_value = Some v, n_prev = 0, n_next = 0\<rparr>), fresh := Suc (fresh d),
        cache := AList.update k (fresh d) (cache d)\<rparr>) (fresh d) = Ret e"
      "represents e (fresh d # bs) ((k, v) # ?l)" "capacity e = capacity d"
    using represents_add [OF d(2) k' refl, of v] by blast
  have "lru_Put c k v = Ret e"
    unfolding lru_Put_def None option.case d(1) go_bind.simps Let_def by (rule e(1))
  moreover have "spec_Put (capacity c) l k v = (k, v) # ?l" using k by (simp add: spec_Put_def)
  ultimately show ?thesis using e(2,3) d(3) by auto
qed

section \<open>The interface\<close>

text \<open>
  What a client of the cache relies on: every operation returns, keeps the
  invariant and acts on the recency list as the specification says.
\<close>

locale recency_cache =
  fixes get :: "'c \<Rightarrow> 'k \<Rightarrow> ('v option \<times> 'c) go"
    and put :: "'c \<Rightarrow> 'k \<Rightarrow> 'v \<Rightarrow> 'c go"
    and delete :: "'c \<Rightarrow> 'k \<Rightarrow> (bool \<times> 'c) go"
    and entries :: "'c \<Rightarrow> ('k \<times> 'v) list"
    and cap :: "'c \<Rightarrow> nat"
    and invar :: "'c \<Rightarrow> bool"
  assumes cap_pos: "invar c \<Longrightarrow> 0 < cap c"
    and bounded: "invar c \<Longrightarrow> length (entries c) \<le> cap c"
    and keys_distinct: "invar c \<Longrightarrow> distinct (map fst (entries c))"
    and get_spec: "invar c \<Longrightarrow> \<exists>d. get c k = Ret (fst (spec_Get (entries c) k), d) \<and> invar d \<and>
      entries d = snd (spec_Get (entries c) k) \<and> cap d = cap c"
    and put_spec: "invar c \<Longrightarrow> \<exists>d. put c k v = Ret d \<and> invar d \<and>
      entries d = spec_Put (cap c) (entries c) k v \<and> cap d = cap c"
    and delete_spec: "invar c \<Longrightarrow> \<exists>d. delete c k = Ret (fst (spec_Delete (entries c) k), d) \<and> invar d \<and>
      entries d = snd (spec_Delete (entries c) k) \<and> cap d = cap c"
begin

text \<open>What was put is found, until it is deleted or pushed out.\<close>

lemma get_after_put:
  assumes "invar c" "put c k v = Ret d"
  shows "\<exists>e. get d k = Ret (Some v, e) \<and> invar e"
proof -
  have d: "invar d" "entries d = spec_Put (cap c) (entries c) k v"
    using put_spec [OF assms(1), of k v] assms(2) by auto
  then have "map_of (entries d) k = Some v" by (simp add: spec_Put_def spec_front_def)
  then show ?thesis using get_spec [OF d(1), of k] by (auto simp: spec_Get_def)
qed

lemma get_after_delete:
  assumes "invar c" "delete c k = Ret (b, d)"
  shows "get d k = Ret (None, d) \<or> (\<exists>e. get d k = Ret (None, e))"
proof -
  have d: "invar d" "entries d = AList.delete k (entries c)"
    using delete_spec [OF assms(1), of k] assms(2) by (auto simp: spec_Delete_def)
  then have "map_of (entries d) k = None" by (simp add: AList.delete_conv')
  then show ?thesis using get_spec [OF d(1), of k] by (auto simp: spec_Get_def)
qed

text \<open>Putting a new key into a full cache pushes out the least recently used entry and nothing else.\<close>

lemma put_evicts_last:
  assumes "invar c" "entries c = l @ [(k', v')]" "length (entries c) = cap c" "k \<notin> fst ` set (entries c)"
  shows "\<exists>d. put c k v = Ret d \<and> entries d = (k, v) # l"
  using put_spec [OF assms(1), of k v] assms(2-4) by (auto simp: spec_Put_def)

lemma put_keeps_others:
  assumes "invar c" "length (entries c) < cap c" "k' \<noteq> k" "put c k v = Ret d"
  shows "map_of (entries d) k' = map_of (entries c) k'"
  using put_spec [OF assms(1), of k v] assms(2-4)
  by (auto simp: spec_Put_def spec_front_def AList.delete_conv')

end

lemma spec_Get_keys:
  assumes "distinct (map fst l)"
  shows "length (snd (spec_Get l k)) = length l" "distinct (map fst (snd (spec_Get l k)))"
proof -
  have "length (AList.delete k l) = length l - 1" if "map_of l k = Some v" for v
    using that assms
  proof (induction l)
    case (Cons x l)
    have "AList.delete k l = l" if "k \<notin> fst ` set l"
      using that by (auto simp: AList.delete_eq filter_id_conv image_iff)
    with Cons show ?case by (cases x; cases l) (auto split: if_splits)
  qed simp
  moreover have "l \<noteq> []" if "map_of l k = Some v" for v using that by auto
  ultimately show "length (snd (spec_Get l k)) = length l"
    by (cases "map_of l k") (auto simp: spec_Get_def spec_front_def Suc_diff_le simp flip: length_greater_0_conv)
  show "distinct (map fst (snd (spec_Get l k)))"
    using assms AList.distinct_delete [OF assms, of k] by (auto simp: spec_Get_def spec_front_def
        dom_map_of_conv_image_fst [symmetric] AList.delete_conv' split: option.split)
qed

lemma spec_Put_length:
  assumes "length l \<le> n" "0 < n"
  shows "length (spec_Put n l k v) \<le> n"
proof -
  have shorter: "length (AList.delete k l) < length l" if "k \<in> fst ` set l"
    using that length_filter_less [of _ l "\<lambda>(k', _). k \<noteq> k'"] by (force simp: AList.delete_eq)
  show ?thesis
  proof (cases "k \<in> fst ` set l")
    case True
    then show ?thesis using shorter assms(1) by (simp add: spec_Put_def spec_front_def)
  next
    case False
    then show ?thesis using assms by (cases l) (simp_all add: spec_Put_def)
  qed
qed

lemma lru_invarI:
  assumes "represents c as l" "0 < capacity c" "length l \<le> capacity c"
  shows "lru_invar c" "lru_abs c = l"
  using assms lru_abs_eq by (auto simp: lru_invar_def)

interpretation lru: recency_cache lru_Get lru_Put lru_Delete lru_abs capacity lru_invar
proof
  fix c :: "('k, 'v) LRUCache" and k v
  assume "lru_invar c"
  then obtain as l where r: "represents c as l" "0 < capacity c" "length l \<le> capacity c"
    by (auto simp: lru_invar_def)
  have abs: "lru_abs c = l" by (rule lru_abs_eq [OF r(1)])
  have dist: "distinct (map fst l)" using r(1) by (simp add: represents_def)
  show "0 < capacity c" "length (lru_abs c) \<le> capacity c" "distinct (map fst (lru_abs c))"
    using r abs dist by auto
  obtain d bs where d: "lru_Get c k = Ret (fst (spec_Get l k), d)" "represents d bs (snd (spec_Get l k))"
      "capacity d = capacity c"
    using lru_Get_refines [OF r(1)] by blast
  then show "\<exists>d. lru_Get c k = Ret (fst (spec_Get (lru_abs c) k), d) \<and> lru_invar d \<and>
      lru_abs d = snd (spec_Get (lru_abs c) k) \<and> capacity d = capacity c"
    using lru_invarI [OF d(2)] r(2,3) spec_Get_keys(1) [OF dist] abs by auto
  obtain d bs where d: "lru_Put c k v = Ret d" "represents d bs (spec_Put (capacity c) l k v)"
      "capacity d = capacity c"
    using lru_Put_refines [OF r(1)] by blast
  then show "\<exists>d. lru_Put c k v = Ret d \<and> lru_invar d \<and>
      lru_abs d = spec_Put (capacity c) (lru_abs c) k v \<and> capacity d = capacity c"
    using lru_invarI [OF d(2)] r(2) spec_Put_length [OF r(3,2)] abs by auto
  obtain d bs where d: "lru_Delete c k = Ret (fst (spec_Delete l k), d)" "represents d bs (snd (spec_Delete l k))"
      "capacity d = capacity c"
    using lru_Delete_refines [OF r(1)] by blast
  have "length (snd (spec_Delete l k)) \<le> length l"
    by (simp add: spec_Delete_def AList.delete_eq)
  then show "\<exists>d. lru_Delete c k = Ret (fst (spec_Delete (lru_abs c) k), d) \<and> lru_invar d \<and>
      lru_abs d = snd (spec_Delete (lru_abs c) k) \<and> capacity d = capacity c"
    using lru_invarI [OF d(2)] d r(2,3) abs by auto
qed

lemma represents_New: "represents (NewLRUCache n) [] []"
  by (simp add: represents_def NewLRUCache_def zero_node_def)

lemma capacity_New: "capacity (NewLRUCache n) = (if n \<le> 0 then 10000 else nat n)"
  by (simp add: NewLRUCache_def)

lemma lru_invar_New:
  "lru_invar (NewLRUCache n :: ('a, 'b) LRUCache)" "lru_abs (NewLRUCache n :: ('a, 'b) LRUCache) = []"
proof -
  have "0 < capacity (NewLRUCache n :: ('a, 'b) LRUCache)" by (simp add: capacity_New)
  from lru_invarI [OF represents_New this]
  show "lru_invar (NewLRUCache n :: ('a, 'b) LRUCache)" "lru_abs (NewLRUCache n :: ('a, 'b) LRUCache) = []"
    by simp_all
qed

section \<open>Properties\<close>

text \<open>The operations in sequence, on the pointer structure and on the specification.\<close>

datatype ('k, 'v) lru_op = OpGet 'k | OpPut 'k 'v | OpDelete 'k

datatype 'v lru_answer = Found "'v option" | Stored | Deleted bool

fun lru_step :: "('k, 'v) LRUCache \<Rightarrow> ('k, 'v) lru_op \<Rightarrow> ('v lru_answer \<times> ('k, 'v) LRUCache) go" where
  "lru_step c (OpGet k) = go_bind (lru_Get c k) (\<lambda>(v, d). Ret (Found v, d))"
| "lru_step c (OpPut k v) = go_bind (lru_Put c k v) (\<lambda>d. Ret (Stored, d))"
| "lru_step c (OpDelete k) = go_bind (lru_Delete c k) (\<lambda>(b, d). Ret (Deleted b, d))"

fun spec_step :: "nat \<Rightarrow> ('k \<times> 'v) list \<Rightarrow> ('k, 'v) lru_op \<Rightarrow> 'v lru_answer \<times> ('k \<times> 'v) list" where
  "spec_step n l (OpGet k) = (case spec_Get l k of (v, l') \<Rightarrow> (Found v, l'))"
| "spec_step n l (OpPut k v) = (Stored, spec_Put n l k v)"
| "spec_step n l (OpDelete k) = (case spec_Delete l k of (b, l') \<Rightarrow> (Deleted b, l'))"

fun lru_run :: "('k, 'v) LRUCache \<Rightarrow> ('k, 'v) lru_op list \<Rightarrow> ('v lru_answer list \<times> ('k, 'v) LRUCache) go" where
  "lru_run c [] = Ret ([], c)"
| "lru_run c (o1 # os) = go_bind (lru_step c o1) (\<lambda>(a, d).
     go_bind (lru_run d os) (\<lambda>(as, e). Ret (a # as, e)))"

fun spec_run :: "nat \<Rightarrow> ('k \<times> 'v) list \<Rightarrow> ('k, 'v) lru_op list \<Rightarrow> 'v lru_answer list \<times> ('k \<times> 'v) list" where
  "spec_run n l [] = ([], l)"
| "spec_run n l (o1 # os) =
     (case spec_step n l o1 of (a, l') \<Rightarrow> case spec_run n l' os of (as, l'') \<Rightarrow> (a # as, l''))"

lemma lru_step_refines:
  assumes "lru_invar c"
  shows "\<exists>d. lru_step c o1 = Ret (fst (spec_step (capacity c) (lru_abs c) o1), d) \<and> lru_invar d \<and>
    lru_abs d = snd (spec_step (capacity c) (lru_abs c) o1) \<and> capacity d = capacity c"
proof (cases o1)
  case (OpGet k)
  then show ?thesis using lru.get_spec [OF assms, of k] by (auto split: prod.splits)
next
  case (OpPut k v)
  then show ?thesis using lru.put_spec [OF assms, of k v] by auto
next
  case (OpDelete k)
  then show ?thesis using lru.delete_spec [OF assms, of k] by (auto split: prod.splits)
qed

lemma lru_run_refines:
  assumes "lru_invar c"
  shows "\<exists>d. lru_run c os = Ret (fst (spec_run (capacity c) (lru_abs c) os), d) \<and> lru_invar d \<and>
    lru_abs d = snd (spec_run (capacity c) (lru_abs c) os) \<and> capacity d = capacity c"
  using assms
proof (induction os arbitrary: c)
  case (Cons o1 os)
  obtain d where d: "lru_step c o1 = Ret (fst (spec_step (capacity c) (lru_abs c) o1), d)" "lru_invar d"
      "lru_abs d = snd (spec_step (capacity c) (lru_abs c) o1)" "capacity d = capacity c"
    using lru_step_refines [OF Cons.prems] by blast
  from Cons.IH [OF d(2)] d show ?case by (auto split: prod.splits)
qed simp

text \<open>
  C11. The LRU cache's linked nodes and map implement a recency list: from a new
  cache, every sequence of \<open>Get\<close>, \<open>Put\<close> and \<open>Delete\<close> runs without a nil pointer
  panic, answers what the list specification answers and leaves the entries
  the specification leaves, in its order; there are never more of them than
  the capacity.
\<close>

theorem lru_refines_recency_list:
  "\<exists>d. lru_run (NewLRUCache n) os = Ret (fst (spec_run (if n \<le> 0 then 10000 else nat n) [] os), d) \<and>
    lru_abs d = snd (spec_run (if n \<le> 0 then 10000 else nat n) [] os) \<and>
    length (lru_abs d) \<le> (if n \<le> 0 then 10000 else nat n) \<and> lru_Len d = length (lru_abs d)"
proof -
  note run = lru_run_refines [OF lru_invar_New(1), of n os, unfolded lru_invar_New(2) capacity_New]
  then obtain d where d: "lru_run (NewLRUCache n) os =
        Ret (fst (spec_run (if n \<le> 0 then 10000 else nat n) [] os), d)" "lru_invar d"
      "lru_abs d = snd (spec_run (if n \<le> 0 then 10000 else nat n) [] os)"
      "capacity d = (if n \<le> 0 then 10000 else nat n)"
    by blast
  have "lru_Len d = length (lru_abs d)"
    using d(2) length_cache represents_length lru_abs_eq unfolding lru_invar_def lru_Len_def by metis
  with d lru.bounded [OF d(2)] show ?thesis by auto
qed

text \<open>
  What is put is found: right after \<open>Put\<close> of a key, \<open>Get\<close> of that key returns
  the value put; and a \<open>Put\<close> of a new key into a full cache drops exactly the
  least recently used entry.
\<close>

theorem lru_put_get_evict:
  assumes "lru_invar c"
  shows "\<exists>d e. lru_Put c k v = Ret d \<and> lru_Get d k = Ret (Some v, e) \<and>
    (k \<notin> fst ` set (lru_abs c) \<and> length (lru_abs c) = capacity c \<longrightarrow> lru_abs d = (k, v) # butlast (lru_abs c))"
proof -
  obtain d where d: "lru_Put c k v = Ret d" "lru_invar d" "lru_abs d = spec_Put (capacity c) (lru_abs c) k v"
    using lru.put_spec [OF assms] by blast
  with lru.get_after_put [OF assms d(1)] show ?thesis by (auto simp: spec_Put_def)
qed

theorem lru_put_get_evict_witness:
  "\<exists>d e. lru_Put (NewLRUCache 2 :: (nat, string) LRUCache) 7 ''h'' = Ret d \<and> lru_Get d 7 = Ret (Some ''h'', e)"
  using lru_put_get_evict [of "NewLRUCache 2 :: (nat, string) LRUCache" 7 "''h''"] lru_invar_New(1) by blast

end
