(* ===== verification/CacheKeys.thy ===== *)
theory CacheKeys
  imports Http
begin

unbundle bit_operations_syntax

text \<open>
  The names of cached entries, \<open>internal/cache/disk/key.go\<close>: SHA-256 of the
  host and the request URI in lower-case hexadecimal, with the hash function
  of Go's \<open>crypto/sha256\<close> written out on 32-bit words, and the path of an
  entry's files below the cache directory.
\<close>

section \<open>SHA-256\<close>

text \<open>
  The constants of the standard: the first 32 bits of the fractional parts of
  the cube roots of the first 64 primes, and of the square roots of the first
  eight for the initial state. The root is found bit by bit from above.
\<close>

primrec root_bits :: "nat \<Rightarrow> int \<Rightarrow> nat \<Rightarrow> int \<Rightarrow> int" where
  "root_bits k n 0 r = r"
| "root_bits k n (Suc b) r = root_bits k n b (if (r + 2 ^ b) ^ k \<le> n then r + 2 ^ b else r)"

definition root_fraction :: "nat \<Rightarrow> int \<Rightarrow> 32 word" where
  "root_fraction k p = word_of_int (root_bits k (p * 2 ^ (32 * k)) 37 0)"

definition sha_primes :: "int list" where
  "sha_primes = filter (\<lambda>n. list_all (\<lambda>d. n mod d \<noteq> 0) [2..n - 1]) [2..311]"

definition sha_K :: "32 word list" where
  "sha_K = map (root_fraction 3) sha_primes"

text \<open>The eight chaining words.\<close>

type_synonym sha_state =
  "32 word \<times> 32 word \<times> 32 word \<times> 32 word \<times> 32 word \<times> 32 word \<times> 32 word \<times> 32 word"

definition sha_init :: sha_state where
  "sha_init =
     (root_fraction 2 2, root_fraction 2 3, root_fraction 2 5, root_fraction 2 7,
      root_fraction 2 11, root_fraction 2 13, root_fraction 2 17, root_fraction 2 19)"

definition rotr :: "nat \<Rightarrow> 32 word \<Rightarrow> 32 word" where
  "rotr n x = drop_bit n x OR push_bit (32 - n) x"

definition sigma0 :: "32 word \<Rightarrow> 32 word" where
  "sigma0 x = rotr 7 x XOR rotr 18 x XOR drop_bit 3 x"

definition sigma1 :: "32 word \<Rightarrow> 32 word" where
  "sigma1 x = rotr 17 x XOR rotr 19 x XOR drop_bit 10 x"

text \<open>The message schedule, built from the sixteen words of a block.\<close>

fun schedule :: "nat \<Rightarrow> 32 word list \<Rightarrow> 32 word list" where
  "schedule 0 w = w"
| "schedule (Suc n) w =
     (let t = length w in
      schedule n (w @ [sigma1 (w ! (t - 2)) + w ! (t - 7) + sigma0 (w ! (t - 15)) + w ! (t - 16)]))"

fun sha_round :: "sha_state \<Rightarrow> 32 word \<times> 32 word \<Rightarrow> sha_state" where
  "sha_round (a, b, c, d, e, f, g, h) (k, w) =
     (let t1 = h + (rotr 6 e XOR rotr 11 e XOR rotr 25 e) + ((e AND f) XOR (NOT e AND g)) + k + w;
          t2 = (rotr 2 a XOR rotr 13 a XOR rotr 22 a) + ((a AND b) XOR (a AND c) XOR (b AND c))
      in (t1 + t2, a, b, c, d + t1, e, f, g))"

fun sha_add :: "sha_state \<Rightarrow> sha_state \<Rightarrow> sha_state" where
  "sha_add (a, b, c, d, e, f, g, h) (a', b', c', d', e', f', g', h') =
     (a + a', b + b', c + c', d + d', e + e', f + f', g + g', h + h')"

text \<open>Big-endian words of a block, the padding, and the hash of all blocks.\<close>

definition be_word :: "byte list \<Rightarrow> 32 word" where
  "be_word bs = foldl (\<lambda>x b. push_bit 8 x OR ucast b) 0 bs"

definition be_bytes :: "nat \<Rightarrow> nat \<Rightarrow> byte list" where
  "be_bytes k n = map (\<lambda>i. word_of_nat (n div 256 ^ (k - 1 - i))) [0..<k]"

definition sha_block :: "sha_state \<Rightarrow> byte list \<Rightarrow> sha_state" where
  "sha_block s block =
     (let w = schedule 48 (map (\<lambda>i. be_word (take 4 (drop (4 * i) block))) [0..<16])
      in sha_add s (foldl sha_round s (zip sha_K w)))"

definition sha_pad :: "byte list \<Rightarrow> byte list" where
  "sha_pad bs =
     (let n = length bs; z = (119 - n mod 64) mod 64
      in bs @ [0x80] @ replicate z 0 @ be_bytes 8 (8 * n mod 2 ^ 64))"

definition Sum256 :: "byte list \<Rightarrow> byte list" where
  "Sum256 bs =
     (let p = sha_pad bs in
      case foldl sha_block sha_init (map (\<lambda>i. take 64 (drop (64 * i) p)) [0..<length p div 64]) of
        (a, b, c, d, e, f, g, h) \<Rightarrow>
          concat (map (\<lambda>x. be_bytes 4 (unat x)) [a, b, c, d, e, f, g, h]))"

section \<open>Keys and paths\<close>

definition hex_digit :: "nat \<Rightarrow> char" where
  "hex_digit n = ''0123456789abcdef'' ! (n mod 16)"

text \<open>\<open>fmt.Sprintf("%x", \<dots>)\<close> on a byte array.\<close>

definition hex :: "byte list \<Rightarrow> string" where
  "hex bs = concat (map (\<lambda>b. [hex_digit (unat b div 16), hex_digit (unat b)]) bs)"

definition CacheKey :: "string \<Rightarrow> string \<Rightarrow> string" where
  "CacheKey host path = hex (Sum256 (bytes_of (host @ ''|'' @ path)))"

text \<open>
  A path below the cache directory is the list of its components. The slice
  \<open>key[:2]\<close> panics on a key shorter than two bytes.
\<close>

type_synonym path = "string list"

definition CachePath :: "string \<Rightarrow> string \<Rightarrow> path go" where
  "CachePath key ext = (if length key < 2 then Panic else Ret [take 2 key, drop 2 key @ ext])"

section \<open>Every key names an entry\<close>

lemma length_be_bytes [simp]: "length (be_bytes k n) = k"
  by (simp add: be_bytes_def)

lemma length_Sum256 [simp]: "length (Sum256 bs) = 32"
  by (simp add: Sum256_def Let_def split: prod.splits)

lemma length_hex [simp]: "length (hex bs) = 2 * length bs"
  by (induction bs) (simp_all add: hex_def)

lemma hex_digit_in: "hex_digit n \<in> set ''0123456789abcdef''"
proof -
  have "length ''0123456789abcdef'' = 16" by simp
  moreover have "n mod 16 < 16" by simp
  ultimately show ?thesis unfolding hex_digit_def by (metis nth_mem)
qed

lemma set_hex: "set (hex bs) \<subseteq> set ''0123456789abcdef''"
  unfolding hex_def using hex_digit_in by (simp add: subset_iff) blast

lemma length_CacheKey [simp]: "length (CacheKey host path) = 64"
  by (simp add: CacheKey_def)

text \<open>
  A cache key is a file name: 64 hexadecimal digits whatever the host and the
  URI, so \<open>CachePath\<close> does not panic and its two components contain no path
  separator and are not a parent directory reference.
\<close>

theorem CacheKey_is_file_name:
  "length (CacheKey host uri) = 64 \<and> set (CacheKey host uri) \<subseteq> set ''0123456789abcdef'' \<and>
   CachePath (CacheKey host uri) ext = Ret [take 2 (CacheKey host uri), drop 2 (CacheKey host uri) @ ext]"
  using set_hex by (simp add: CachePath_def) (simp add: CacheKey_def)

text \<open>The delimiter separates: hosts without it and URIs determine the hashed text.\<close>

lemma delimiter_injective:
  assumes "CHR ''|'' \<notin> set h1" "CHR ''|'' \<notin> set h2" "h1 @ ''|'' @ p1 = h2 @ ''|'' @ p2"
  shows "h1 = h2 \<and> p1 = p2"
  using assms
proof (induction h1 arbitrary: h2)
  case Nil
  then show ?case by (cases h2) auto
next
  case (Cons c h1)
  then show ?case by (cases h2) auto
qed

lemma inj_bytes_of: "bytes_of s = bytes_of t \<Longrightarrow> s = t"
  by (metis string_of_bytes_of)

lemma inj_hex_digit: "hex_digit a = hex_digit b \<Longrightarrow> a mod 16 = b mod 16"
proof -
  have "distinct ''0123456789abcdef''" "length ''0123456789abcdef'' = 16" by simp_all
  moreover have "a mod 16 < 16" "b mod 16 < 16" by simp_all
  moreover assume "hex_digit a = hex_digit b"
  ultimately show ?thesis unfolding hex_digit_def by (metis nth_eq_iff_index_eq)
qed

lemma inj_hex: "hex xs = hex ys \<Longrightarrow> xs = ys"
proof (induction xs arbitrary: ys)
  case Nil
  then show ?case by (cases ys) (auto simp: hex_def)
next
  case (Cons x xs)
  then obtain y ys' where ys: "ys = y # ys'" by (cases ys) (auto simp: hex_def)
  with Cons.prems have eq: "hex_digit (unat x div 16) = hex_digit (unat y div 16)"
      "hex_digit (unat x) = hex_digit (unat y)" "hex xs = hex ys'"
    by (auto simp: hex_def)
  have "unat x < 256" "unat y < 256" using unsigned_less [of x, where ?'a = nat] unsigned_less [of y, where ?'a = nat] by simp_all
  then have "unat x div 16 < 16" "unat y div 16 < 16" by auto
  with eq(1) [THEN inj_hex_digit] have "unat x div 16 = unat y div 16" by simp
  with eq(2) [THEN inj_hex_digit] have "unat x = unat y" by (metis div_mult_mod_eq)
  then have "x = y" by (simp only: unsigned_word_eqI)
  then show ?case using Cons.IH [OF eq(3)] ys by simp
qed

text \<open>
  Two requests share a cache entry only if SHA-256 collides: for hosts without
  the delimiter, equal keys of different host/URI pairs are a collision of the
  hash on two different texts.
\<close>

lemma CacheKey_collision:
  assumes "CHR ''|'' \<notin> set h1" "CHR ''|'' \<notin> set h2" "(h1, p1) \<noteq> (h2, p2)"
    and "CacheKey h1 p1 = CacheKey h2 p2"
  shows "\<exists>x y. x \<noteq> y \<and> Sum256 x = Sum256 y \<and> x = bytes_of (h1 @ ''|'' @ p1) \<and> y = bytes_of (h2 @ ''|'' @ p2)"
proof -
  have "Sum256 (bytes_of (h1 @ ''|'' @ p1)) = Sum256 (bytes_of (h2 @ ''|'' @ p2))"
    using assms(4) inj_hex by (simp add: CacheKey_def)
  moreover have "bytes_of (h1 @ ''|'' @ p1) \<noteq> bytes_of (h2 @ ''|'' @ p2)"
    using assms(1-3) delimiter_injective inj_bytes_of by blast
  ultimately show ?thesis by blast
qed

end
