(* ===== verification/DiskShard.thy ===== *)
theory DiskShard
  imports CacheKeys "HOL-Library.AList"
begin

text \<open>
  One shard of the disk cache's index, \<open>lruShard\<close> of
  \<open>internal/cache/disk/diskcache.go\<close>: the map from keys to entry data, the
  recency list and the byte count. The map is an association list, whose order
  stands for the order in which Go's \<open>range\<close> visits it. An element of the
  \<open>container/list\<close> holds its key, so the recency list is the list of keys.
\<close>

section \<open>State and operations\<close>

record entryMeta =
  em_size :: int
  em_lastUsed :: int
  em_expiresAt :: gotime

record lruShard =
  sh_lru :: "(string \<times> entryMeta) list"
  sh_list :: "string list"
  sh_size :: int

definition newLRUShard :: lruShard where
  "newLRUShard = \<lparr>sh_lru = [], sh_list = [], sh_size = 0\<rparr>"

definition MoveToFront :: "string \<Rightarrow> string list \<Rightarrow> string list" where
  "MoveToFront k l = k # remove1 k l"

definition shard_get :: "lruShard \<Rightarrow> string \<Rightarrow> entryMeta option \<times> lruShard" where
  "shard_get s key =
     (case map_of (sh_lru s) key of
        Some e \<Rightarrow> (Some e, s\<lparr>sh_list := MoveToFront key (sh_list s)\<rparr>)
      | None \<Rightarrow> (None, s))"

definition shard_put :: "lruShard \<Rightarrow> string \<Rightarrow> int \<Rightarrow> gotime \<Rightarrow> int \<Rightarrow> int \<times> lruShard" where
  "shard_put s key sz expiresAt now =
     (let e' = \<lparr>em_size = sz, em_lastUsed = now, em_expiresAt = expiresAt\<rparr> in
      case map_of (sh_lru s) key of
        Some e \<Rightarrow>
          (let delta = sz - em_size e in
           (delta, s\<lparr>sh_size := sh_size s + delta, sh_lru := AList.update key e' (sh_lru s),
                     sh_list := MoveToFront key (sh_list s)\<rparr>))
      | None \<Rightarrow>
          (sz, s\<lparr>sh_list := key # sh_list s, sh_lru := AList.update key e' (sh_lru s),
                   sh_size := sh_size s + sz\<rparr>))"

text \<open>Taking out one entry: the three statements every removal has.\<close>

definition drop_entry :: "lruShard \<Rightarrow> string \<Rightarrow> entryMeta \<Rightarrow> lruShard" where
  "drop_entry s key e =
     s\<lparr>sh_size := sh_size s - em_size e, sh_list := remove1 key (sh_list s),
       sh_lru := AList.delete key (sh_lru s)\<rparr>"

definition shard_remove :: "lruShard \<Rightarrow> string \<Rightarrow> int option \<times> lruShard" where
  "shard_remove s key =
     (case map_of (sh_lru s) key of
        Some e \<Rightarrow> (Some (em_size e), drop_entry s key e)
      | None \<Rightarrow> (None, s))"

text \<open>
  \<open>evict\<close> takes the back of the list. A key of the list that is missing from
  the map would be a nil pointer.
\<close>

definition shard_evict :: "lruShard \<Rightarrow> ((string \<times> int) option \<times> lruShard) go" where
  "shard_evict s =
     (if sh_list s = [] then Ret (None, s)
      else
        (let key = last (sh_list s) in
         case map_of (sh_lru s) key of
           None \<Rightarrow> Panic
         | Some e \<Rightarrow>
             Ret (Some (key, em_size e),
               s\<lparr>sh_size := sh_size s - em_size e, sh_list := butlast (sh_list s),
                 sh_lru := AList.delete key (sh_lru s)\<rparr>)))"

definition expired :: "int \<Rightarrow> entryMeta \<Rightarrow> bool" where
  "expired now e \<longleftrightarrow> (case em_expiresAt e of None \<Rightarrow> False | Some t \<Rightarrow> t < now)"

text \<open>The second loop of \<open>findExpired\<close>, and the removals of the purges.\<close>

fun drop_all :: "lruShard \<Rightarrow> string list \<Rightarrow> lruShard go" where
  "drop_all s [] = Ret s"
| "drop_all s (k # ks) =
     (case map_of (sh_lru s) k of
        None \<Rightarrow> Panic
      | Some e \<Rightarrow> drop_all (drop_entry s k e) ks)"

definition findExpired :: "lruShard \<Rightarrow> int \<Rightarrow> (string list \<times> int \<times> lruShard) go" where
  "findExpired s now =
     (let es = filter (\<lambda>(k, e). expired now e) (sh_lru s);
          total = sum_list (map (\<lambda>(k, e). em_size e) es)
      in go_bind (drop_all s (map fst es)) (\<lambda>s'. Ret (map fst es, total, s')))"

definition sizeBytes :: "lruShard \<Rightarrow> int" where
  "sizeBytes s = sh_size s"

definition shard_len :: "lruShard \<Rightarrow> nat" where
  "shard_len s = length (sh_lru s)"

section \<open>The invariant\<close>

text \<open>
  The map and the list hold the same keys, once each, and the byte count is the
  sum of the entries' sizes, none of which is negative.
\<close>

definition entries_size :: "(string \<times> entryMeta) list \<Rightarrow> int" where
  "entries_size l = sum_list (map (\<lambda>(k, e). em_size e) l)"

definition shard_ok :: "lruShard \<Rightarrow> bool" where
  "shard_ok s \<longleftrightarrow> distinct (map fst (sh_lru s)) \<and> distinct (sh_list s) \<and>
     set (sh_list s) = fst ` set (sh_lru s) \<and> sh_size s = entries_size (sh_lru s) \<and>
     (\<forall>(k, e) \<in> set (sh_lru s). 0 \<le> em_size e)"

lemma shard_ok_new [simp]: "shard_ok newLRUShard"
  by (simp add: shard_ok_def newLRUShard_def entries_size_def)

lemma entries_size_delete:
  assumes "distinct (map fst l)" "map_of l k = Some e"
  shows "entries_size (AList.delete k l) = entries_size l - em_size e"
  using assms
proof (induction l)
  case (Cons x l)
  obtain k' e' where x: "x = (k', e')" by (cases x)
  show ?case
  proof (cases "k = k'")
    case True
    then have "AList.delete k l = l"
      using Cons.prems(1) x by (auto simp: AList.delete_eq filter_id_conv image_iff)
    then show ?thesis using True Cons.prems x by (simp add: entries_size_def)
  next
    case False
    then show ?thesis using Cons x by (simp add: entries_size_def)
  qed
qed simp

lemma entries_size_update:
  assumes "distinct (map fst l)"
  shows "entries_size (AList.update k e l) =
    entries_size l - (case map_of l k of None \<Rightarrow> 0 | Some e' \<Rightarrow> em_size e') + em_size e"
  using assms by (induction l) (auto simp: entries_size_def split: option.split)

lemma entries_size_nonneg: "\<forall>(k, e) \<in> set l. 0 \<le> em_size e \<Longrightarrow> 0 \<le> entries_size l"
  by (induction l) (auto simp: entries_size_def)

lemma set_delete: "set (AList.delete k l) = {x \<in> set l. fst x \<noteq> k}"
  by (auto simp: AList.delete_eq)

lemma set_update_alist: "set (AList.update k v l) \<subseteq> insert (k, v) (set l)"
  by (induction l) auto

lemma shard_ok_drop [cache_invar]:
  assumes "shard_ok s" "map_of (sh_lru s) k = Some e"
  shows "shard_ok (drop_entry s k e)"
  using assms entries_size_delete [of "sh_lru s" k e] AList.distinct_delete [of "sh_lru s" k]
  by (auto simp: shard_ok_def drop_entry_def set_delete)

lemma shard_ok_put [cache_invar]:
  assumes "shard_ok s" "0 \<le> sz"
  shows "shard_ok (snd (shard_put s key sz exp now))"
proof -
  let ?e = "\<lparr>em_size = sz, em_lastUsed = now, em_expiresAt = exp\<rparr>"
  have keys: "fst ` set (AList.update key ?e (sh_lru s)) = insert key (fst ` set (sh_lru s))"
    by (simp add: AList.dom_update)
  have "distinct (map fst (AList.update key ?e (sh_lru s)))"
    using assms(1) by (simp add: shard_ok_def AList.distinct_update)
  moreover have "\<forall>(k, e) \<in> set (AList.update key ?e (sh_lru s)). 0 \<le> em_size e"
    using set_update_alist [of key ?e "sh_lru s"] assms by (force simp: shard_ok_def)
  moreover have "key \<in> fst ` set (sh_lru s) \<longleftrightarrow> map_of (sh_lru s) key \<noteq> None"
    by (simp add: map_of_eq_None_iff)
  ultimately show ?thesis
    using assms keys entries_size_update [of "sh_lru s" key ?e]
    by (auto simp: shard_ok_def shard_put_def Let_def MoveToFront_def split: option.split)
qed

lemma shard_ok_remove [cache_invar]: "shard_ok s \<Longrightarrow> shard_ok (snd (shard_remove s key))"
  by (simp add: shard_remove_def shard_ok_drop split: option.split)

lemma shard_evict_ok:
  assumes "shard_ok s" "sh_list s \<noteq> []"
  obtains e where "map_of (sh_lru s) (last (sh_list s)) = Some e"
    "shard_evict s = Ret (Some (last (sh_list s), em_size e), drop_entry s (last (sh_list s)) e)"
proof -
  let ?k = "last (sh_list s)"
  have "?k \<in> fst ` set (sh_lru s)" using assms by (metis last_in_set shard_ok_def)
  then obtain e where e: "map_of (sh_lru s) ?k = Some e" by (metis map_of_eq_None_iff not_None_eq)
  have "distinct (butlast (sh_list s) @ [?k])" using assms by (simp add: shard_ok_def)
  then have "remove1 ?k (butlast (sh_list s) @ [?k]) = butlast (sh_list s)"
    by (simp add: remove1_append)
  then have "remove1 ?k (sh_list s) = butlast (sh_list s)" using assms(2) by simp
  with e assms(2) that show thesis by (simp add: shard_evict_def drop_entry_def Let_def)
qed

lemma drop_all_ok:
  assumes "shard_ok s" "distinct ks" "set ks \<subseteq> fst ` set (sh_lru s)"
  shows "\<exists>s'. drop_all s ks = Ret s' \<and> shard_ok s' \<and>
    set (sh_lru s') = {x \<in> set (sh_lru s). fst x \<notin> set ks} \<and>
    sh_list s' = filter (\<lambda>k. k \<notin> set ks) (sh_list s) \<and>
    sh_size s' = sh_size s - (\<Sum>k \<leftarrow> ks. em_size (the (map_of (sh_lru s) k)))"
  using assms
proof (induction ks arbitrary: s)
  case Nil
  then show ?case by simp
next
  case (Cons k ks)
  obtain e where e: "map_of (sh_lru s) k = Some e"
    using Cons.prems(3) by (metis insert_subset list.simps(15) map_of_eq_None_iff not_None_eq)
  let ?s = "drop_entry s k e"
  have "set ks \<subseteq> fst ` set (sh_lru ?s)"
    using Cons.prems(2,3) by (force simp: drop_entry_def set_delete image_iff)
  from Cons.IH [OF shard_ok_drop [OF Cons.prems(1) e] _ this] Cons.prems(2)
  obtain s' where s': "drop_all ?s ks = Ret s'" "shard_ok s'"
      "set (sh_lru s') = {x \<in> set (sh_lru ?s). fst x \<notin> set ks}"
      "sh_list s' = filter (\<lambda>k. k \<notin> set ks) (sh_list ?s)"
      "sh_size s' = sh_size ?s - (\<Sum>k \<leftarrow> ks. em_size (the (map_of (sh_lru ?s) k)))"
    by auto
  have "(\<Sum>k' \<leftarrow> ks. em_size (the (map_of (sh_lru ?s) k'))) = (\<Sum>k' \<leftarrow> ks. em_size (the (map_of (sh_lru s) k')))"
    using Cons.prems(2) by (intro arg_cong [of _ _ sum_list] map_cong) (auto simp: drop_entry_def AList.delete_conv')
  moreover have "filter (\<lambda>k. k \<notin> set ks) (remove1 k (sh_list s)) = filter (\<lambda>k'. k' \<notin> set (k # ks)) (sh_list s)"
    using Cons.prems(1) by (auto simp: shard_ok_def distinct_remove1_removeAll removeAll_filter_not_eq
        intro!: filter_cong)
  ultimately show ?case
    using s' e by (auto simp: drop_entry_def set_delete)
qed

lemma sum_sizes_map_of:
  assumes "distinct (map fst l)" "set es \<subseteq> set l"
  shows "(\<Sum>k \<leftarrow> map fst es. em_size (the (map_of l k))) = sum_list (map (\<lambda>(k, e). em_size e) es)"
proof -
  have "em_size (the (map_of l (fst x))) = (case x of (k, e) \<Rightarrow> em_size e)" if "x \<in> set es" for x
    using assms that by (cases x) (auto dest: map_of_is_SomeI)
  then show ?thesis by (auto simp: comp_def intro!: arg_cong [of _ _ sum_list] map_cong)
qed

lemma findExpired_ok:
  assumes "shard_ok s"
  shows "\<exists>ks total s'. findExpired s now = Ret (ks, total, s') \<and> shard_ok s' \<and>
    ks = map fst (filter (\<lambda>(k, e). expired now e) (sh_lru s)) \<and>
    total = sh_size s - sh_size s' \<and> 0 \<le> total \<and>
    set (sh_lru s') = {(k, e) \<in> set (sh_lru s). \<not> expired now e}"
proof -
  let ?es = "filter (\<lambda>(k, e). expired now e) (sh_lru s)"
  have dist: "distinct (map fst (sh_lru s))" using assms by (simp add: shard_ok_def)
  then have "distinct (map fst ?es)" by (simp add: distinct_map_filter)
  moreover have "set (map fst ?es) \<subseteq> fst ` set (sh_lru s)" by auto
  ultimately obtain s' where s': "drop_all s (map fst ?es) = Ret s'" "shard_ok s'"
      "set (sh_lru s') = {x \<in> set (sh_lru s). fst x \<notin> set (map fst ?es)}"
      "sh_size s' = sh_size s - (\<Sum>k \<leftarrow> map fst ?es. em_size (the (map_of (sh_lru s) k)))"
    using drop_all_ok [OF assms] by blast
  have "(\<Sum>k \<leftarrow> map fst ?es. em_size (the (map_of (sh_lru s) k))) = sum_list (map (\<lambda>(k, e). em_size e) ?es)"
    by (rule sum_sizes_map_of [OF dist]) auto
  moreover have "{x \<in> set (sh_lru s). fst x \<notin> set (map fst ?es)} = {(k, e) \<in> set (sh_lru s). \<not> expired now e}"
    using dist by (auto simp: eq_key_imp_eq_value image_iff) (metis dist eq_key_imp_eq_value)
  moreover have "0 \<le> sum_list (map (\<lambda>(k, e). em_size e) ?es)"
    using assms entries_size_nonneg [of ?es] by (auto simp: shard_ok_def entries_size_def)
  ultimately show ?thesis using s' by (auto simp: findExpired_def Let_def)
qed

end
