(* ===== verification/Metadata.thy ===== *)
theory Metadata
  imports Http
begin

text \<open>
  The metadata sidecar of a cached response: the binary encoder and the two
  decoders of \<open>internal/cache/disk/operations.go\<close>. The writer appends to a
  buffer and cannot fail, so it is the list of bytes it appends; a reader takes
  the bytes left and returns an error or a value with the bytes left after it.
\<close>

section \<open>Errors\<close>

datatype meta_error = EOF | UnexpectedEOF | TooManyHeaders nat | StringTooLong nat

type_synonym 'a reader = "byte list \<Rightarrow> meta_error + ('a \<times> byte list)"

definition reader_bind :: "'a reader \<Rightarrow> ('a \<Rightarrow> 'b reader) \<Rightarrow> 'b reader" where
  "reader_bind m f bs = (case m bs of Inl e \<Rightarrow> Inl e | Inr (x, rest) \<Rightarrow> f x rest)"

definition reader_return :: "'a \<Rightarrow> 'a reader" where
  "reader_return x bs = Inr (x, bs)"

section \<open>Little-endian integers\<close>

fun le_encode :: "nat \<Rightarrow> nat \<Rightarrow> byte list" where
  "le_encode 0 n = []"
| "le_encode (Suc k) n = word_of_nat n # le_encode k (n div 256)"

fun le_decode :: "byte list \<Rightarrow> nat" where
  "le_decode [] = 0"
| "le_decode (b # bs) = unat b + 256 * le_decode bs"

text \<open>\<open>io.ReadFull\<close>, which \<open>binary.Read\<close> uses too.\<close>

definition ReadFull :: "nat \<Rightarrow> byte list reader" where
  "ReadFull n bs =
     (if n = 0 then Inr ([], bs)
      else if bs = [] then Inl EOF
      else if length bs < n then Inl UnexpectedEOF
      else Inr (take n bs, drop n bs))"

definition read_uint :: "nat \<Rightarrow> nat reader" where
  "read_uint k = reader_bind (ReadFull k) (\<lambda>bs. reader_return (le_decode bs))"

section \<open>Writing\<close>

definition metaVersion :: nat where
  "metaVersion = 2"

definition writeString :: "string \<Rightarrow> byte list" where
  "writeString s = (let b = bytes_of s in le_encode 4 (length b) @ b)"

fun write_headers :: "header \<Rightarrow> byte list" where
  "write_headers [] = []"
| "write_headers ((k, vals) # hs) =
     writeString k @ writeString (Join vals '', '') @ write_headers hs"

definition writeMetadata :: "int \<Rightarrow> string \<Rightarrow> string \<Rightarrow> header \<Rightarrow> byte list" where
  "writeMetadata statusCode host path headers =
     le_encode 1 metaVersion @ le_encode 2 (nat (statusCode mod 65536)) @
     writeString host @ writeString path @
     le_encode 4 (length headers) @ write_headers headers"

section \<open>Reading\<close>

definition maxMetaHeaders :: nat where
  "maxMetaHeaders = 10000"

definition maxMetaString :: nat where
  "maxMetaString = 2 ^ 20"

definition readString :: "string reader" where
  "readString = reader_bind (read_uint 4) (\<lambda>len.
     if maxMetaString < len then (\<lambda>_. Inl (StringTooLong len))
     else reader_bind (ReadFull len) (\<lambda>buf. reader_return (string_of buf)))"

fun read_headers :: "nat \<Rightarrow> header \<Rightarrow> header reader" where
  "read_headers 0 hs = reader_return hs"
| "read_headers (Suc n) hs =
     reader_bind readString (\<lambda>key.
     reader_bind readString (\<lambda>val.
       read_headers n (hdr_put hs key [val])))"

type_synonym meta = "nat \<times> string \<times> string \<times> header"

definition readMetadataV1 :: "meta reader" where
  "readMetadataV1 =
     reader_bind (read_uint 2) (\<lambda>statusCode.
     reader_bind (read_uint 4) (\<lambda>numHeaders.
       if maxMetaHeaders < numHeaders then (\<lambda>_. Inl (TooManyHeaders numHeaders))
       else reader_bind (read_headers numHeaders []) (\<lambda>headers.
              reader_return (statusCode, '''', '''', headers))))"

definition readMetadataV2 :: "meta reader" where
  "readMetadataV2 =
     reader_bind (read_uint 2) (\<lambda>statusCode.
     reader_bind readString (\<lambda>host.
     reader_bind readString (\<lambda>path.
     reader_bind (read_uint 4) (\<lambda>numHeaders.
       if maxMetaHeaders < numHeaders then (\<lambda>_. Inl (TooManyHeaders numHeaders))
       else reader_bind (read_headers numHeaders []) (\<lambda>headers.
              reader_return (statusCode, host, path, headers))))))"

text \<open>The rest of the file after the metadata is not read: only the value is returned.\<close>

definition readMetadata :: "byte list \<Rightarrow> meta_error + meta" where
  "readMetadata bs =
     (case bs of
        [] \<Rightarrow> Inl EOF
      | version # rest \<Rightarrow>
          map_sum id fst (if version = 1 \<or> version = 2 then readMetadataV2 rest else readMetadataV1 bs))"

section \<open>The codec is a round trip\<close>

lemma length_le_encode [simp]: "length (le_encode k n) = k"
  by (induction k arbitrary: n) auto

lemma le_decode_encode: "le_decode (le_encode k n) = n mod 256 ^ k"
proof (induction k arbitrary: n)
  case (Suc k)
  have "n mod (256 * 256 ^ k) = n mod 256 + 256 * (n div 256 mod 256 ^ k)"
    by (simp add: mod_mult2_eq add.commute)
  then show ?case using Suc.IH by (simp add: unat_of_nat)
qed simp

lemma read_uint_encode [codec_simps]:
  assumes "n < 256 ^ k" "0 < k"
  shows "read_uint k (le_encode k n @ rest) = Inr (n, rest)"
proof -
  have "le_encode k n \<noteq> []" using assms(2) by (metis length_0_conv length_le_encode less_irrefl)
  then show ?thesis
    using assms by (simp add: read_uint_def reader_bind_def reader_return_def ReadFull_def le_decode_encode)
qed

lemma ReadFull_exact [codec_simps]: "ReadFull (length bs) (bs @ rest) = Inr (bs, rest)"
  by (auto simp: ReadFull_def)

lemma readString_writeString [codec_simps]:
  assumes "length s \<le> maxMetaString"
  shows "readString (writeString s @ rest) = Inr (s, rest)"
proof -
  have "length s < 256 ^ 4" using assms by (simp add: maxMetaString_def)
  then have "read_uint 4 (le_encode 4 (length s) @ bytes_of s @ rest) = Inr (length s, bytes_of s @ rest)"
    by (simp add: read_uint_encode)
  moreover have "ReadFull (length s) (bytes_of s @ rest) = Inr (bytes_of s, rest)"
    using ReadFull_exact [of "bytes_of s" rest] by simp
  ultimately show ?thesis
    using assms by (simp add: readString_def writeString_def Let_def reader_bind_def reader_return_def)
qed

lemma readString_too_long:
  assumes "maxMetaString < length s" "length s < 2 ^ 32"
  shows "readString (writeString s @ rest) = Inl (StringTooLong (length s))"
  using assms read_uint_encode [of "length s" 4 "bytes_of s @ rest"]
  by (simp add: readString_def writeString_def Let_def reader_bind_def)

text \<open>What a reader sees of a header map: one joined value per key.\<close>

definition joined :: "header \<Rightarrow> header" where
  "joined hs = map (\<lambda>(k, vals). (k, [Join vals '', ''])) hs"

definition header_fits :: "header \<Rightarrow> bool" where
  "header_fits hs \<longleftrightarrow> length hs \<le> maxMetaHeaders \<and>
     (\<forall>(k, vals) \<in> set hs. length k \<le> maxMetaString \<and> length (Join vals '', '') \<le> maxMetaString)"

lemma hdr_put_new: "k \<notin> fst ` set hs \<Longrightarrow> hdr_put hs k v = hs @ [(k, v)]"
  by (induction hs) auto

lemma read_headers_write:
  assumes "\<forall>(k, vals) \<in> set hs. length k \<le> maxMetaString \<and> length (Join vals '', '') \<le> maxMetaString"
    and "distinct (map fst (acc @ hs))"
  shows "read_headers (length hs) acc (write_headers hs @ rest) = Inr (acc @ joined hs, rest)"
  using assms
proof (induction hs arbitrary: acc)
  case Nil
  then show ?case by (simp add: reader_return_def joined_def)
next
  case (Cons h hs)
  obtain k vals where h: "h = (k, vals)" by (cases h)
  have "k \<notin> fst ` set acc" using Cons.prems(2) h by auto
  then have put: "hdr_put acc k [Join vals '', ''] = acc @ [(k, [Join vals '', ''])]" by (rule hdr_put_new)
  have IH: "read_headers (length hs) (acc @ [(k, [Join vals '', ''])]) (write_headers hs @ rest) =
      Inr ((acc @ [(k, [Join vals '', ''])]) @ joined hs, rest)"
    using Cons.prems h by (intro Cons.IH) auto
  show ?case
    using Cons.prems(1) h put IH
    by (simp add: reader_bind_def readString_writeString joined_def)
qed

lemma readMetadataV2_write:
  assumes "0 \<le> status" "status < 65536" "length host \<le> maxMetaString" "length path \<le> maxMetaString"
    and "header_fits hs" "distinct (map fst hs)"
  shows "readMetadataV2 (le_encode 2 (nat (status mod 65536)) @ writeString host @ writeString path @
     le_encode 4 (length hs) @ write_headers hs @ rest) = Inr ((nat status, host, path, joined hs), rest)"
proof -
  have "length hs < 256 ^ 4" "nat status < 256 ^ 2"
    using assms(1,2,5) by (auto simp: header_fits_def maxMetaHeaders_def)
  moreover have "read_headers (length hs) [] (write_headers hs @ rest) = Inr (joined hs, rest)"
    using read_headers_write [of hs "[]" rest] assms(5,6) by (simp add: header_fits_def)
  ultimately show ?thesis
    using assms
    by (simp add: readMetadataV2_def reader_bind_def read_uint_encode
        readString_writeString header_fits_def reader_return_def)
qed

text \<open>
  C32. Metadata round trip: for a status that fits 16 bits and host, path, keys and
  values within the reader's caps, \<open>readMetadata\<close> returns from what \<open>writeMetadata\<close>
  wrote (whatever follows it) the same status, host and path, and every header
  key with its values joined by a comma.
\<close>

theorem readMetadata_writeMetadata:
  assumes "0 \<le> status" "status < 65536" "length host \<le> 2 ^ 20" "length path \<le> 2 ^ 20"
    and "header_fits hs" "distinct (map fst hs)"
  shows "readMetadata (writeMetadata status host path hs @ rest) =
    Inr (nat status, host, path, map (\<lambda>(k, vals). (k, [Join vals '', ''])) hs)"
  using readMetadataV2_write [of status host path hs rest] assms
  by (simp add: readMetadata_def writeMetadata_def metaVersion_def joined_def maxMetaString_def)

theorem readMetadata_writeMetadata_witness:
  "readMetadata (writeMetadata 200 ''example.com'' ''/a'' [(''Vary'', [''a'', ''b''])] @ [7]) =
    Inr (200, ''example.com'', ''/a'', [(''Vary'', [''a, b''])])"
  using readMetadata_writeMetadata [of 200 "''example.com''" "''/a''" "[(''Vary'', [''a'', ''b''])]" "[7]"]
  by (simp add: header_fits_def maxMetaHeaders_def maxMetaString_def)

text \<open>
  A response whose first header value is longer than the reader's cap of one
  mebibyte is written but cannot be read back: the reader fails with the length
  of that value.
\<close>

theorem oversized_header_unreadable:
  assumes "0 \<le> status" "status < 65536" "length host \<le> 2 ^ 20" "length path \<le> 2 ^ 20"
    and "length k \<le> 2 ^ 20" "length hs < 10000"
    and "2 ^ 20 < length (Join vals '', '')" "length (Join vals '', '') < 2 ^ 32"
  shows "readMetadata (writeMetadata status host path ((k, vals) # hs)) =
    Inl (StringTooLong (length (Join vals '', '')))"
proof -
  have "Suc (length hs) < 256 ^ 4" "nat status < 256 ^ 2" using assms(1,2,6) by auto
  moreover have "readString (writeString (Join vals '', '') @ rest) =
      Inl (StringTooLong (length (Join vals '', '')))" for rest
    using assms(7,8) by (intro readString_too_long) (simp_all add: maxMetaString_def)
  ultimately show ?thesis
    using assms
    by (simp add: readMetadata_def writeMetadata_def metaVersion_def readMetadataV2_def
        reader_bind_def read_uint_encode readString_writeString
        maxMetaHeaders_def maxMetaString_def)
qed

theorem oversized_header_unreadable_witness:
  "\<exists>n. readMetadata (writeMetadata 200 ''h'' ''/'' ((''X'', [replicate 1048577 (CHR ''a'')]) # [])) =
    Inl (StringTooLong n)"
  using oversized_header_unreadable [of 200 "''h''" "''/''" "''X''" "[]" "[replicate 1048577 (CHR ''a'')]"]
  by auto

end
