(* ===== verification/DiskCache.thy ===== *)
theory DiskCache
  imports DiskShard Metadata
begin

unbundle bit_operations_syntax

text \<open>
  The disk cache of \<open>internal/cache/disk\<close>: the sharded index with its byte
  accounting (\<open>diskcache.go\<close>), storing and serving responses (\<open>operations.go\<close>)
  and the purges. The directory is a map from paths below \<open>CacheDir\<close> to files.
  Byte counts are unbounded integers: the code's \<open>int64\<close> sums stay far below
  their range for any disk.
\<close>

section \<open>State\<close>

record disk_file =
  fl_data :: "byte list"
  fl_mtime :: int

type_synonym fs = "path \<Rightarrow> disk_file option"

record disk_cache =
  dc_MaxSize :: int
  dc_MaxAge :: duration
  dc_CurrentSize :: int
  dc_shards :: "lruShard list"
  dc_dirs :: "string list"
  dc_fs :: fs
  dc_ondisk :: "string list"
  dc_hits :: int
  dc_misses :: int
  dc_evictions :: int
  dc_expirations :: int

definition metaExt :: string where
  "metaExt = ''.meta''"

definition bodyExt :: string where
  "bodyExt = ''.body''"

definition shardCount :: nat where
  "shardCount = 32"

text \<open>\<open>New\<close> on an existing directory: the index starts empty whatever the files.\<close>

definition NewDiskCache :: "fs \<Rightarrow> string list \<Rightarrow> int \<Rightarrow> duration \<Rightarrow> disk_cache" where
  "NewDiskCache files dirs maxSize maxAge =
     \<lparr>dc_MaxSize = maxSize, dc_MaxAge = maxAge, dc_CurrentSize = 0,
      dc_shards = replicate shardCount newLRUShard, dc_dirs = [], dc_fs = files, dc_ondisk = dirs,
      dc_hits = 0, dc_misses = 0, dc_evictions = 0, dc_expirations = 0\<rparr>"

text \<open>The shard of a key: \<open>uint32\<close> arithmetic on its first two bytes.\<close>

definition shard_index :: "string \<Rightarrow> nat go" where
  "shard_index key =
     (if length key < 2 then Panic
      else Ret (unat (foldl (\<lambda>sum c. sum * 31 + word_of_nat (of_char c)) 0 (take 2 key)
                      AND (word_of_nat shardCount - 1) :: 32 word)))"

section \<open>Index operations\<close>

definition touch :: "disk_cache \<Rightarrow> string \<Rightarrow> int \<Rightarrow> int \<Rightarrow> disk_cache go" where
  "touch d key sz now =
     (let expiresAt = (if dc_MaxAge d > 0 then Some (now + dc_MaxAge d) else None) in
      go_bind (shard_index key) (\<lambda>i.
      go_bind (go_index (dc_shards d) i) (\<lambda>s.
        (case shard_put s key sz expiresAt now of
           (delta, s') \<Rightarrow>
             Ret (d\<lparr>dc_shards := (dc_shards d)[i := s'], dc_CurrentSize := dc_CurrentSize d + delta\<rparr>)))))"

definition dc_remove :: "disk_cache \<Rightarrow> string \<Rightarrow> disk_cache go" where
  "dc_remove d key =
     go_bind (shard_index key) (\<lambda>i.
     go_bind (go_index (dc_shards d) i) (\<lambda>s.
       (case shard_remove s key of
          (Some sz, s') \<Rightarrow>
            Ret (d\<lparr>dc_shards := (dc_shards d)[i := s'], dc_CurrentSize := dc_CurrentSize d - sz\<rparr>)
        | (None, s') \<Rightarrow> Ret d)))"

text \<open>\<open>os.Remove\<close>; the code ignores its error.\<close>

definition os_Remove :: "path \<Rightarrow> fs \<Rightarrow> fs" where
  "os_Remove p files = files(p := None)"

text \<open>The loop of \<open>evict\<close> over the shards: the first one with an entry gives it up.\<close>

fun evict_first :: "lruShard list \<Rightarrow> ((string \<times> int) option \<times> lruShard list) go" where
  "evict_first [] = Ret (None, [])"
| "evict_first (s # ss) =
     go_bind (shard_evict s) (\<lambda>(r, s').
       case r of
         Some kz \<Rightarrow> Ret (Some kz, s' # ss)
       | None \<Rightarrow> go_bind (evict_first ss) (\<lambda>(r', ss'). Ret (r', s' # ss')))"

definition dc_evict :: "disk_cache \<Rightarrow> (bool \<times> disk_cache) go" where
  "dc_evict d =
     go_bind (evict_first (dc_shards d)) (\<lambda>(r, ss).
       case r of
         None \<Rightarrow> Ret (False, d\<lparr>dc_shards := ss\<rparr>)
       | Some (key, sz) \<Rightarrow>
           go_bind (CachePath key metaExt) (\<lambda>mp.
           go_bind (CachePath key bodyExt) (\<lambda>bp.
             Ret (True, d\<lparr>dc_shards := ss, dc_CurrentSize := dc_CurrentSize d - sz,
                          dc_evictions := dc_evictions d + 1,
                          dc_fs := os_Remove bp (os_Remove mp (dc_fs d))\<rparr>))))"

text \<open>The number of entries of the index, which every eviction lowers.\<close>

definition list_count :: "lruShard list \<Rightarrow> nat" where
  "list_count ss = sum_list (map (\<lambda>s. length (sh_list s)) ss)"

lemma shard_evict_count:
  assumes "shard_evict s = Ret (r, s')"
  shows "if r = None then length (sh_list s') = length (sh_list s) else length (sh_list s') < length (sh_list s)"
  using assms by (auto simp: shard_evict_def Let_def split: if_splits option.splits)

lemma evict_first_count:
  assumes "evict_first ss = Ret (r, ss')"
  shows "if r = None then list_count ss' = list_count ss else list_count ss' < list_count ss"
  using assms
proof (induction ss arbitrary: r ss')
  case (Cons s ss)
  obtain r1 s' where r1: "shard_evict s = Ret (r1, s')" using Cons.prems by (auto simp: go_bind_Ret_iff)
  show ?case
  proof (cases r1)
    case None
    then obtain ss1 where "evict_first ss = Ret (r, ss1)" "ss' = s' # ss1"
      using Cons.prems r1 by (auto simp: go_bind_Ret_iff)
    then show ?thesis
      using Cons.IH [of r ss1] shard_evict_count [OF r1] None by (auto simp: list_count_def split: if_splits)
  next
    case (Some kz)
    then show ?thesis using Cons.prems r1 shard_evict_count [OF r1] by (auto simp: list_count_def)
  qed
qed (simp add: list_count_def)

lemma dc_evict_count:
  assumes "dc_evict d = Ret (True, d')"
  shows "list_count (dc_shards d') < list_count (dc_shards d)"
  using assms evict_first_count [of "dc_shards d"]
  by (auto simp: dc_evict_def go_bind_Ret_iff split: option.splits if_splits prod.splits)

text \<open>The loop of \<open>ensureSpace\<close>.\<close>

function evict_until :: "int \<Rightarrow> disk_cache \<Rightarrow> (bool \<times> disk_cache) go" where
  "evict_until sz d =
     (if dc_MaxSize d < dc_CurrentSize d + sz then
        (case dc_evict d of
           Ret (True, d') \<Rightarrow> evict_until sz d'
         | Ret (False, d') \<Rightarrow> Ret (False, d')
         | Panic \<Rightarrow> Panic
         | Diverge \<Rightarrow> Diverge)
      else Ret (True, d))"
  by auto
termination
  by (relation "measure (\<lambda>(sz, d). list_count (dc_shards d))") (auto dest: dc_evict_count)

declare evict_until.simps [simp del]

definition ensureSpace :: "disk_cache \<Rightarrow> int \<Rightarrow> (bool \<times> disk_cache) go" where
  "ensureSpace d sz = (if dc_MaxSize d = 0 then Ret (True, d) else evict_until sz d)"

section \<open>Sweeping, directories, statistics\<close>

text \<open>
  The files an expired entry loses in \<open>sweep\<close>: its metadata, and the body path
  as the code writes it, without the two-character directory.
\<close>

fun sweep_files :: "string list \<Rightarrow> fs \<Rightarrow> fs go" where
  "sweep_files [] files = Ret files"
| "sweep_files (k # ks) files =
     go_bind (CachePath k metaExt) (\<lambda>mp.
       sweep_files ks (os_Remove [drop 2 k @ bodyExt] (os_Remove mp files)))"

fun sweep_shards :: "int \<Rightarrow> lruShard list \<Rightarrow> disk_cache \<Rightarrow> (lruShard list \<times> disk_cache) go" where
  "sweep_shards now [] d = Ret ([], d)"
| "sweep_shards now (s # ss) d =
     go_bind (findExpired s now) (\<lambda>(ks, sz, s').
     go_bind (sweep_files ks (dc_fs d)) (\<lambda>files.
       (let d1 = d\<lparr>dc_fs := files, dc_expirations := dc_expirations d + int (length ks)\<rparr>;
            d2 = (if sz > 0 then d1\<lparr>dc_CurrentSize := dc_CurrentSize d1 - sz\<rparr> else d1)
        in go_bind (sweep_shards now ss d2) (\<lambda>(ss', d3). Ret (s' # ss', d3)))))"

definition sweep :: "disk_cache \<Rightarrow> int \<Rightarrow> disk_cache go" where
  "sweep d now = go_bind (sweep_shards now (dc_shards d) d) (\<lambda>(ss, d'). Ret (d'\<lparr>dc_shards := ss\<rparr>))"

text \<open>
  \<open>ensureDir\<close> on a directory below \<open>CacheDir\<close>: \<open>dc_dirs\<close> is the memo, \<open>dc_ondisk\<close>
  the directories there are. \<open>os.MkdirAll\<close> succeeds or its error is ignored.
\<close>

definition ensureDir :: "disk_cache \<Rightarrow> string \<Rightarrow> disk_cache" where
  "ensureDir d dir =
     (if dir \<in> set (dc_dirs d) \<and> dir \<in> set (dc_ondisk d) then d
      else d\<lparr>dc_ondisk := List.insert dir (dc_ondisk d), dc_dirs := List.insert dir (dc_dirs d)\<rparr>)"

definition Stats :: "disk_cache \<Rightarrow> int \<times> int \<times> int \<times> int \<times> int" where
  "Stats d = (dc_hits d, dc_misses d, dc_evictions d, dc_expirations d, dc_CurrentSize d)"

definition RecordHit :: "disk_cache \<Rightarrow> disk_cache" where
  "RecordHit d = d\<lparr>dc_hits := dc_hits d + 1\<rparr>"

definition RecordMiss :: "disk_cache \<Rightarrow> disk_cache" where
  "RecordMiss d = d\<lparr>dc_misses := dc_misses d + 1\<rparr>"

section \<open>Purging the index\<close>

text \<open>The host and path of an entry, from its metadata file; None when that cannot be read.\<close>

definition read_entry :: "fs \<Rightarrow> path \<Rightarrow> (string \<times> string) option" where
  "read_entry files mp =
     (case files mp of
        None \<Rightarrow> None
      | Some f \<Rightarrow> (case readMetadata (fl_data f) of Inl _ \<Rightarrow> None | Inr (_, h, p, _) \<Rightarrow> Some (h, p)))"

text \<open>The keys of a shard whose entry matches, in map order.\<close>

fun matching_keys :: "(string \<Rightarrow> string \<Rightarrow> bool) \<Rightarrow> fs \<Rightarrow> string list \<Rightarrow> string list go" where
  "matching_keys match files [] = Ret []"
| "matching_keys match files (k # ks) =
     go_bind (CachePath k metaExt) (\<lambda>mp.
     go_bind (matching_keys match files ks) (\<lambda>rest.
       (case read_entry files mp of
          None \<Rightarrow> Ret rest
        | Some (h, p) \<Rightarrow> Ret (if match h p then k # rest else rest))))"

fun purge_shards :: "(string \<Rightarrow> string \<Rightarrow> bool) \<Rightarrow> fs \<Rightarrow> lruShard list \<Rightarrow> (nat \<times> lruShard list) go" where
  "purge_shards match files [] = Ret (0, [])"
| "purge_shards match files (s # ss) =
     go_bind (matching_keys match files (map fst (sh_lru s))) (\<lambda>ks.
     go_bind (drop_all s ks) (\<lambda>s'.
     go_bind (purge_shards match files ss) (\<lambda>(n, ss').
       Ret (length ks + n, s' # ss'))))"

definition PurgeByHost :: "disk_cache \<Rightarrow> string \<Rightarrow> (nat \<times> disk_cache) go" where
  "PurgeByHost d host =
     go_bind (purge_shards (\<lambda>h p. h = host) (dc_fs d) (dc_shards d)) (\<lambda>(purged, ss).
       Ret (purged, d\<lparr>dc_shards := ss, dc_CurrentSize := dc_CurrentSize d - int purged\<rparr>))"

text \<open>
  \<open>purgeByHostPath\<close> lowers \<open>CurrentSize\<close> shard by shard by the number of keys
  removed there, which adds up to the number purged.
\<close>

definition purgeByHostPath :: "disk_cache \<Rightarrow> string \<Rightarrow> string \<Rightarrow> bool \<Rightarrow> (nat \<times> disk_cache) go" where
  "purgeByHostPath d host path isPrefix =
     go_bind (purge_shards
         (\<lambda>h p. \<not> (host \<noteq> '''' \<and> h \<noteq> host) \<and> (if isPrefix then HasPrefix p path else p = path))
         (dc_fs d) (dc_shards d))
       (\<lambda>(purged, ss).
         Ret (purged, d\<lparr>dc_shards := ss, dc_CurrentSize := dc_CurrentSize d - int purged\<rparr>))"

definition PurgeByPath :: "disk_cache \<Rightarrow> string \<Rightarrow> (nat \<times> disk_cache) go" where
  "PurgeByPath d path = purgeByHostPath d '''' path False"

definition PurgeByPrefix :: "disk_cache \<Rightarrow> string \<Rightarrow> (nat \<times> disk_cache) go" where
  "PurgeByPrefix d pre = purgeByHostPath d '''' pre True"

definition PurgeByHostPath :: "disk_cache \<Rightarrow> string \<Rightarrow> string \<Rightarrow> (nat \<times> disk_cache) go" where
  "PurgeByHostPath d host path = purgeByHostPath d host path False"

definition PurgeByHostPrefix :: "disk_cache \<Rightarrow> string \<Rightarrow> string \<Rightarrow> (nat \<times> disk_cache) go" where
  "PurgeByHostPrefix d host pre = purgeByHostPath d host pre True"

fun remove_files :: "string list \<Rightarrow> fs \<Rightarrow> fs go" where
  "remove_files [] files = Ret files"
| "remove_files (k # ks) files =
     go_bind (CachePath k metaExt) (\<lambda>mp.
     go_bind (CachePath k bodyExt) (\<lambda>bp.
       remove_files ks (os_Remove bp (os_Remove mp files))))"

definition PurgeAll :: "disk_cache \<Rightarrow> (nat \<times> disk_cache) go" where
  "PurgeAll d =
     (let keys = concat (map (\<lambda>s. map fst (sh_lru s)) (dc_shards d)) in
      go_bind (remove_files keys (dc_fs d)) (\<lambda>files.
        Ret (length keys, d\<lparr>dc_fs := files, dc_CurrentSize := 0,
          dc_shards := map (\<lambda>_. newLRUShard) (dc_shards d)\<rparr>)))"

section \<open>Storing and serving\<close>

datatype cache_error = CacheFull | IOError | NotExist | Stale | BadMetadata meta_error

text \<open>
  What the file system does to a \<open>writeAtomic\<close>: the step that fails, if one does.
\<close>

datatype write_outcome = CreateFails | WriteFails | SyncFails | CloseFails | RenameFails | Succeeds

definition writeAtomic ::
  "write_outcome \<Rightarrow> string \<Rightarrow> path \<Rightarrow> byte list \<Rightarrow> int \<Rightarrow> fs \<Rightarrow> cache_error option \<times> fs" where
  "writeAtomic outcome rnd path data now files =
     (let tmp = butlast path @ [''.cache-tmp-'' @ rnd];
          f = \<lparr>fl_data = data, fl_mtime = now\<rparr>
      in case outcome of
           CreateFails \<Rightarrow> (Some IOError, files)
         | WriteFails \<Rightarrow> (Some IOError, os_Remove tmp files)
         | SyncFails \<Rightarrow> (Some IOError, os_Remove tmp (files(tmp \<mapsto> f)))
         | CloseFails \<Rightarrow> (Some IOError, os_Remove tmp (files(tmp \<mapsto> f)))
         | RenameFails \<Rightarrow> (Some IOError, files(tmp \<mapsto> f))
         | Succeeds \<Rightarrow> (None, (files(tmp := None))(path \<mapsto> f)))"

text \<open>
  \<open>om\<close> and \<open>ob\<close> are the outcomes of the two writes with the random suffixes of
  their temporary files, \<open>now\<close> the clock.
\<close>

definition SetResponseToCache ::
  "disk_cache \<Rightarrow> string \<Rightarrow> string \<Rightarrow> string \<Rightarrow> int \<Rightarrow> header \<Rightarrow> byte list \<Rightarrow>
   write_outcome \<times> string \<Rightarrow> write_outcome \<times> string \<Rightarrow> int \<Rightarrow> (cache_error option \<times> disk_cache) go" where
  "SetResponseToCache d key host path statusCode headers body om ob now =
     (if statusCode < 200 \<or> statusCode \<ge> 300 \<or> body = [] then Ret (None, d)
      else
        go_bind (CachePath key bodyExt) (\<lambda>bodyPath.
        go_bind (CachePath key metaExt) (\<lambda>metaPath.
          (let d0 = ensureDir d (hd bodyPath);
               metaBuf = writeMetadata statusCode host path headers;
               totalSize = int (length metaBuf + length body)
           in go_bind (ensureSpace d0 totalSize) (\<lambda>(ok, d1).
                if \<not> ok then Ret (Some CacheFull, d1)
                else
                  (case writeAtomic (fst om) (snd om) metaPath metaBuf now (dc_fs d1) of
                     (Some e, fs1) \<Rightarrow> Ret (Some e, d1\<lparr>dc_fs := fs1\<rparr>)
                   | (None, fs1) \<Rightarrow>
                       (case writeAtomic (fst ob) (snd ob) bodyPath body now fs1 of
                          (Some e, fs2) \<Rightarrow> Ret (Some e, d1\<lparr>dc_fs := os_Remove metaPath fs2\<rparr>)
                        | (None, fs2) \<Rightarrow>
                            go_bind (touch (d1\<lparr>dc_fs := fs2\<rparr>) key totalSize now) (\<lambda>d2.
                              Ret (None, d2)))))))))"

text \<open>The age limit of an entry: the TTL of the call if positive, else the cache's.\<close>

definition age_limit :: "disk_cache \<Rightarrow> duration \<Rightarrow> duration" where
  "age_limit d ttl = (if ttl > 0 then ttl else dc_MaxAge d)"

definition Peek :: "disk_cache \<Rightarrow> string \<Rightarrow> duration \<Rightarrow> int \<Rightarrow> bool go" where
  "Peek d key ttl now =
     go_bind (CachePath key metaExt) (\<lambda>mp.
       (case dc_fs d mp of
          None \<Rightarrow> Ret False
        | Some info \<Rightarrow> (let age = age_limit d ttl in Ret (age \<le> 0 \<or> now - fl_mtime info \<le> age))))"

definition add_headers :: "header \<Rightarrow> header \<Rightarrow> header" where
  "add_headers h hs = foldl (\<lambda>h (k, vals). foldl (\<lambda>h v. Header_Add h k v) h vals) h hs"

definition streamCachedResponse ::
  "disk_cache \<Rightarrow> response_writer \<Rightarrow> string \<Rightarrow> duration \<Rightarrow> int \<Rightarrow>
   (cache_error option \<times> response_writer \<times> disk_cache) go" where
  "streamCachedResponse d w key ttl now =
     go_bind (CachePath key metaExt) (\<lambda>metaPath.
     go_bind (CachePath key bodyExt) (\<lambda>bodyPath.
       (case dc_fs d metaPath of
          None \<Rightarrow> Ret (Some NotExist, w, d)
        | Some info \<Rightarrow>
            (let age = age_limit d ttl in
             if age > 0 \<and> now - fl_mtime info > age then
               go_bind (dc_remove (d\<lparr>dc_fs := os_Remove bodyPath (os_Remove metaPath (dc_fs d))\<rparr>) key) (\<lambda>d'.
                 Ret (Some Stale, w, d'))
             else
               (case readMetadata (fl_data info) of
                  Inl e \<Rightarrow> Ret (Some (BadMetadata e), w, d)
                | Inr (statusCode, _, _, headers) \<Rightarrow>
                    (let h1 = add_headers (rw_header w) headers;
                         h2 = Header_Set h1 ''X-Cache'' ''HIT'';
                         h3 = Header_Set h2 ''X-Cache-Age'' (Duration_String (now - fl_mtime info));
                         w1 = WriteHeader (w\<lparr>rw_header := h3\<rparr>) (int statusCode)
                     in case dc_fs d bodyPath of
                          None \<Rightarrow> Ret (Some NotExist, w1, d)
                        | Some bf \<Rightarrow>
                            (let w2 = Write w1 (fl_data bf) in
                             go_bind (touch d key (int (length (fl_data info))) now) (\<lambda>d'.
                               Ret (None, w2, d')))))))))"

definition StreamCachedResponse ::
  "disk_cache \<Rightarrow> response_writer \<Rightarrow> string \<Rightarrow> int \<Rightarrow> (cache_error option \<times> response_writer \<times> disk_cache) go" where
  "StreamCachedResponse d w key now = streamCachedResponse d w key 0 now"

definition StreamCachedResponseTTL ::
  "disk_cache \<Rightarrow> response_writer \<Rightarrow> string \<Rightarrow> duration \<Rightarrow> int \<Rightarrow>
   (cache_error option \<times> response_writer \<times> disk_cache) go" where
  "StreamCachedResponseTTL d w key ttl now = streamCachedResponse d w key ttl now"

end
