(* ===== verification/DiskInvariant.thy ===== *)
theory DiskInvariant
  imports DiskCache
begin

text \<open>
  The accounting invariant of the disk cache and the operations that keep it:
  each shard is consistent, every key is in the shard its first two bytes name,
  and \<open>CurrentSize\<close> is the sum of the shards' byte counts.
\<close>

unbundle bit_operations_syntax

section \<open>The invariant\<close>

definition total_size :: "lruShard list \<Rightarrow> int" where
  "total_size ss = sum_list (map sh_size ss)"

definition keys_home :: "lruShard list \<Rightarrow> bool" where
  "keys_home ss \<longleftrightarrow> (\<forall>i < length ss. \<forall>k \<in> fst ` set (sh_lru (ss ! i)). shard_index k = Ret i)"

definition dc_ok :: "disk_cache \<Rightarrow> bool" where
  "dc_ok d \<longleftrightarrow> length (dc_shards d) = shardCount \<and> (\<forall>s \<in> set (dc_shards d). shard_ok s) \<and>
     keys_home (dc_shards d) \<and> dc_CurrentSize d = total_size (dc_shards d)"

definition same_config :: "disk_cache \<Rightarrow> disk_cache \<Rightarrow> bool" where
  "same_config d d' \<longleftrightarrow> dc_MaxSize d' = dc_MaxSize d \<and> dc_MaxAge d' = dc_MaxAge d"

lemma same_config_refl [simp]: "same_config d d"
  by (simp add: same_config_def)

lemma same_config_trans: "same_config a b \<Longrightarrow> same_config b c \<Longrightarrow> same_config a c"
  by (simp add: same_config_def)

lemma dc_ok_New [cache_invar]: "dc_ok (NewDiskCache files dirs n a)"
  by (auto simp: dc_ok_def NewDiskCache_def keys_home_def total_size_def sum_list_replicate)
    (simp_all add: newLRUShard_def)

lemma dc_ok_cong:
  assumes "dc_shards d' = dc_shards d" "dc_CurrentSize d' = dc_CurrentSize d"
  shows "dc_ok d' = dc_ok d"
  using assms by (simp add: dc_ok_def)

lemma shard_index_Ret:
  assumes "2 \<le> length key"
  obtains i where "shard_index key = Ret i" "i < shardCount"
proof -
  let ?w = "foldl (\<lambda>sum c. sum * 31 + word_of_nat (of_char c)) 0 (take 2 key) :: 32 word"
  have "word_of_nat shardCount - 1 = (mask 5 :: 32 word)"
    by (simp add: shardCount_def mask_eq_exp_minus_1)
  then have "?w AND (word_of_nat shardCount - 1) = take_bit 5 ?w" by (simp add: take_bit_eq_mask)
  moreover have "unat (take_bit 5 ?w) < 32"
    using take_bit_nat_less_exp [of 5 "unat ?w"] by (simp add: unsigned_take_bit_eq)
  ultimately show thesis
    using assms that by (simp add: shard_index_def shardCount_def)
qed

lemma total_size_update:
  assumes "i < length ss"
  shows "total_size (ss[i := s]) = total_size ss - sh_size (ss ! i) + sh_size s"
  using assms
proof (induction ss arbitrary: i)
  case (Cons a ss)
  then show ?case by (cases i) (auto simp: total_size_def)
qed simp

lemma keys_home_update:
  assumes "keys_home ss" "i < length ss" "\<forall>k \<in> fst ` set (sh_lru s). shard_index k = Ret i"
  shows "keys_home (ss[i := s])"
  using assms by (auto simp: keys_home_def nth_list_update)

lemma total_size_nonneg:
  assumes "\<forall>s \<in> set ss. shard_ok s"
  shows "0 \<le> total_size ss"
proof -
  have "0 \<le> sh_size s" if "s \<in> set ss" for s
    using assms that entries_size_nonneg [of "sh_lru s"] by (auto simp: shard_ok_def)
  then show ?thesis unfolding total_size_def by (intro sum_list_nonneg) auto
qed

lemma dc_ok_size_nonneg: "dc_ok d \<Longrightarrow> 0 \<le> dc_CurrentSize d"
  using total_size_nonneg by (simp add: dc_ok_def)

section \<open>Touch and remove\<close>

lemma shard_put_delta:
  "shard_put s key sz e now = (sz - (case map_of (sh_lru s) key of None \<Rightarrow> 0 | Some e' \<Rightarrow> em_size e'), s') \<longleftrightarrow>
     s' = snd (shard_put s key sz e now)"
  by (auto simp: shard_put_def Let_def split: option.splits)

text \<open>The bytes the index accounts to a key.\<close>

definition accounted :: "disk_cache \<Rightarrow> string \<Rightarrow> int" where
  "accounted d key =
     (case shard_index key of
        Ret i \<Rightarrow> (case map_of (sh_lru (dc_shards d ! i)) key of None \<Rightarrow> 0 | Some e \<Rightarrow> em_size e)
      | _ \<Rightarrow> 0)"

lemma shard_put_keys: "fst ` set (sh_lru (snd (shard_put s key sz e now))) = insert key (fst ` set (sh_lru s))"
  by (simp add: shard_put_def Let_def AList.dom_update split: option.splits)

lemma shard_put_lookup:
  "map_of (sh_lru (snd (shard_put s key sz e now))) key = Some \<lparr>em_size = sz, em_lastUsed = now, em_expiresAt = e\<rparr>"
  by (simp add: shard_put_def Let_def AList.update_conv' split: option.splits)

lemma shard_put_size:
  "sh_size (snd (shard_put s key sz e now)) =
     sh_size s + (sz - (case map_of (sh_lru s) key of None \<Rightarrow> 0 | Some e' \<Rightarrow> em_size e'))"
  by (simp add: shard_put_def Let_def split: option.splits)

lemma touch_ok:
  assumes "dc_ok d" "2 \<le> length key" "0 \<le> sz"
  shows "\<exists>d'. touch d key sz now = Ret d' \<and> dc_ok d' \<and> same_config d d' \<and> dc_fs d' = dc_fs d \<and>
    dc_CurrentSize d' = dc_CurrentSize d + sz - accounted d key \<and> accounted d' key = sz"
proof -
  obtain i where i: "shard_index key = Ret i" "i < shardCount" using shard_index_Ret [OF assms(2)] by blast
  have len: "length (dc_shards d) = shardCount" using assms(1) by (simp add: dc_ok_def)
  let ?s = "dc_shards d ! i" and ?e = "if dc_MaxAge d > 0 then Some (now + dc_MaxAge d) else None"
  define s' where "s' = snd (shard_put ?s key sz ?e now)"
  have put: "shard_put ?s key sz ?e now =
      (sz - (case map_of (sh_lru ?s) key of None \<Rightarrow> 0 | Some e' \<Rightarrow> em_size e'), s')"
    using shard_put_delta by (simp add: s'_def)
  define d' where "d' = d\<lparr>dc_shards := (dc_shards d)[i := s'],
      dc_CurrentSize := dc_CurrentSize d + (sz - accounted d key)\<rparr>"
  have run: "touch d key sz now = Ret d'"
    using i len put by (simp add: touch_def Let_def d'_def accounted_def)
  have "shard_ok s'"
    using assms(1,3) i(2) len unfolding s'_def by (intro shard_ok_put) (auto simp: dc_ok_def)
  then have "\<forall>s \<in> set ((dc_shards d)[i := s']). shard_ok s"
    using assms(1) set_update_subset [of "dc_shards d" i s'] by (auto simp: dc_ok_def)
  moreover have "keys_home ((dc_shards d)[i := s'])"
    using assms(1) i len by (intro keys_home_update) (auto simp: dc_ok_def s'_def shard_put_keys keys_home_def)
  moreover have "total_size ((dc_shards d)[i := s']) = total_size (dc_shards d) + (sz - accounted d key)"
    using i len by (simp add: total_size_update s'_def shard_put_size accounted_def)
  ultimately have "dc_ok d'" using assms(1) len by (simp add: dc_ok_def d'_def)
  moreover have "accounted d' key = sz"
    using i len by (simp add: accounted_def d'_def s'_def shard_put_lookup)
  ultimately show ?thesis using run by (simp add: d'_def same_config_def)
qed

lemma dc_remove_ok:
  assumes "dc_ok d" "2 \<le> length key"
  shows "\<exists>d'. dc_remove d key = Ret d' \<and> dc_ok d' \<and> same_config d d' \<and> dc_fs d' = dc_fs d \<and>
    dc_CurrentSize d' = dc_CurrentSize d - accounted d key"
proof -
  obtain i where i: "shard_index key = Ret i" "i < shardCount" using shard_index_Ret [OF assms(2)] by blast
  have len: "length (dc_shards d) = shardCount" using assms(1) by (simp add: dc_ok_def)
  let ?s = "dc_shards d ! i"
  show ?thesis
  proof (cases "map_of (sh_lru ?s) key")
    case None
    then show ?thesis using i len assms(1) by (simp add: dc_remove_def shard_remove_def accounted_def)
  next
    case (Some e)
    let ?s' = "drop_entry ?s key e"
    have "shard_ok ?s'"
      using assms(1) i(2) len Some by (intro shard_ok_drop) (auto simp: dc_ok_def)
    then have "\<forall>s \<in> set ((dc_shards d)[i := ?s']). shard_ok s"
      using assms(1) set_update_subset [of "dc_shards d" i ?s'] by (auto simp: dc_ok_def)
    moreover have "keys_home ((dc_shards d)[i := ?s'])"
      using assms(1) i len
      by (intro keys_home_update) (auto simp: dc_ok_def drop_entry_def set_delete keys_home_def)
    moreover have "total_size ((dc_shards d)[i := ?s']) = total_size (dc_shards d) - em_size e"
      using i len by (simp add: total_size_update drop_entry_def)
    ultimately show ?thesis
      using i len Some assms(1)
      by (simp add: dc_remove_def shard_remove_def accounted_def dc_ok_def same_config_def)
  qed
qed

section \<open>Eviction\<close>

lemma keys_home_subset:
  assumes "keys_home ss" "length ss' = length ss" "\<forall>i < length ss. set (sh_lru (ss' ! i)) \<subseteq> set (sh_lru (ss ! i))"
  shows "keys_home ss'"
  using assms unfolding keys_home_def by (metis image_mono subsetD)

lemma drop_entry_subset: "set (sh_lru (drop_entry s k e)) \<subseteq> set (sh_lru s)"
  by (auto simp: drop_entry_def set_delete)

lemma shard_ok_lookup:
  assumes "shard_ok s" "map_of (sh_lru s) k = Some e"
  shows "0 \<le> em_size e" "k \<in> fst ` set (sh_lru s)"
proof -
  have "(k, e) \<in> set (sh_lru s)" using assms(2) by (rule map_of_SomeD)
  then show "0 \<le> em_size e" "k \<in> fst ` set (sh_lru s)" using assms(1) by (force simp: shard_ok_def)+
qed

lemma evict_first_ok:
  assumes "\<forall>s \<in> set ss. shard_ok s"
  shows "\<exists>r ss'. evict_first ss = Ret (r, ss') \<and> (\<forall>s \<in> set ss'. shard_ok s) \<and> length ss' = length ss \<and>
    (\<forall>i < length ss. set (sh_lru (ss' ! i)) \<subseteq> set (sh_lru (ss ! i))) \<and>
    (case r of
       None \<Rightarrow> ss' = ss \<and> list_count ss = 0
     | Some (k, sz) \<Rightarrow> total_size ss' = total_size ss - sz \<and> 0 \<le> sz \<and> (\<exists>s \<in> set ss. k \<in> fst ` set (sh_lru s)))"
  using assms
proof (induction ss)
  case Nil
  then show ?case by (simp add: list_count_def)
next
  case (Cons s ss)
  show ?case
  proof (cases "sh_list s = []")
    case False
    have ok: "shard_ok s" using Cons.prems by simp
    let ?k = "last (sh_list s)"
    obtain e where e: "map_of (sh_lru s) ?k = Some e"
        "shard_evict s = Ret (Some (?k, em_size e), drop_entry s ?k e)"
      by (rule shard_evict_ok [OF ok False])
    note facts = shard_ok_lookup [OF ok e(1)] shard_ok_drop [OF ok e(1)]
    have "\<forall>i < length (s # ss). set (sh_lru ((drop_entry s ?k e # ss) ! i)) \<subseteq> set (sh_lru ((s # ss) ! i))"
      using drop_entry_subset by (auto simp: nth_Cons split: nat.split)
    moreover have "total_size (drop_entry s ?k e # ss) = total_size (s # ss) - em_size e"
      by (simp add: total_size_def drop_entry_def)
    ultimately show ?thesis using e(2) facts Cons.prems by simp
  next
    case True
    obtain r ss' where r: "evict_first ss = Ret (r, ss')" "\<forall>s \<in> set ss'. shard_ok s" "length ss' = length ss"
        "\<forall>i < length ss. set (sh_lru (ss' ! i)) \<subseteq> set (sh_lru (ss ! i))"
        "case r of None \<Rightarrow> ss' = ss \<and> list_count ss = 0
         | Some (k, sz) \<Rightarrow> total_size ss' = total_size ss - sz \<and> 0 \<le> sz \<and> (\<exists>s \<in> set ss. k \<in> fst ` set (sh_lru s))"
      using Cons by auto
    have "evict_first (s # ss) = Ret (r, s # ss')" using True r(1) by (simp add: shard_evict_def)
    moreover have "\<forall>i < length (s # ss). set (sh_lru ((s # ss') ! i)) \<subseteq> set (sh_lru ((s # ss) ! i))"
      using r(4) by (auto simp: nth_Cons split: nat.split)
    ultimately show ?thesis
      using r(2,3,5) Cons.prems True
      by (auto simp: total_size_def list_count_def split: option.splits)
  qed
qed

lemma list_count_0:
  assumes "list_count ss = 0" "\<forall>s \<in> set ss. shard_ok s"
  shows "total_size ss = 0" "\<forall>s \<in> set ss. sh_lru s = []"
proof -
  have empty: "\<forall>s \<in> set ss. sh_lru s = []"
    using assms by (auto simp: list_count_def shard_ok_def)
  then have "\<forall>s \<in> set ss. sh_size s = 0" using assms(2) by (auto simp: shard_ok_def entries_size_def)
  then have "map sh_size ss = replicate (length ss) 0" by (simp add: map_replicate_const [symmetric])
  then show "total_size ss = 0" by (simp add: total_size_def sum_list_replicate)
  show "\<forall>s \<in> set ss. sh_lru s = []" by (rule empty)
qed

text \<open>The files only go away.\<close>

definition fs_shrinks :: "fs \<Rightarrow> fs \<Rightarrow> bool" where
  "fs_shrinks a b \<longleftrightarrow> (\<forall>p. b p = None \<or> b p = a p)"

lemma fs_shrinks_refl [simp]: "fs_shrinks a a"
  by (simp add: fs_shrinks_def)

lemma fs_shrinks_trans: "fs_shrinks a b \<Longrightarrow> fs_shrinks b c \<Longrightarrow> fs_shrinks a c"
  unfolding fs_shrinks_def by metis

lemma fs_shrinks_Remove [simp]: "fs_shrinks a b \<Longrightarrow> fs_shrinks a (os_Remove p b)"
  by (simp add: fs_shrinks_def os_Remove_def)

lemma keys_home_length:
  assumes "keys_home ss" "s \<in> set ss" "k \<in> fst ` set (sh_lru s)"
  shows "2 \<le> length k"
proof -
  obtain i where "shard_index k = Ret i"
    using assms unfolding keys_home_def by (metis in_set_conv_nth)
  then show ?thesis by (simp add: shard_index_def split: if_splits)
qed

lemma dc_evict_ok:
  assumes "dc_ok d"
  shows "\<exists>b d'. dc_evict d = Ret (b, d') \<and> dc_ok d' \<and> same_config d d' \<and>
    fs_shrinks (dc_fs d) (dc_fs d') \<and> dc_CurrentSize d' \<le> dc_CurrentSize d \<and>
    (\<not> b \<longrightarrow> d' = d \<and> list_count (dc_shards d) = 0)"
proof -
  have ok: "\<forall>s \<in> set (dc_shards d). shard_ok s" using assms by (simp add: dc_ok_def)
  obtain r ss where r: "evict_first (dc_shards d) = Ret (r, ss)" "\<forall>s \<in> set ss. shard_ok s"
      "length ss = length (dc_shards d)"
      "\<forall>i < length (dc_shards d). set (sh_lru (ss ! i)) \<subseteq> set (sh_lru (dc_shards d ! i))"
      "case r of None \<Rightarrow> ss = dc_shards d \<and> list_count (dc_shards d) = 0
       | Some (k, sz) \<Rightarrow> total_size ss = total_size (dc_shards d) - sz \<and> 0 \<le> sz \<and>
           (\<exists>s \<in> set (dc_shards d). k \<in> fst ` set (sh_lru s))"
    using evict_first_ok [OF ok] by blast
  have home: "keys_home (dc_shards d)" using assms by (simp add: dc_ok_def)
  have home': "keys_home ss" by (rule keys_home_subset [OF home r(3,4)])
  show ?thesis
  proof (cases r)
    case None
    then have "dc_evict d = Ret (False, d)" using r(1,5) by (simp add: dc_evict_def)
    then show ?thesis using None r(5) assms by (intro exI [of _ False] exI [of _ d]) simp
  next
    case (Some kz)
    obtain k sz where kz: "kz = (k, sz)" by (cases kz)
    have k: "2 \<le> length k" using keys_home_length [OF home] r(5) Some kz by auto
    show ?thesis
      using r home' k assms Some kz
      by (auto simp: dc_evict_def CachePath_def dc_ok_def same_config_def)
  qed
qed

lemma evict_until_ok:
  assumes "dc_ok d"
  shows "\<exists>b d'. evict_until sz d = Ret (b, d') \<and> dc_ok d' \<and> same_config d d' \<and>
    fs_shrinks (dc_fs d) (dc_fs d') \<and> dc_CurrentSize d' \<le> dc_CurrentSize d \<and>
    (b \<longrightarrow> dc_CurrentSize d' + sz \<le> dc_MaxSize d) \<and>
    (\<not> b \<longrightarrow> list_count (dc_shards d') = 0 \<and> dc_MaxSize d < sz)"
  using assms
proof (induction sz d rule: evict_until.induct)
  case (1 sz d)
  show ?case
  proof (cases "dc_MaxSize d < dc_CurrentSize d + sz")
    case False
    then show ?thesis
      using "1.prems" by (intro exI [of _ True] exI [of _ d]) (simp add: evict_until.simps [of sz d])
  next
    case True
    obtain b d1 where e: "dc_evict d = Ret (b, d1)" "dc_ok d1" "same_config d d1"
        "fs_shrinks (dc_fs d) (dc_fs d1)" "dc_CurrentSize d1 \<le> dc_CurrentSize d"
        "\<not> b \<longrightarrow> d1 = d \<and> list_count (dc_shards d) = 0"
      using dc_evict_ok [OF "1.prems"] by blast
    show ?thesis
    proof (cases b)
      case b: True
      obtain b' d' where "evict_until sz d1 = Ret (b', d')" "dc_ok d'" "same_config d1 d'"
          "fs_shrinks (dc_fs d1) (dc_fs d')" "dc_CurrentSize d' \<le> dc_CurrentSize d1"
          "b' \<longrightarrow> dc_CurrentSize d' + sz \<le> dc_MaxSize d1"
          "\<not> b' \<longrightarrow> list_count (dc_shards d') = 0 \<and> dc_MaxSize d1 < sz"
        using "1.IH" [OF True e(1) refl] b e(2) by auto
      then show ?thesis
        using e True b by (auto simp: evict_until.simps [of sz d] same_config_def intro: fs_shrinks_trans)
    next
      case b: False
      then have "total_size (dc_shards d) = 0"
        using e(6) list_count_0(1) "1.prems" by (auto simp: dc_ok_def)
      then have "dc_MaxSize d < sz" using True "1.prems" by (simp add: dc_ok_def)
      then show ?thesis using b e True by (auto simp: evict_until.simps [of sz d])
    qed
  qed
qed

end
