(* ===== verification/DiskProps.thy ===== *)
theory DiskProps
  imports DiskInvariant
begin

text \<open>
  What the disk cache promises: its accounting stays exact and within the
  configured size, a write is all or nothing, what is stored is served until it
  is stale; and where the purges, the sweep and the hits depart from that.
\<close>

section \<open>Sweeping\<close>

lemma sweep_files_ok:
  assumes "\<forall>k \<in> set ks. 2 \<le> length k"
  shows "\<exists>files'. sweep_files ks files = Ret files' \<and> fs_shrinks files files'"
  using assms
proof (induction ks arbitrary: files)
  case (Cons k ks)
  let ?f = "os_Remove [drop 2 k @ bodyExt] (os_Remove [take 2 k, drop 2 k @ metaExt] files)"
  obtain files' where "sweep_files ks ?f = Ret files'" "fs_shrinks ?f files'"
    using Cons by fastforce
  moreover from this(2) have "fs_shrinks files files'" using fs_shrinks_trans [of files ?f files'] by simp
  ultimately show ?case using Cons.prems by (auto simp: CachePath_def)
qed simp

lemma sweep_shards_ok:
  assumes "\<forall>s \<in> set ss. shard_ok s \<and> (\<forall>k \<in> fst ` set (sh_lru s). 2 \<le> length k)"
  shows "\<exists>ss' d'. sweep_shards now ss d = Ret (ss', d') \<and> (\<forall>s \<in> set ss'. shard_ok s) \<and>
    length ss' = length ss \<and> same_config d d' \<and> fs_shrinks (dc_fs d) (dc_fs d') \<and>
    (\<forall>i < length ss. set (sh_lru (ss' ! i)) = {(k, e) \<in> set (sh_lru (ss ! i)). \<not> expired now e}) \<and>
    dc_CurrentSize d' = dc_CurrentSize d - (total_size ss - total_size ss')"
  using assms
proof (induction ss arbitrary: d)
  case Nil
  then show ?case by (simp add: total_size_def)
next
  case (Cons s ss)
  obtain ks sz s' where s': "findExpired s now = Ret (ks, sz, s')" "shard_ok s'"
      "ks = map fst (filter (\<lambda>(k, e). expired now e) (sh_lru s))" "sz = sh_size s - sh_size s'" "0 \<le> sz"
      "set (sh_lru s') = {(k, e) \<in> set (sh_lru s). \<not> expired now e}"
    using findExpired_ok [of s now] Cons.prems by auto
  have "\<forall>k \<in> set ks. 2 \<le> length k" using Cons.prems s'(3) by auto
  then obtain files where f: "sweep_files ks (dc_fs d) = Ret files" "fs_shrinks (dc_fs d) files"
    using sweep_files_ok by blast
  define d1 where "d1 = d\<lparr>dc_fs := files, dc_expirations := dc_expirations d + int (length ks)\<rparr>"
  define d2 where "d2 = (if sz > 0 then d1\<lparr>dc_CurrentSize := dc_CurrentSize d1 - sz\<rparr> else d1)"
  have d2: "same_config d d2" "dc_fs d2 = files" "dc_CurrentSize d2 = dc_CurrentSize d - sz"
    using s'(5) by (auto simp: d2_def d1_def same_config_def)
  obtain ss' d' where r: "sweep_shards now ss d2 = Ret (ss', d')" "\<forall>s \<in> set ss'. shard_ok s"
      "length ss' = length ss" "same_config d2 d'" "fs_shrinks (dc_fs d2) (dc_fs d')"
      "\<forall>i < length ss. set (sh_lru (ss' ! i)) = {(k, e) \<in> set (sh_lru (ss ! i)). \<not> expired now e}"
      "dc_CurrentSize d' = dc_CurrentSize d2 - (total_size ss - total_size ss')"
    using Cons.IH [of d2] Cons.prems by auto
  have run: "sweep_shards now (s # ss) d = Ret (s' # ss', d')"
    unfolding sweep_shards.simps s'(1) go_bind.simps prod.case f(1) Let_def
    using r(1) unfolding d2_def d1_def by simp
  moreover have "\<forall>i < length (s # ss). set (sh_lru ((s' # ss') ! i)) =
      {(k, e) \<in> set (sh_lru ((s # ss) ! i)). \<not> expired now e}"
    using r(6) s'(6) by (auto simp: nth_Cons split: nat.split)
  moreover have "dc_CurrentSize d' = dc_CurrentSize d - (total_size (s # ss) - total_size (s' # ss'))"
    using r(7) d2(3) s'(4) by (simp add: total_size_def)
  moreover have "same_config d d'" by (rule same_config_trans [OF d2(1) r(4)])
  moreover have "fs_shrinks (dc_fs d) (dc_fs d')"
    by (rule fs_shrinks_trans [OF f(2)]) (use r(5) d2(2) in simp)
  ultimately show ?case using r(2,3) s'(2) by auto
qed

lemma sweep_ok:
  assumes "dc_ok d"
  shows "\<exists>d'. sweep d now = Ret d' \<and> dc_ok d' \<and> same_config d d' \<and> fs_shrinks (dc_fs d) (dc_fs d') \<and>
    (\<forall>i < shardCount. set (sh_lru (dc_shards d' ! i)) =
      {(k, e) \<in> set (sh_lru (dc_shards d ! i)). \<not> expired now e})"
proof -
  have home: "keys_home (dc_shards d)" and len: "length (dc_shards d) = shardCount"
    using assms by (auto simp: dc_ok_def)
  have pre: "\<forall>s \<in> set (dc_shards d). shard_ok s \<and> (\<forall>k \<in> fst ` set (sh_lru s). 2 \<le> length k)"
    using assms keys_home_length [OF home] by (auto simp: dc_ok_def)
  obtain ss d' where r: "sweep_shards now (dc_shards d) d = Ret (ss, d')" "\<forall>s \<in> set ss. shard_ok s"
      "length ss = length (dc_shards d)" "same_config d d'" "fs_shrinks (dc_fs d) (dc_fs d')"
      "\<forall>i < length (dc_shards d). set (sh_lru (ss ! i)) =
        {(k, e) \<in> set (sh_lru (dc_shards d ! i)). \<not> expired now e}"
      "dc_CurrentSize d' = dc_CurrentSize d - (total_size (dc_shards d) - total_size ss)"
    using sweep_shards_ok [OF pre] by blast
  have "keys_home ss" using r(6) by (intro keys_home_subset [OF home r(3)]) auto
  then have "dc_ok (d'\<lparr>dc_shards := ss\<rparr>)" using r(2,3,7) len assms by (simp add: dc_ok_def)
  then show ?thesis using r(1,4,5,6) len by (auto simp: sweep_def same_config_def)
qed

section \<open>Purging everything\<close>

lemma remove_files_ok:
  assumes "\<forall>k \<in> set ks. 2 \<le> length k"
  shows "\<exists>files'. remove_files ks files = Ret files' \<and> fs_shrinks files files' \<and>
    (\<forall>k \<in> set ks. files' [take 2 k, drop 2 k @ metaExt] = None \<and> files' [take 2 k, drop 2 k @ bodyExt] = None)"
  using assms
proof (induction ks arbitrary: files)
  case (Cons k ks)
  let ?m = "[take 2 k, drop 2 k @ metaExt]" and ?b = "[take 2 k, drop 2 k @ bodyExt]"
  let ?f = "os_Remove ?b (os_Remove ?m files)"
  obtain files' where f: "remove_files ks ?f = Ret files'" "fs_shrinks ?f files'"
      "\<forall>k \<in> set ks. files' [take 2 k, drop 2 k @ metaExt] = None \<and> files' [take 2 k, drop 2 k @ bodyExt] = None"
    using Cons by fastforce
  moreover have "?f ?m = None" "?f ?b = None" by (simp_all add: os_Remove_def)
  then have "files' ?m = None" "files' ?b = None" using f(2) unfolding fs_shrinks_def by metis+
  moreover have "fs_shrinks files files'" using f(2) fs_shrinks_trans [of files ?f files'] by simp
  ultimately show ?case using Cons.prems by (auto simp: CachePath_def)
qed simp

lemma PurgeAll_ok:
  assumes "dc_ok d"
  shows "\<exists>n d'. PurgeAll d = Ret (n, d') \<and> dc_ok d' \<and> same_config d d' \<and> dc_CurrentSize d' = 0 \<and>
    fs_shrinks (dc_fs d) (dc_fs d') \<and>
    (\<forall>s \<in> set (dc_shards d). \<forall>k \<in> fst ` set (sh_lru s).
       dc_fs d' [take 2 k, drop 2 k @ metaExt] = None \<and> dc_fs d' [take 2 k, drop 2 k @ bodyExt] = None)"
proof -
  let ?keys = "concat (map (\<lambda>s. map fst (sh_lru s)) (dc_shards d))"
  have home: "keys_home (dc_shards d)" and len: "length (dc_shards d) = shardCount"
    using assms by (auto simp: dc_ok_def)
  then have "\<forall>k \<in> set ?keys. 2 \<le> length k" using keys_home_length by auto
  then obtain files where f: "remove_files ?keys (dc_fs d) = Ret files" "fs_shrinks (dc_fs d) files"
      "\<forall>k \<in> set ?keys. files [take 2 k, drop 2 k @ metaExt] = None \<and> files [take 2 k, drop 2 k @ bodyExt] = None"
    using remove_files_ok by blast
  have "map sh_size (map (\<lambda>_. newLRUShard) (dc_shards d)) = replicate shardCount 0"
    using len by (simp add: newLRUShard_def comp_def map_replicate_const)
  then have "total_size (map (\<lambda>_. newLRUShard) (dc_shards d)) = 0"
    by (simp add: total_size_def sum_list_replicate)
  moreover have "keys_home (map (\<lambda>_. newLRUShard) (dc_shards d))"
    by (simp add: keys_home_def newLRUShard_def)
  ultimately show ?thesis
    using f len by (auto simp: PurgeAll_def Let_def dc_ok_def same_config_def)
qed

section \<open>Storing\<close>

lemma ensureSpace_ok:
  assumes "dc_ok d" "0 \<le> dc_MaxSize d"
  shows "\<exists>b d'. ensureSpace d sz = Ret (b, d') \<and> dc_ok d' \<and> same_config d d' \<and>
    fs_shrinks (dc_fs d) (dc_fs d') \<and> dc_CurrentSize d' \<le> dc_CurrentSize d \<and>
    (b \<and> dc_MaxSize d \<noteq> 0 \<longrightarrow> dc_CurrentSize d' + sz \<le> dc_MaxSize d) \<and>
    (\<not> b \<longrightarrow> list_count (dc_shards d') = 0 \<and> dc_MaxSize d < sz)"
proof (cases "dc_MaxSize d = 0")
  case True
  then show ?thesis using assms by (intro exI [of _ True] exI [of _ d]) (simp add: ensureSpace_def)
next
  case False
  then show ?thesis using evict_until_ok [OF assms(1), of sz] by (simp add: ensureSpace_def)
qed

lemma accounted_nonneg:
  assumes "dc_ok d" "2 \<le> length key"
  shows "0 \<le> accounted d key"
proof -
  obtain i where i: "shard_index key = Ret i" "i < shardCount" using shard_index_Ret [OF assms(2)] by blast
  then have "shard_ok (dc_shards d ! i)" using assms(1) by (auto simp: dc_ok_def)
  then show ?thesis using i(1) shard_ok_lookup(1) by (auto simp: accounted_def split: option.split)
qed

lemma ensureDir_simps [simp]:
  "dc_shards (ensureDir d dir) = dc_shards d" "dc_CurrentSize (ensureDir d dir) = dc_CurrentSize d"
  "dc_MaxSize (ensureDir d dir) = dc_MaxSize d" "dc_MaxAge (ensureDir d dir) = dc_MaxAge d"
  "dc_fs (ensureDir d dir) = dc_fs d"
  by (simp_all add: ensureDir_def)

lemma dc_ok_ensureDir [simp]: "dc_ok (ensureDir d dir) = dc_ok d"
  by (simp add: dc_ok_def)

lemma dc_ok_fs [simp]: "dc_ok (d\<lparr>dc_fs := f\<rparr>) = dc_ok d"
  by (simp add: dc_ok_def)

lemma accounted_fs [simp]: "accounted (d\<lparr>dc_fs := f\<rparr>) key = accounted d key"
  by (simp add: accounted_def split: go.split option.split)

abbreviation meta_path :: "string \<Rightarrow> path" where
  "meta_path key \<equiv> [take 2 key, drop 2 key @ metaExt]"

abbreviation body_path :: "string \<Rightarrow> path" where
  "body_path key \<equiv> [take 2 key, drop 2 key @ bodyExt]"

lemma CachePath_Ret [simp]: "2 \<le> length key \<Longrightarrow> CachePath key ext = Ret [take 2 key, drop 2 key @ ext]"
  by (simp add: CachePath_def)

text \<open>The three ways a store of a cacheable response ends.\<close>

lemma SetResponseToCache_cases:
  assumes "dc_ok d" "2 \<le> length key" "0 \<le> dc_MaxSize d" "200 \<le> status" "status < 300" "body \<noteq> []"
    and "tot = int (length (writeMetadata status host path hdrs) + length body)"
  obtains (full) d1 where "SetResponseToCache d key host path status hdrs body om ob now = Ret (Some CacheFull, d1)"
      "dc_ok d1" "same_config d d1" "dc_CurrentSize d1 \<le> dc_CurrentSize d" "list_count (dc_shards d1) = 0"
      "dc_MaxSize d < tot" "fs_shrinks (dc_fs d) (dc_fs d1)"
    | (failed) e d1 where "SetResponseToCache d key host path status hdrs body om ob now = Ret (Some e, d1)"
      "dc_ok d1" "same_config d d1" "dc_CurrentSize d1 \<le> dc_CurrentSize d"
    | (stored) d1 :: disk_cache and d2 where "SetResponseToCache d key host path status hdrs body om ob now = Ret (None, d2)"
      "dc_ok d2" "same_config d d2" "fst om = Succeeds" "fst ob = Succeeds" "accounted d2 key = tot"
      "dc_MaxSize d \<noteq> 0 \<longrightarrow> dc_CurrentSize d2 \<le> dc_MaxSize d" "fs_shrinks (dc_fs d) (dc_fs d1)"
      "dc_fs d2 = snd (writeAtomic (fst ob) (snd ob) (body_path key) body now
         (snd (writeAtomic (fst om) (snd om) (meta_path key) (writeMetadata status host path hdrs) now (dc_fs d1))))"
proof -
  let ?d0 = "ensureDir d (take 2 key)" and ?meta = "writeMetadata status host path hdrs"
  obtain b d1 where s: "ensureSpace ?d0 tot = Ret (b, d1)" "dc_ok d1" "same_config ?d0 d1"
      "fs_shrinks (dc_fs ?d0) (dc_fs d1)" "dc_CurrentSize d1 \<le> dc_CurrentSize ?d0"
      "b \<and> dc_MaxSize ?d0 \<noteq> 0 \<longrightarrow> dc_CurrentSize d1 + tot \<le> dc_MaxSize ?d0"
      "\<not> b \<longrightarrow> list_count (dc_shards d1) = 0 \<and> dc_MaxSize ?d0 < tot"
    using ensureSpace_ok [of ?d0 tot] assms(1,3) by auto
  have cfg: "same_config d d1" using s(3) by (simp add: same_config_def)
  let ?wm = "writeAtomic (fst om) (snd om) (meta_path key) ?meta now (dc_fs d1)"
  let ?wb = "writeAtomic (fst ob) (snd ob) (body_path key) body now (snd ?wm)"
  have run: "SetResponseToCache d key host path status hdrs body om ob now =
      (if \<not> b then Ret (Some CacheFull, d1)
       else case ?wm of (Some e, fs1) \<Rightarrow> Ret (Some e, d1\<lparr>dc_fs := fs1\<rparr>)
         | (None, fs1) \<Rightarrow> (case writeAtomic (fst ob) (snd ob) (body_path key) body now fs1 of
             (Some e, fs2) \<Rightarrow> Ret (Some e, d1\<lparr>dc_fs := os_Remove (meta_path key) fs2\<rparr>)
           | (None, fs2) \<Rightarrow> go_bind (touch (d1\<lparr>dc_fs := fs2\<rparr>) key tot now) (\<lambda>d2. Ret (None, d2))))"
    using assms(2,4,5,6) s(1) unfolding assms(7) SetResponseToCache_def Let_def by simp
  have err: "fst (writeAtomic oc sf p data now f) = None \<longleftrightarrow> oc = Succeeds" for oc sf p data f
    by (cases oc) (simp_all add: writeAtomic_def Let_def)
  obtain em fs1 where wm: "?wm = (em, fs1)" by (cases ?wm)
  obtain eb fs2 where wb: "writeAtomic (fst ob) (snd ob) (body_path key) body now fs1 = (eb, fs2)"
    by (cases "writeAtomic (fst ob) (snd ob) (body_path key) body now fs1")
  note run = run [unfolded wm prod.case]
  show thesis
  proof (cases b)
    case False
    then show thesis using run s cfg by (intro full [of d1]) simp_all
  next
    case b: True
    show thesis
    proof (cases em)
      case (Some e)
      then show thesis using run b s(2,5) cfg
        by (intro failed [of e "d1\<lparr>dc_fs := fs1\<rparr>"]) (simp_all add: same_config_def)
    next
      case em: None
      note run = run [unfolded em option.case wb prod.case]
      show thesis
      proof (cases eb)
        case (Some e)
        then show thesis using run b s(2,5) cfg
          by (intro failed [of e "d1\<lparr>dc_fs := os_Remove (meta_path key) fs2\<rparr>"])
            (simp_all add: same_config_def)
      next
        case eb: None
        have "0 \<le> tot" by (simp add: assms(7))
        then obtain d2 where t: "touch (d1\<lparr>dc_fs := fs2\<rparr>) key tot now = Ret d2" "dc_ok d2"
            "same_config (d1\<lparr>dc_fs := fs2\<rparr>) d2" "dc_fs d2 = fs2"
            "dc_CurrentSize d2 = dc_CurrentSize d1 + tot - accounted d1 key" "accounted d2 key = tot"
          using touch_ok [of "d1\<lparr>dc_fs := fs2\<rparr>" key tot now] s(2) assms(2) by auto
        have acc: "0 \<le> accounted d1 key" by (rule accounted_nonneg [OF s(2) assms(2)])
        have succ: "fst om = Succeeds" "fst ob = Succeeds"
          using err [of "fst om"] err [of "fst ob"] wm wb em eb by (metis fst_conv)+
        show thesis
        proof (rule stored [of d2 d1])
          show "SetResponseToCache d key host path status hdrs body om ob now = Ret (None, d2)"
            using run b t(1) eb by simp
          show "same_config d d2" using cfg t(3) by (simp add: same_config_def)
          show "dc_MaxSize d \<noteq> 0 \<longrightarrow> dc_CurrentSize d2 \<le> dc_MaxSize d" using s(6) b acc t(5) by auto
          show "dc_fs d2 = snd ?wb" using wm wb t(4) by simp
        qed (use succ t s(4) in simp_all)
      qed
    qed
  qed
qed

lemma SetResponseToCache_skips:
  assumes "status < 200 \<or> 300 \<le> status \<or> body = []"
  shows "SetResponseToCache d key host path status hdrs body om ob now = Ret (None, d)"
  using assms by (auto simp: SetResponseToCache_def)

lemma SetResponseToCache_ok:
  assumes "dc_ok d" "2 \<le> length key" "0 \<le> dc_MaxSize d"
  shows "\<exists>e d'. SetResponseToCache d key host path status hdrs body om ob now = Ret (e, d') \<and> dc_ok d' \<and>
    same_config d d' \<and>
    (dc_MaxSize d \<noteq> 0 \<and> dc_CurrentSize d \<le> dc_MaxSize d \<longrightarrow> dc_CurrentSize d' \<le> dc_MaxSize d)"
proof (cases "status < 200 \<or> 300 \<le> status \<or> body = []")
  case True
  then show ?thesis using SetResponseToCache_skips assms(1) by auto
next
  case False
  then have *: "200 \<le> status" "status < 300" "body \<noteq> []" by auto
  show ?thesis
    by (rule SetResponseToCache_cases [OF assms * refl, of host path hdrs om ob now]) auto
qed

section \<open>Serving\<close>

lemma streamCachedResponse_ok:
  assumes "dc_ok d" "2 \<le> length key"
  shows "\<exists>e w' d'. streamCachedResponse d w key ttl now = Ret (e, w', d') \<and> dc_ok d' \<and> same_config d d'"
proof -
  let ?f = "d\<lparr>dc_fs := os_Remove (body_path key) (os_Remove (meta_path key) (dc_fs d))\<rparr>"
  obtain d1 where "dc_remove ?f key = Ret d1" "dc_ok d1" "same_config ?f d1"
    using dc_remove_ok [of ?f key] assms by auto
  note removed = this
  show ?thesis
  proof (cases "dc_fs d (meta_path key)")
    case None
    then show ?thesis using assms by (simp add: streamCachedResponse_def)
  next
    case (Some info)
    obtain d2 where "touch d key (int (length (fl_data info))) now = Ret d2" "dc_ok d2" "same_config d d2"
      using touch_ok [OF assms, of "int (length (fl_data info))" now] by auto
    with removed Some assms show ?thesis
      by (auto simp: streamCachedResponse_def Let_def same_config_def
          split: option.splits sum.splits prod.splits)
  qed
qed

lemma streamCachedResponse_hit:
  assumes "dc_ok d" "2 \<le> length key" "dc_fs d (meta_path key) = Some info" "dc_fs d (body_path key) = Some bf"
    and "readMetadata (fl_data info) = Inr (st, host, path, hs)"
    and "\<not> (age_limit d ttl > 0 \<and> now - fl_mtime info > age_limit d ttl)"
  shows "\<exists>d'. streamCachedResponse d w key ttl now =
    Ret (None, Write (WriteHeader (w\<lparr>rw_header := Header_Set (Header_Set (add_headers (rw_header w) hs) ''X-Cache'' ''HIT'')
      ''X-Cache-Age'' (Duration_String (now - fl_mtime info))\<rparr>) (int st)) (fl_data bf), d')"
proof -
  have fresh: "(age_limit d ttl > 0 \<and> now - fl_mtime info > age_limit d ttl) = False" using assms(6) by blast
  obtain d' where "touch d key (int (length (fl_data info))) now = Ret d'"
    using touch_ok [OF assms(1,2), of "int (length (fl_data info))" now] by auto
  then show ?thesis using assms(2-5) unfolding streamCachedResponse_def Let_def by (simp add: fresh)
qed

section \<open>Runs of the cache\<close>

text \<open>The operations the proxy performs on its cache, the partial purges apart.\<close>

datatype dc_op =
    Store string string string int header "byte list" "write_outcome \<times> string" "write_outcome \<times> string" int
  | Serve string duration int
  | Sweep int
  | Purge_All

fun dc_step :: "disk_cache \<Rightarrow> dc_op \<Rightarrow> disk_cache go" where
  "dc_step d (Store key host path status hdrs body om ob now) =
     go_bind (SetResponseToCache d key host path status hdrs body om ob now) (\<lambda>(e, d'). Ret d')"
| "dc_step d (Serve key ttl now) =
     go_bind (streamCachedResponse d new_writer key ttl now) (\<lambda>(e, w, d'). Ret d')"
| "dc_step d (Sweep now) = sweep d now"
| "dc_step d Purge_All = go_bind (PurgeAll d) (\<lambda>(n, d'). Ret d')"

fun op_key_ok :: "dc_op \<Rightarrow> bool" where
  "op_key_ok (Store key host path status hdrs body om ob now) = (2 \<le> length key)"
| "op_key_ok (Serve key ttl now) = (2 \<le> length key)"
| "op_key_ok (Sweep now) = True"
| "op_key_ok Purge_All = True"

fun dc_run :: "disk_cache \<Rightarrow> dc_op list \<Rightarrow> disk_cache go" where
  "dc_run d [] = Ret d"
| "dc_run d (x # xs) = go_bind (dc_step d x) (\<lambda>d'. dc_run d' xs)"

lemma dc_step_ok:
  assumes "dc_ok d" "0 \<le> dc_MaxSize d" "op_key_ok x"
  shows "\<exists>d'. dc_step d x = Ret d' \<and> dc_ok d' \<and> same_config d d'"
proof (cases x)
  case (Store key host path status hdrs body om ob now)
  then show ?thesis
    using SetResponseToCache_ok [of d key host path status hdrs body om ob now] assms by auto
next
  case (Serve key ttl now)
  then show ?thesis using streamCachedResponse_ok [of d key new_writer ttl now] assms by auto
next
  case (Sweep now)
  then show ?thesis using sweep_ok [OF assms(1), of now] by auto
next
  case Purge_All
  then show ?thesis using PurgeAll_ok [OF assms(1)] by auto
qed

lemma dc_run_ok:
  assumes "dc_ok d" "0 \<le> dc_MaxSize d" "\<forall>x \<in> set xs. op_key_ok x"
  shows "\<exists>d'. dc_run d xs = Ret d' \<and> dc_ok d' \<and> same_config d d'"
  using assms
proof (induction xs arbitrary: d)
  case (Cons x xs)
  obtain d1 where d1: "dc_step d x = Ret d1" "dc_ok d1" "same_config d d1"
    using dc_step_ok [of d x] Cons.prems by auto
  then have "0 \<le> dc_MaxSize d1" using Cons.prems(2) by (simp add: same_config_def)
  from Cons.IH [OF d1(2) this] Cons.prems(3) d1 show ?case by (auto intro: same_config_trans)
qed simp

text \<open>
  C1. The cache's books are exact: from a new cache, every sequence of stores
  (with any outcome of the file system), cache hits, sweeps and full purges
  runs without a panic, and afterwards \<open>CurrentSize\<close> is the sum of the sizes
  of the entries in the index, the recency list and the map of every shard hold
  the same keys once each, and every key is in its own shard.
\<close>

theorem cache_accounting_exact:
  assumes "0 \<le> maxSize" "\<forall>x \<in> set xs. op_key_ok x"
  shows "\<exists>d. dc_run (NewDiskCache files dirs maxSize maxAge) xs = Ret d \<and>
    dc_CurrentSize d = (\<Sum>s \<leftarrow> dc_shards d. \<Sum>(k, e) \<leftarrow> sh_lru s. em_size e) \<and>
    (\<forall>s \<in> set (dc_shards d). distinct (sh_list s) \<and> distinct (map fst (sh_lru s)) \<and>
       set (sh_list s) = fst ` set (sh_lru s)) \<and>
    (\<forall>i < length (dc_shards d). \<forall>k \<in> set (sh_list (dc_shards d ! i)). shard_index k = Ret i)"
proof -
  have "0 \<le> dc_MaxSize (NewDiskCache files dirs maxSize maxAge)"
    using assms(1) by (simp add: NewDiskCache_def)
  from dc_run_ok [OF dc_ok_New this assms(2)]
  obtain d where d: "dc_run (NewDiskCache files dirs maxSize maxAge) xs = Ret d" "dc_ok d" by blast
  have "map sh_size (dc_shards d) = map (\<lambda>s. \<Sum>(k, e) \<leftarrow> sh_lru s. em_size e) (dc_shards d)"
    using d(2) by (auto simp: dc_ok_def shard_ok_def entries_size_def)
  then have "dc_CurrentSize d = (\<Sum>s \<leftarrow> dc_shards d. \<Sum>(k, e) \<leftarrow> sh_lru s. em_size e)"
    using d(2) unfolding dc_ok_def total_size_def by argo
  moreover have "\<forall>s \<in> set (dc_shards d). distinct (sh_list s) \<and> distinct (map fst (sh_lru s)) \<and>
       set (sh_list s) = fst ` set (sh_lru s)"
    using d(2) by (simp add: dc_ok_def shard_ok_def)
  moreover from this have "\<forall>i < length (dc_shards d). \<forall>k \<in> set (sh_list (dc_shards d ! i)). shard_index k = Ret i"
    using d(2) by (simp add: dc_ok_def keys_home_def)
  ultimately show ?thesis using d(1) by blast
qed

theorem cache_accounting_exact_witness:
  "\<exists>d. dc_run (NewDiskCache (\<lambda>p. None) [] 1000 0)
      [Store ''ab01'' ''h'' ''/'' 200 [] [1, 2, 3] (Succeeds, ''x'') (RenameFails, ''y'') 5,
       Serve ''ab01'' 0 6, Sweep 7, Purge_All] = Ret d \<and>
    dc_CurrentSize d = (\<Sum>s \<leftarrow> dc_shards d. \<Sum>(k, e) \<leftarrow> sh_lru s. em_size e)"
  using cache_accounting_exact [of 1000
      "[Store ''ab01'' ''h'' ''/'' 200 [] [1, 2, 3] (Succeeds, ''x'') (RenameFails, ''y'') 5,
       Serve ''ab01'' 0 6, Sweep 7, Purge_All]" "\<lambda>p. None" "[]" 0]
  by auto

text \<open>
  Storing respects the size limit: with a positive \<open>MaxSize\<close> that holds
  before, it holds after \<open>SetResponseToCache\<close>, whatever the response and
  whichever file operation fails.
\<close>

theorem store_within_limit:
  assumes "dc_ok d" "2 \<le> length key" "0 < dc_MaxSize d" "dc_CurrentSize d \<le> dc_MaxSize d"
  shows "\<exists>e d'. SetResponseToCache d key host path status hdrs body om ob now = Ret (e, d') \<and> dc_ok d' \<and>
    dc_MaxSize d' = dc_MaxSize d \<and> dc_CurrentSize d' \<le> dc_MaxSize d'"
  using SetResponseToCache_ok [OF assms(1,2), of host path status hdrs body om ob now] assms(3,4)
  by (auto simp: same_config_def)

theorem store_within_limit_witness:
  "\<exists>e d'. SetResponseToCache (NewDiskCache (\<lambda>p. None) [] 10 0) ''ab01'' ''h'' ''/'' 200 [] [1, 2, 3]
      (Succeeds, ''x'') (Succeeds, ''y'') 5 = Ret (e, d') \<and> dc_CurrentSize d' \<le> 10"
proof -
  have "dc_MaxSize (NewDiskCache (\<lambda>p. None) [] 10 0) = 10" "dc_CurrentSize (NewDiskCache (\<lambda>p. None) [] 10 0) = 0"
    by (simp_all add: NewDiskCache_def)
  then show ?thesis
    using store_within_limit [OF dc_ok_New, of "''ab01''" "\<lambda>p. None" "[]" 10 0 "''h''" "''/''" 200 "[]" "[1, 2, 3]"
        "(Succeeds, ''x'')" "(Succeeds, ''y'')" 5]
    by auto
qed





section \<open>Store and serve\<close>

lemma add_values_lookup:
  assumes "CanonicalHeaderKey c = c"
  shows "hdr_lookup (foldl (\<lambda>h v. Header_Add h c v) g vs) k =
    (if vs \<noteq> [] \<and> k = c then Some ((case hdr_lookup g c of None \<Rightarrow> [] | Some us \<Rightarrow> us) @ vs) else hdr_lookup g k)"
proof (induction vs arbitrary: g)
  case (Cons v vs)
  have "hdr_lookup (Header_Add g c v) k =
      (if k = c then Some ((case hdr_lookup g c of None \<Rightarrow> [] | Some us \<Rightarrow> us) @ [v]) else hdr_lookup g k)" for k
    using assms by (auto simp: Header_Add_def Let_def hdr_lookup_put)
  then show ?case using Cons.IH [of "Header_Add g c v"] by (auto split: option.splits)
qed simp

lemma add_headers_lookup:
  assumes "distinct (map fst hs)" "\<forall>k \<in> fst ` set hs. CanonicalHeaderKey k = k"
  shows "hdr_lookup (add_headers h hs) k =
    (case map_of hs k of
       Some (v # vs) \<Rightarrow> Some ((case hdr_lookup h k of None \<Rightarrow> [] | Some us \<Rightarrow> us) @ v # vs)
     | _ \<Rightarrow> hdr_lookup h k)"
  using assms
proof (induction hs arbitrary: h)
  case (Cons x hs)
  obtain c vs where x: "x = (c, vs)" by (cases x)
  have step: "add_headers h (x # hs) = add_headers (foldl (\<lambda>h v. Header_Add h c v) h vs) hs"
    by (simp add: add_headers_def x)
  have c: "CanonicalHeaderKey c = c" "map_of hs c = None"
    using Cons.prems by (auto simp: x map_of_eq_None_iff)
  let ?g = "foldl (\<lambda>h v. Header_Add h c v) h vs"
  have IH: "hdr_lookup (add_headers ?g hs) k =
      (case map_of hs k of
         Some (v # vs) \<Rightarrow> Some ((case hdr_lookup ?g k of None \<Rightarrow> [] | Some us \<Rightarrow> us) @ v # vs)
       | _ \<Rightarrow> hdr_lookup ?g k)"
    using Cons by simp
  show ?case unfolding step IH add_values_lookup [OF c(1)] using c(2)
    by (cases "k = c"; cases vs) (simp_all add: x split: option.split list.split)
qed (simp add: add_headers_def)

lemma tmp_name_differs:
  assumes "set key \<subseteq> set ''0123456789abcdef''" "2 < length key"
  shows "drop 2 key @ ext \<noteq> ''.cache-tmp-'' @ rnd"
proof -
  have "drop 2 key \<noteq> []" "set (drop 2 key) \<subseteq> set ''0123456789abcdef''"
    using assms set_drop_subset [of 2 key] by auto
  then show ?thesis by (cases "drop 2 key") auto
qed

lemma stored_files:
  assumes "set key \<subseteq> set ''0123456789abcdef''" "2 < length key"
    and "files = snd (writeAtomic Succeeds r2 (body_path key) body now
         (snd (writeAtomic Succeeds r1 (meta_path key) meta now files0)))"
  shows "files (meta_path key) = Some \<lparr>fl_data = meta, fl_mtime = now\<rparr>"
    and "files (body_path key) = Some \<lparr>fl_data = body, fl_mtime = now\<rparr>"
  using tmp_name_differs [OF assms(1,2)] unfolding assms(3)
  by (auto simp: writeAtomic_def Let_def metaExt_def bodyExt_def)

lemma canonical_keys:
  "CanonicalHeaderKey ''X-Cache'' = ''X-Cache''" "CanonicalHeaderKey ''X-Cache-Age'' = ''X-Cache-Age''"
  by code_simp+

lemma store_succeeds:
  assumes "dc_ok d" "2 \<le> length key" "0 \<le> dc_MaxSize d" "200 \<le> status" "status < 300" "body \<noteq> []"
    and "dc_MaxSize d = 0 \<or> int (length (writeMetadata status host path hs) + length body) \<le> dc_MaxSize d"
  shows "\<exists>files d1. SetResponseToCache d key host path status hs body (Succeeds, r1) (Succeeds, r2) now = Ret (None, d1) \<and>
    dc_ok d1 \<and> same_config d d1 \<and>
    dc_fs d1 = snd (writeAtomic Succeeds r2 (body_path key) body now
      (snd (writeAtomic Succeeds r1 (meta_path key) (writeMetadata status host path hs) now files)))"
proof -
  let ?d0 = "ensureDir d (take 2 key)" and ?tot = "int (length (writeMetadata status host path hs) + length body)"
  obtain b d1 where s: "ensureSpace ?d0 ?tot = Ret (b, d1)" "dc_ok d1" "same_config ?d0 d1"
      "\<not> b \<longrightarrow> dc_MaxSize ?d0 < ?tot"
    using ensureSpace_ok [of ?d0 ?tot] assms(1,3) by auto
  have "ensureSpace ?d0 ?tot = Ret (True, ?d0)" if "dc_MaxSize d = 0" using that by (simp add: ensureSpace_def)
  then have b: "b" using s(1,4) assms(7) by auto
  let ?f = "snd (writeAtomic Succeeds r2 (body_path key) body now
      (snd (writeAtomic Succeeds r1 (meta_path key) (writeMetadata status host path hs) now (dc_fs d1))))"
  obtain d2 where t: "touch (d1\<lparr>dc_fs := ?f\<rparr>) key ?tot now = Ret d2" "dc_ok d2" "same_config (d1\<lparr>dc_fs := ?f\<rparr>) d2"
      "dc_fs d2 = ?f"
    using touch_ok [of "d1\<lparr>dc_fs := ?f\<rparr>" key ?tot now] s(2) assms(2) by auto
  have "SetResponseToCache d key host path status hs body (Succeeds, r1) (Succeeds, r2) now = Ret (None, d2)"
    using assms(2,4,5,6) s(1) b t(1) unfolding SetResponseToCache_def Let_def
    by (simp add: writeAtomic_def Let_def)
  then show ?thesis using t s(3) by (auto simp: same_config_def)
qed

text \<open>
  C7. A stored response is served: when the entry fits the limit and both writes
  succeed, \<open>SetResponseToCache\<close> under a key of \<open>CacheKey\<close> reports no error, and
  \<open>streamCachedResponse\<close> at any later time within the age limit answers with the
  stored status and body, the headers with their values joined, and
  \<open>X-Cache: HIT\<close>.
\<close>

theorem store_then_serve:
  assumes "dc_ok d" "0 \<le> dc_MaxSize d" "200 \<le> status" "status < 300" "body \<noteq> []"
    and "dc_MaxSize d = 0 \<or> int (length (writeMetadata status host path hs) + length body) \<le> dc_MaxSize d"
    and "length host \<le> 2 ^ 20" "length path \<le> 2 ^ 20" "header_fits hs" "distinct (map fst hs)"
    and "\<forall>k \<in> fst ` set hs. CanonicalHeaderKey k = k"
    and "age_limit d ttl \<le> 0 \<or> later - now \<le> age_limit d ttl"
  shows "\<exists>d1 d2 w. SetResponseToCache d (CacheKey rhost uri) host path status hs body (Succeeds, r1) (Succeeds, r2) now =
      Ret (None, d1) \<and>
    streamCachedResponse d1 new_writer (CacheKey rhost uri) ttl later = Ret (None, w, d2) \<and>
    rw_status w = Some status \<and> rw_body w = body \<and> Header_Get (rw_sent w) ''X-Cache'' = ''HIT'' \<and>
    (\<forall>(k, vals) \<in> set hs. k \<noteq> ''X-Cache'' \<and> k \<noteq> ''X-Cache-Age'' \<longrightarrow>
       hdr_lookup (rw_sent w) k = Some [Join vals '', ''])"
proof -
  let ?key = "CacheKey rhost uri" and ?meta = "writeMetadata status host path hs"
  have key: "length ?key = 64" "set ?key \<subseteq> set ''0123456789abcdef''"
    using set_hex by (simp_all add: CacheKey_def)
  then have len: "2 \<le> length ?key" "2 < length ?key" by simp_all
  obtain d0 d1 where st: "SetResponseToCache d ?key host path status hs body (Succeeds, r1) (Succeeds, r2) now = Ret (None, d1)"
      "dc_ok d1" "same_config d d1"
      "dc_fs d1 = snd (writeAtomic Succeeds r2 (body_path ?key) body now
         (snd (writeAtomic Succeeds r1 (meta_path ?key) ?meta now d0)))"
    using store_succeeds [OF assms(1) len(1) assms(2-6), of r1 r2 now] by blast
  note files = stored_files [OF key(2) len(2) st(4)]
  have read: "readMetadata ?meta = Inr (nat status, host, path, joined hs)"
    using readMetadataV2_write [of status host path hs "[]"] assms(3,4,7-10)
    by (simp add: readMetadata_def writeMetadata_def metaVersion_def maxMetaString_def)
  have fresh: "\<not> (age_limit d1 ttl > 0 \<and> later - now > age_limit d1 ttl)"
    using assms(12) st(3) by (auto simp: age_limit_def same_config_def)
  let ?h = "Header_Set (Header_Set (add_headers [] (joined hs)) ''X-Cache'' ''HIT'') ''X-Cache-Age''
      (Duration_String (later - now))"
  obtain d2 where run: "streamCachedResponse d1 new_writer ?key ttl later =
      Ret (None, \<lparr>rw_header = ?h, rw_status = Some status, rw_sent = ?h, rw_body = body\<rparr>, d2)"
    using streamCachedResponse_hit [OF st(2) len(1) files, of "nat status" host path "joined hs" ttl later new_writer]
      read fresh assms(3)
    by (auto simp: new_writer_def WriteHeader_def Write_def)
  have "hdr_lookup ?h k = Some [Join vals '', '']"
    if "(k, vals) \<in> set hs" "k \<noteq> ''X-Cache''" "k \<noteq> ''X-Cache-Age''" for k vals
  proof -
    have d: "distinct (map fst (joined hs))" "\<forall>k \<in> fst ` set (joined hs). CanonicalHeaderKey k = k"
      using assms(10,11) by (force simp: joined_def comp_def case_prod_unfold)+
    moreover have "map_of (joined hs) k = Some [Join vals '', '']"
      using that(1) d(1) by (intro map_of_is_SomeI) (force simp: joined_def)+
    ultimately have "hdr_lookup (add_headers [] (joined hs)) k = Some [Join vals '', '']"
      by (simp add: add_headers_lookup)
    then show ?thesis using that(2,3) by (simp add: hdr_lookup_Set canonical_keys)
  qed
  moreover have "Header_Get ?h ''X-Cache'' = ''HIT''" by (simp add: Header_Get_Set canonical_keys)
  ultimately show ?thesis using st(1) run by auto
qed

theorem store_then_serve_witness:
  "\<exists>d1 d2 w. SetResponseToCache (NewDiskCache (\<lambda>p. None) [] 0 0) (CacheKey ''h'' ''/a'') ''h'' ''/a'' 200
      [(''Vary'', [''a'', ''b''])] [1, 2, 3] (Succeeds, ''x'') (Succeeds, ''y'') 5 = Ret (None, d1) \<and>
    streamCachedResponse d1 new_writer (CacheKey ''h'' ''/a'') 10 15 = Ret (None, w, d2) \<and>
    rw_status w = Some 200 \<and> rw_body w = [1, 2, 3] \<and> hdr_lookup (rw_sent w) ''Vary'' = Some [''a, b'']"
proof -
  have "dc_MaxSize (NewDiskCache (\<lambda>p. None) [] 0 0) = 0"
    and "age_limit (NewDiskCache (\<lambda>p. None) [] 0 0) 10 = 10"
    by (simp_all add: NewDiskCache_def age_limit_def)
  moreover have "header_fits [(''Vary'', [''a'', ''b''])]" "CanonicalHeaderKey ''Vary'' = ''Vary''"
    by (simp_all add: header_fits_def maxMetaHeaders_def maxMetaString_def) code_simp
  ultimately show ?thesis
    using store_then_serve [OF dc_ok_New, of "\<lambda>p. None" "[]" 0 0 200 "[1, 2, 3]" "''h''" "''/a''"
        "[(''Vary'', [''a'', ''b''])]" 10 15 5 "''h''" "''/a''" "''x''" "''y''"]
    by fastforce
qed

text \<open>
  \<open>Peek\<close> predicts \<open>streamCachedResponse\<close>: when it says no, serving fails and
  writes nothing to the client; when it says yes, serving succeeds if the
  metadata can be read and the body file is there.
\<close>

theorem Peek_predicts_serve:
  assumes "dc_ok d" "2 \<le> length key"
  shows "\<exists>b e w' d'. Peek d key ttl now = Ret b \<and> streamCachedResponse d w key ttl now = Ret (e, w', d') \<and>
    (\<not> b \<longrightarrow> e \<noteq> None \<and> w' = w) \<and>
    (b \<and> read_entry (dc_fs d) (meta_path key) \<noteq> None \<and> dc_fs d (body_path key) \<noteq> None \<longrightarrow> e = None)"
proof -
  obtain e w' d' where s: "streamCachedResponse d w key ttl now = Ret (e, w', d')"
    using streamCachedResponse_ok [OF assms] by blast
  show ?thesis
  proof (cases "dc_fs d (meta_path key)")
    case None
    then show ?thesis using assms(2) by (auto simp: Peek_def streamCachedResponse_def)
  next
    case (Some info)
    let ?stale = "age_limit d ttl > 0 \<and> now - fl_mtime info > age_limit d ttl"
    have pk: "Peek d key ttl now = Ret (\<not> ?stale)" using assms(2) Some by (auto simp: Peek_def Let_def)
    show ?thesis
    proof (cases ?stale)
      case True
      then have "e \<noteq> None \<and> w' = w"
        using s assms(2) Some by (auto simp: streamCachedResponse_def Let_def go_bind_Ret_iff)
      then show ?thesis using pk s True by auto
    next
      case False
      then have "?stale = False" by simp
      then have "e = None" if "read_entry (dc_fs d) (meta_path key) \<noteq> None" "dc_fs d (body_path key) \<noteq> None"
        using s assms(2) Some that unfolding streamCachedResponse_def Let_def
        by (auto simp: go_bind_Ret_iff read_entry_def split: sum.splits option.splits prod.splits)
      then show ?thesis using pk s False by auto
    qed
  qed
qed

theorem Peek_predicts_serve_witness:
  "\<exists>e d'. streamCachedResponse (NewDiskCache (\<lambda>p. None) [] 10 0) new_writer ''ab01'' 0 5 = Ret (e, new_writer, d') \<and> e \<noteq> None"
proof -
  have "Peek (NewDiskCache (\<lambda>p. None) [] 10 0) ''ab01'' 0 5 = Ret False"
    by (simp add: Peek_def NewDiskCache_def)
  then show ?thesis using Peek_predicts_serve [OF dc_ok_New, of "''ab01''" "\<lambda>p. None" "[]" 10 0 0 5 new_writer] by auto
qed

section \<open>Where the accounting and the files part\<close>

text \<open>
  A hit forgets the body's size: after a successful \<open>streamCachedResponse\<close> the
  entry counts for the length of its metadata file alone, and \<open>CurrentSize\<close> has
  changed by the difference.
\<close>

theorem hit_counts_metadata_only:
  assumes "dc_ok d" "2 \<le> length key" "streamCachedResponse d w key ttl now = Ret (None, w', d')"
  shows "\<exists>info. dc_fs d (meta_path key) = Some info \<and> accounted d' key = int (length (fl_data info)) \<and>
    dc_CurrentSize d' = dc_CurrentSize d + int (length (fl_data info)) - accounted d key"
proof -
  obtain info where info: "dc_fs d (meta_path key) = Some info" "touch d key (int (length (fl_data info))) now = Ret d'"
    using assms(2,3) by (auto simp: streamCachedResponse_def Let_def go_bind_Ret_iff
        split: option.splits sum.splits prod.splits if_splits)
  then show ?thesis using touch_ok [OF assms(1,2), of "int (length (fl_data info))" now] by auto
qed

theorem hit_counts_metadata_only_witness:
  "\<exists>d w' d'. streamCachedResponse d new_writer ''ab01'' 0 5 = Ret (None, w', d') \<and>
    accounted d' ''ab01'' = int (length (writeMetadata 200 ''h'' ''/'' []))"
proof -
  define d where "d = NewDiskCache (\<lambda>p. if p = meta_path ''ab01''
      then Some \<lparr>fl_data = writeMetadata 200 ''h'' ''/'' [], fl_mtime = 1\<rparr> else Some \<lparr>fl_data = [9], fl_mtime = 1\<rparr>) [] 0 0"
  have fs: "dc_fs d (meta_path ''ab01'') = Some \<lparr>fl_data = writeMetadata 200 ''h'' ''/'' [], fl_mtime = 1\<rparr>"
      "dc_fs d (body_path ''ab01'') = Some \<lparr>fl_data = [9], fl_mtime = 1\<rparr>"
    by (simp_all add: d_def NewDiskCache_def metaExt_def bodyExt_def)
  have read: "readMetadata (writeMetadata 200 ''h'' ''/'' []) = Inr (200, ''h'', ''/'', [])"
    using readMetadataV2_write [of 200 "''h''" "''/''" "[]" "[]"]
    by (simp add: readMetadata_def writeMetadata_def metaVersion_def maxMetaString_def header_fits_def maxMetaHeaders_def joined_def)
  have ok: "dc_ok d" unfolding d_def by (rule dc_ok_New)
  have "\<not> (age_limit d 0 > 0 \<and> (5 :: int) - fl_mtime \<lparr>fl_data = writeMetadata 200 ''h'' ''/'' [], fl_mtime = 1\<rparr> > age_limit d 0)"
    by (simp add: age_limit_def d_def NewDiskCache_def)
  then obtain w' d' where "streamCachedResponse d new_writer ''ab01'' 0 5 = Ret (None, w', d')"
    using streamCachedResponse_hit [OF ok _ fs, of 200 "''h''" "''/''" "[]" 0 5 new_writer] read by auto
  moreover from this have "accounted d' ''ab01'' = int (length (writeMetadata 200 ''h'' ''/'' []))"
    using hit_counts_metadata_only [OF ok, of "''ab01''" new_writer 0 5 w' d'] fs(1) by auto
  ultimately show ?thesis by blast
qed

lemma sweep_files_bodies:
  assumes "sweep_files ks files = Ret files'"
  shows "files' [a, b @ bodyExt] = files [a, b @ bodyExt]"
  using assms
proof (induction ks arbitrary: files)
  case (Cons k ks)
  obtain mp where mp: "CachePath k metaExt = Ret mp"
      "sweep_files ks (os_Remove [drop 2 k @ bodyExt] (os_Remove mp files)) = Ret files'"
    using Cons.prems by (auto simp: go_bind_Ret_iff)
  have "b @ bodyExt \<noteq> x @ metaExt" for x by (auto simp: bodyExt_def metaExt_def)
  then have "mp \<noteq> [a, b @ bodyExt]" using mp(1) by (auto simp: CachePath_def split: if_splits) metis
  then show ?case using Cons.IH [OF mp(2)] by (simp add: os_Remove_def)
qed simp

lemma sweep_shards_bodies:
  assumes "sweep_shards now ss d = Ret (ss', d')"
  shows "dc_fs d' [a, b @ bodyExt] = dc_fs d [a, b @ bodyExt]"
  using assms
proof (induction ss arbitrary: d ss')
  case (Cons s ss)
  obtain ks sz s1 files ss2 where f: "sweep_files ks (dc_fs d) = Ret files"
      and r: "sweep_shards now ss (if sz > 0
          then d\<lparr>dc_fs := files, dc_expirations := dc_expirations d + int (length ks), dc_CurrentSize := dc_CurrentSize (d\<lparr>dc_fs := files,
            dc_expirations := dc_expirations d + int (length ks)\<rparr>) - sz\<rparr>
          else d\<lparr>dc_fs := files, dc_expirations := dc_expirations d + int (length ks)\<rparr>) = Ret (ss2, d')"
    using Cons.prems by (auto simp: go_bind_Ret_iff Let_def split: prod.splits simp del: disk_cache.update_convs)
  then show ?case using Cons.IH [OF r] sweep_files_bodies [OF f] by (simp split: if_splits)
qed simp

text \<open>
  The sweep leaks bodies: it returns for every cache, drops the expired entries
  from the index, and no body file of any entry changes.
\<close>

theorem sweep_leaves_bodies:
  assumes "dc_ok d" "2 \<le> length key"
  shows "\<exists>d'. sweep d now = Ret d' \<and> dc_fs d' (body_path key) = dc_fs d (body_path key) \<and>
    (\<forall>i < shardCount. \<forall>(k, e) \<in> set (sh_lru (dc_shards d' ! i)). \<not> expired now e)"
proof -
  obtain d' where d': "sweep d now = Ret d'"
      "\<forall>i < shardCount. set (sh_lru (dc_shards d' ! i)) = {(k, e) \<in> set (sh_lru (dc_shards d ! i)). \<not> expired now e}"
    using sweep_ok [OF assms(1)] by blast
  obtain ss d1 where "sweep_shards now (dc_shards d) d = Ret (ss, d1)" "dc_fs d' = dc_fs d1"
    using d'(1) by (auto simp: sweep_def go_bind_Ret_iff)
  then show ?thesis using d' sweep_shards_bodies by auto
qed

theorem sweep_leaves_bodies_witness:
  "\<exists>d'. sweep (NewDiskCache (\<lambda>p. Some \<lparr>fl_data = [], fl_mtime = 0\<rparr>) [] 10 1) 5 = Ret d' \<and>
    dc_fs d' [''ab'', ''01.body''] \<noteq> None"
proof -
  have "dc_fs (NewDiskCache (\<lambda>p. Some \<lparr>fl_data = [], fl_mtime = 0\<rparr>) [] 10 1) p \<noteq> None" for p
    by (simp add: NewDiskCache_def)
  then show ?thesis
    using sweep_leaves_bodies [OF dc_ok_New, of "''ab01''" "\<lambda>p. Some \<lparr>fl_data = [], fl_mtime = 0\<rparr>" "[]" 10 1 5]
    by (auto simp: bodyExt_def)
qed

end
