(* ===== verification/Purges.thy ===== *)
theory Purges
  imports DiskProps
begin

text \<open>
  The two ways a purge reaches the cache: the REST API of a standalone node
  walks the cache directory (\<open>internal/cache/disk/purge.go\<close>,
  \<open>api/v1alpha1/service/cache.go\<close>), and an edge of a cluster applies a broadcast
  \<open>PurgeEvent\<close> to its live cache (\<open>internal/cluster/purge.go\<close>,
  \<open>internal/proxyserver/lazy_cluster.go\<close>). The NATS connection and the JSON text
  of an event are not modelled: a received message is an event or malformed.
\<close>

section \<open>Purge events\<close>

record PurgeEvent =
  pe_Host :: string
  pe_Path :: string
  pe_Prefix :: string
  pe_All :: bool

datatype purge_error = AllExclusive | PathAndPrefix | PathNeedsHost | NothingToPurge

definition Validate :: "PurgeEvent \<Rightarrow> purge_error option" where
  "Validate e =
     (if pe_All e then
        (if pe_Host e \<noteq> '''' \<or> pe_Path e \<noteq> '''' \<or> pe_Prefix e \<noteq> '''' then Some AllExclusive else None)
      else if pe_Path e \<noteq> '''' \<and> pe_Prefix e \<noteq> '''' then Some PathAndPrefix
      else if pe_Path e \<noteq> '''' then
        (if pe_Host e = '''' then Some PathNeedsHost else None)
      else if pe_Prefix e \<noteq> '''' \<or> pe_Host e \<noteq> '''' then None
      else Some NothingToPurge)"

text \<open>The edge's handler; without a disk cache there is nothing to purge.\<close>

definition handlePurgeEvent :: "disk_cache option \<Rightarrow> PurgeEvent \<Rightarrow> (nat \<times> disk_cache option) go" where
  "handlePurgeEvent dc e =
     (case dc of
        None \<Rightarrow> Ret (0, None)
      | Some d \<Rightarrow>
          go_bind
            (if pe_All e then PurgeAll d
             else if pe_Path e \<noteq> '''' then PurgeByHostPath d (pe_Host e) (pe_Path e)
             else if pe_Prefix e \<noteq> '''' then PurgeByHostPrefix d (pe_Host e) (pe_Prefix e)
             else PurgeByHost d (pe_Host e))
            (\<lambda>(n, d'). Ret (n, Some d')))"

text \<open>
  The callback of \<open>SubscribeCachePurge\<close>: malformed and invalid events are dropped.
\<close>

definition on_purge_message :: "disk_cache option \<Rightarrow> PurgeEvent option \<Rightarrow> disk_cache option go" where
  "on_purge_message dc msg =
     (case msg of
        None \<Rightarrow> Ret dc
      | Some e \<Rightarrow>
          (case Validate e of
             Some _ \<Rightarrow> Ret dc
           | None \<Rightarrow> go_bind (handlePurgeEvent dc e) (\<lambda>(dropped, dc'). Ret dc')))"

section \<open>Purging files\<close>

text \<open>
  What \<open>os.ReadDir\<close> says of the cache directory: for each entry its name, whether
  it is a directory, and the listing of that directory if it can be read.
\<close>

type_synonym dir_listing = "(string \<times> bool \<times> (string \<times> bool) list option) list"

text \<open>\<open>filepath.Ext\<close> of a file name: from its last dot on.\<close>

definition filepath_Ext :: "string \<Rightarrow> string" where
  "filepath_Ext name =
     (if CHR ''.'' \<in> set name then CHR ''.'' # rev (takeWhile (\<lambda>c. c \<noteq> CHR ''.'') (rev name)) else [])"

definition purgeProbe :: "fs \<Rightarrow> path \<Rightarrow> (string \<times> string) option" where
  "purgeProbe files metaPath =
     (case files metaPath of
        None \<Rightarrow> None
      | Some f \<Rightarrow> (case readMetadata (fl_data f) of Inl _ \<Rightarrow> None | Inr (_, host, path, _) \<Rightarrow> Some (host, path)))"

fun purge_dir ::
  "(string \<Rightarrow> string \<Rightarrow> bool) \<Rightarrow> string \<Rightarrow> (string \<times> bool) list \<Rightarrow> nat \<times> fs \<Rightarrow> nat \<times> fs" where
  "purge_dir match dir [] (purged, files) = (purged, files)"
| "purge_dir match dir ((name, isDir) # rest) (purged, files) =
     (if isDir \<or> filepath_Ext name \<noteq> metaExt then purge_dir match dir rest (purged, files)
      else
        (case purgeProbe files [dir, name] of
           None \<Rightarrow> purge_dir match dir rest (purged, files)
         | Some (host, path) \<Rightarrow>
             if \<not> match host path then purge_dir match dir rest (purged, files)
             else purge_dir match dir rest
               (purged + 1,
                os_Remove [dir, take (length name - length metaExt) name @ bodyExt] (os_Remove [dir, name] files))))"

fun purge_dirs :: "(string \<Rightarrow> string \<Rightarrow> bool) \<Rightarrow> dir_listing \<Rightarrow> nat \<times> fs \<Rightarrow> nat \<times> fs" where
  "purge_dirs match [] s = s"
| "purge_dirs match ((dir, isDir, entries) # rest) s =
     (if \<not> isDir then purge_dirs match rest s
      else (case entries of
              None \<Rightarrow> purge_dirs match rest s
            | Some names \<Rightarrow> purge_dirs match rest (purge_dir match dir names s)))"

definition PurgeFiles ::
  "dir_listing option \<Rightarrow> (string \<Rightarrow> string \<Rightarrow> bool) \<Rightarrow> fs \<Rightarrow> (cache_error option \<times> nat) \<times> fs" where
  "PurgeFiles cacheDir match files =
     (case cacheDir of
        None \<Rightarrow> ((Some IOError, 0), files)
      | Some shards \<Rightarrow> (case purge_dirs match shards (0, files) of (purged, files') \<Rightarrow> ((None, purged), files')))"

definition PurgeFilesByHost :: "dir_listing option \<Rightarrow> string \<Rightarrow> fs \<Rightarrow> (cache_error option \<times> nat) \<times> fs" where
  "PurgeFilesByHost cacheDir host files = PurgeFiles cacheDir (\<lambda>h _. h = host) files"

definition PurgeFilesByPath ::
  "dir_listing option \<Rightarrow> string \<Rightarrow> string \<Rightarrow> fs \<Rightarrow> (cache_error option \<times> nat) \<times> fs" where
  "PurgeFilesByPath cacheDir host path files =
     PurgeFiles cacheDir (\<lambda>h p. p = path \<and> (host = '''' \<or> h = host)) files"

definition PurgeFilesByPrefix ::
  "dir_listing option \<Rightarrow> string \<Rightarrow> string \<Rightarrow> fs \<Rightarrow> (cache_error option \<times> nat) \<times> fs" where
  "PurgeFilesByPrefix cacheDir host pre files =
     PurgeFiles cacheDir (\<lambda>h p. HasPrefix p pre \<and> (host = '''' \<or> h = host)) files"

definition PurgeFilesAll :: "dir_listing option \<Rightarrow> fs \<Rightarrow> (cache_error option \<times> nat) \<times> fs" where
  "PurgeFilesAll cacheDir files = PurgeFiles cacheDir (\<lambda>_ _. True) files"

section \<open>The cache service of the API\<close>

text \<open>
  \<open>PurgeCache\<close>: in cluster mode the event goes to NATS, whose answer is \<open>publish\<close>
  (True for published); else the local files are purged.
\<close>

datatype purge_result =
    Invalid purge_error
  | PublishFailed
  | Published
  | Purged nat "cache_error option"

definition PurgeCache ::
  "string \<Rightarrow> (PurgeEvent \<Rightarrow> bool) \<Rightarrow> dir_listing option \<Rightarrow>
   string \<Rightarrow> string \<Rightarrow> string \<Rightarrow> bool \<Rightarrow> fs \<Rightarrow> purge_result \<times> fs" where
  "PurgeCache defaultNATSURI publish cacheDir host path pre purgeAll files =
     (let event = \<lparr>pe_Host = host, pe_Path = path, pe_Prefix = pre, pe_All = purgeAll\<rparr> in
      case Validate event of
        Some e \<Rightarrow> (Invalid e, files)
      | None \<Rightarrow>
          if defaultNATSURI \<noteq> '''' then (if publish event then Published else PublishFailed, files)
          else
            (case (if purgeAll then PurgeFilesAll cacheDir files
                   else if path \<noteq> '''' then PurgeFilesByPath cacheDir host path files
                   else if pre \<noteq> '''' then PurgeFilesByPrefix cacheDir host pre files
                   else PurgeFilesByHost cacheDir host files)
             of ((err, n), files') \<Rightarrow> (Purged n err, files')))"

text \<open>The controller's answer to \<open>DELETE /cache\<close>: 400 for an error, else 200.\<close>

definition purge_status :: "purge_result \<Rightarrow> int" where
  "purge_status r =
     (case r of
        Invalid _ \<Rightarrow> 400
      | PublishFailed \<Rightarrow> 400
      | Published \<Rightarrow> 200
      | Purged _ err \<Rightarrow> (if err = None then 200 else 400))"

section \<open>What a purge of the files removes\<close>

text \<open>The paths a walk of the directory removes: metadata and body of the matching entries.\<close>

definition purged_in :: "(string \<Rightarrow> string \<Rightarrow> bool) \<Rightarrow> fs \<Rightarrow> string \<Rightarrow> (string \<times> bool) list \<Rightarrow> path \<Rightarrow> bool" where
  "purged_in match files dir names p \<longleftrightarrow>
     (\<exists>name h q. (name, False) \<in> set names \<and> filepath_Ext name = metaExt \<and>
        purgeProbe files [dir, name] = Some (h, q) \<and> match h q \<and>
        (p = [dir, name] \<or> p = [dir, take (length name - length metaExt) name @ bodyExt]))"

lemma filepath_Ext_suffix: "CHR ''.'' \<notin> set e \<Longrightarrow> filepath_Ext (x @ CHR ''.'' # e) = CHR ''.'' # e"
proof -
  assume "CHR ''.'' \<notin> set e"
  then have "takeWhile (\<lambda>c. c \<noteq> CHR ''.'') (rev e @ CHR ''.'' # rev x) = rev e"
    by (subst takeWhile_append2) auto
  then show ?thesis by (simp add: filepath_Ext_def)
qed

lemma filepath_Ext_meta [simp]: "filepath_Ext (x @ metaExt) = metaExt"
  using filepath_Ext_suffix [of "''meta''" x] by (simp add: metaExt_def)

lemma filepath_Ext_body [simp]: "filepath_Ext (x @ bodyExt) = bodyExt"
  using filepath_Ext_suffix [of "''body''" x] by (simp add: bodyExt_def)

lemma metaExt_not_bodyExt [simp]: "metaExt \<noteq> bodyExt" "bodyExt \<noteq> metaExt"
  by (simp_all add: metaExt_def bodyExt_def)

lemma purge_dir_result:
  "snd (purge_dir match dir names (n, files)) p = (if purged_in match files dir names p then None else files p)"
proof (induction names arbitrary: n files)
  case (Cons x names)
  obtain name isDir where x: "x = (name, isDir)" by (cases x)
  let ?mp = "[dir, name]" and ?bp = "[dir, take (length name - length metaExt) name @ bodyExt]"
  let ?f = "os_Remove ?bp (os_Remove ?mp files)"
  consider (skip) "isDir \<or> filepath_Ext name \<noteq> metaExt \<or> purgeProbe files ?mp = None"
    | (meta) h q where "\<not> isDir" "filepath_Ext name = metaExt" "purgeProbe files ?mp = Some (h, q)"
    by (cases "purgeProbe files ?mp") auto
  then show ?case
  proof cases
    case skip
    then have "purged_in match files dir (x # names) p = purged_in match files dir names p"
      by (auto simp: purged_in_def x)
    with skip show ?thesis using Cons.IH by (auto simp: x)
  next
    case meta
    show ?thesis
    proof (cases "match h q")
      case False
      with meta have "purged_in match files dir (x # names) p = purged_in match files dir names p"
        by (auto simp: purged_in_def x)
      with False meta show ?thesis using Cons.IH by (simp add: x)
    next
      case True
      have probe: "purgeProbe ?f [dir, name'] = (if name' = name then None else purgeProbe files [dir, name'])"
        if "filepath_Ext name' = metaExt" for name'
        using that by (auto simp: purgeProbe_def os_Remove_def)
      have "purged_in match files dir (x # names) p \<longleftrightarrow> p = ?mp \<or> p = ?bp \<or> purged_in match ?f dir names p"
        using meta True unfolding purged_in_def x by (auto simp: probe split: if_splits)
      moreover have "?f p = (if p = ?mp \<or> p = ?bp then None else files p)" by (simp add: os_Remove_def)
      moreover have "purge_dir match dir (x # names) (n, files) = purge_dir match dir names (n + 1, ?f)"
        using meta True by (simp add: x)
      ultimately show ?thesis using Cons.IH [of "n + 1" ?f] by presburger
    qed
  qed
qed (simp add: purged_in_def)

definition listed :: "dir_listing \<Rightarrow> (string \<Rightarrow> string \<Rightarrow> bool) \<Rightarrow> fs \<Rightarrow> path \<Rightarrow> bool" where
  "listed shards match files p \<longleftrightarrow>
     (\<exists>dir names. (dir, True, Some names) \<in> set shards \<and> purged_in match files dir names p)"

lemma purged_in_other_dir:
  assumes "\<And>name. filepath_Ext name = metaExt \<Longrightarrow> files' [dir, name] = files [dir, name]"
  shows "purged_in match files' dir names p = purged_in match files dir names p"
  using assms unfolding purged_in_def purgeProbe_def by metis

lemma purge_dirs_result:
  "snd (purge_dirs match shards (n, files)) p = (if listed shards match files p then None else files p)"
proof (induction shards arbitrary: n files)
  case (Cons x shards)
  obtain dir isDir entries where x: "x = (dir, isDir, entries)" by (cases x)
  show ?case
  proof (cases "isDir \<and> entries \<noteq> None")
    case False
    then have "listed (x # shards) match files p = listed shards match files p" by (auto simp: listed_def x)
    with False Cons.IH show ?thesis by (auto simp: x)
  next
    case True
    then obtain names where names: "isDir" "entries = Some names" by auto
    obtain n1 f1 where f1: "purge_dir match dir names (n, files) = (n1, f1)" by fastforce
    have f1p: "f1 p = (if purged_in match files dir names p then None else files p)" for p
      using purge_dir_result [of match dir names n files p] f1 by simp
    have keep: "purged_in match f1 d ns q \<Longrightarrow> purged_in match files d ns q" for d ns q
      unfolding purged_in_def purgeProbe_def by (force simp: f1p split: option.splits if_splits)
    have lose: "purged_in match files d ns q \<Longrightarrow> \<not> purged_in match files dir names q \<Longrightarrow> purged_in match f1 d ns q"
      for d ns q
    proof -
      assume a: "purged_in match files d ns q" and b: "\<not> purged_in match files dir names q"
      obtain name h r where n: "(name, False) \<in> set ns" "filepath_Ext name = metaExt"
          "purgeProbe files [d, name] = Some (h, r)" "match h r"
          "q = [d, name] \<or> q = [d, take (length name - length metaExt) name @ bodyExt]"
        using a unfolding purged_in_def by blast
      have "\<not> purged_in match files dir names [d, name]"
      proof
        assume "purged_in match files dir names [d, name]"
        then obtain name' where "(name', False) \<in> set names" "d = dir" "name = name'"
          using n(2) by (auto simp: purged_in_def)
        then show False using b n unfolding purged_in_def by blast
      qed
      then have "purgeProbe f1 [d, name] = Some (h, r)" using n(3) by (simp add: purgeProbe_def f1p)
      then show ?thesis using n unfolding purged_in_def by blast
    qed
    have "listed (x # shards) match files p \<longleftrightarrow> purged_in match files dir names p \<or> listed shards match f1 p"
      using names keep lose unfolding listed_def x by auto blast+
    moreover have "purge_dirs match (x # shards) (n, files) = purge_dirs match shards (n1, f1)"
      using names f1 by (simp add: x)
    ultimately show ?thesis using Cons.IH [of n1 f1] f1p [of p] by presburger
  qed
qed (simp add: listed_def)

text \<open>
  C28. A purge of the files of a standalone node is exact: when the directory can be
  listed, a path is removed if and only if it is the metadata or the body of a
  listed entry whose host and path match, and every other file stays; a key so
  removed is not served any more, whatever the index says.
\<close>

theorem PurgeFiles_exact:
  assumes "2 \<le> length key" "(take 2 key, True, Some names) \<in> set shards" "(drop 2 key @ metaExt, False) \<in> set names"
    and "purgeProbe (dc_fs d) (meta_path key) = Some (host, path)"
  shows "fst (fst (PurgeFiles (Some shards) match (dc_fs d))) = None \<and>
    (\<forall>p. snd (PurgeFiles (Some shards) match (dc_fs d)) p =
       (if listed shards match (dc_fs d) p then None else dc_fs d p)) \<and>
    (if match host path
     then streamCachedResponse (d\<lparr>dc_fs := snd (PurgeFiles (Some shards) match (dc_fs d))\<rparr>) w key ttl now =
       Ret (Some NotExist, w, d\<lparr>dc_fs := snd (PurgeFiles (Some shards) match (dc_fs d))\<rparr>)
     else snd (PurgeFiles (Some shards) match (dc_fs d)) (meta_path key) = dc_fs d (meta_path key))"
proof -
  let ?r = "purge_dirs match shards (0, dc_fs d)"
  have eq: "PurgeFiles (Some shards) match (dc_fs d) = ((None, fst ?r), snd ?r)"
    by (simp add: PurgeFiles_def split: prod.split)
  have in_iff: "listed shards match (dc_fs d) (meta_path key) \<longleftrightarrow> match host path"
  proof
    assume "listed shards match (dc_fs d) (meta_path key)"
    then obtain name dir h q where "purgeProbe (dc_fs d) [dir, name] = Some (h, q)" "match h q" "filepath_Ext name = metaExt"
        "meta_path key = [dir, name] \<or> meta_path key = [dir, take (length name - length metaExt) name @ bodyExt]"
      unfolding listed_def purged_in_def by blast
    moreover from this(4) have "meta_path key = [dir, name]"
      using filepath_Ext_meta filepath_Ext_body metaExt_not_bodyExt by (metis list.inject)
    ultimately show "match host path" using assms(4) by simp
  next
    assume "match host path"
    then show "listed shards match (dc_fs d) (meta_path key)"
      unfolding listed_def purged_in_def using assms(2,3,4) filepath_Ext_meta by blast
  qed
  show ?thesis
    using purge_dirs_result [of match shards 0 "dc_fs d"] in_iff assms(1) unfolding eq
    by (simp add: streamCachedResponse_def)
qed

theorem PurgeFiles_exact_witness:
  "\<exists>d. purgeProbe (dc_fs d) [''ab'', ''01.meta''] = Some (''h'', ''/'') \<and>
    streamCachedResponse (d\<lparr>dc_fs := snd (PurgeFiles (Some [(''ab'', True, Some [(''01.meta'', False)])]) (\<lambda>h p. h = ''h'') (dc_fs d))\<rparr>)
      new_writer ''ab01'' 0 5 =
    Ret (Some NotExist, new_writer, d\<lparr>dc_fs := snd (PurgeFiles (Some [(''ab'', True, Some [(''01.meta'', False)])]) (\<lambda>h p. h = ''h'') (dc_fs d))\<rparr>)"
proof -
  define d where "d = NewDiskCache (\<lambda>p. Some \<lparr>fl_data = writeMetadata 200 ''h'' ''/'' [], fl_mtime = 1\<rparr>) [] 0 0"
  have "readMetadata (writeMetadata 200 ''h'' ''/'' []) = Inr (200, ''h'', ''/'', [])"
    using readMetadataV2_write [of 200 "''h''" "''/''" "[]" "[]"]
    by (simp add: readMetadata_def writeMetadata_def metaVersion_def maxMetaString_def header_fits_def maxMetaHeaders_def joined_def)
  then have "purgeProbe (dc_fs d) [''ab'', ''01.meta''] = Some (''h'', ''/'')"
    by (simp add: d_def NewDiskCache_def purgeProbe_def)
  then show ?thesis
    using PurgeFiles_exact [of "''ab01''" "[(''01.meta'', False)]" "[(''ab'', True, Some [(''01.meta'', False)])]"
        d "''h''" "''/''" "\<lambda>h p. h = ''h''" new_writer 0 5]
    by (intro exI [of _ d]) (simp add: metaExt_def)
qed

section \<open>What a purge event does to an edge\<close>








text \<open>
  The API validates before it purges: an invalid selection changes no file and
  is answered 400, in cluster mode no local file changes, and a valid event has
  exactly one scope.
\<close>

theorem PurgeCache_validates:
  "(Validate \<lparr>pe_Host = host, pe_Path = path, pe_Prefix = pre, pe_All = a\<rparr> = None) =
     (if a then host = '''' \<and> path = '''' \<and> pre = ''''
      else if path = '''' then (host, pre) \<noteq> ('''', '''') else host \<noteq> '''' \<and> pre = '''') \<and>
   (case Validate \<lparr>pe_Host = host, pe_Path = path, pe_Prefix = pre, pe_All = a\<rparr> of
      Some e \<Rightarrow> PurgeCache uri publish cacheDir host path pre a files = (Invalid e, files) \<and> purge_status (Invalid e) = 400
    | None \<Rightarrow> (if uri = '''' then (\<exists>n err. fst (PurgeCache uri publish cacheDir host path pre a files) = Purged n err)
        else snd (PurgeCache uri publish cacheDir host path pre a files) = files))"
  by (auto simp: Validate_def PurgeCache_def purge_status_def Let_def split: prod.splits)

end
