(* ===== verification/Config.thy ===== *)
theory Config
  imports Complex_Main Http
begin

text \<open>
  The configuration of \<open>internal/config/config.go\<close>: its structs as records (a
  pointer is an option, a map an association list) and the functions that read
  server names, listen directives, upstream URLs and locations. The regular
  expression engine is an argument that gives for a pattern its matcher, or
  None when the pattern does not compile. \<open>parseSize\<close> and the durations are
  read by floating point and clock functions and are not modelled.
\<close>

section \<open>The structs\<close>

text \<open>\<open>MatchType\<close> is a string in the source; any other value counts as a prefix match.\<close>

type_synonym match_type = string

definition MatchPrefix :: match_type where
  "MatchPrefix = ''prefix''"

definition MatchExact :: match_type where
  "MatchExact = ''exact''"

definition MatchRegex :: match_type where
  "MatchRegex = ''regex''"

record WAFConfig =
  waf_Enabled :: bool
  waf_GeoLiteDir :: string

record RateLimitConfig =
  rlc_Enabled :: bool
  rlc_RPS :: real
  rlc_Burst :: int

record ClusterConfig =
  cc_Enabled :: bool
  cc_NATSURI :: string
  cc_Lazy :: bool
  cc_DataDir :: string
  cc_LRUSize :: int
  cc_ReplayTimeout :: duration

definition DefaultReplayTimeout :: duration where
  "DefaultReplayTimeout = 2 * 60 * 10 ^ 9"

record ErrorPageConfig =
  ep_Enabled :: bool
  ep_Statuses :: "int list"

record JSONLogConfig =
  jl_Enabled :: bool
  jl_AccessLog :: string
  jl_ErrorLog :: string
  jl_Stdout :: bool

record ProxyConfig =
  pc_CacheDir :: string
  pc_MaxCacheSize :: string
  pc_MaxCacheAge :: string
  pc_TLSCertFile :: string
  pc_TLSKeyFile :: string
  pc_MetricsAddr :: string
  pc_Listeners :: "string list"
  pc_MaxWriteWorkers :: int
  pc_MaxResponseBodySize :: string
  pc_JSONLog :: "JSONLogConfig option"
  pc_ErrorPage :: "ErrorPageConfig option"
  pc_WAF :: "WAFConfig option"
  pc_RateLimit :: "RateLimitConfig option"
  pc_Cluster :: "ClusterConfig option"

record HealthCheckConf =
  hcc_Path :: string
  hcc_Interval :: string
  hcc_Timeout :: string
  hcc_ExpectedStatus :: int
  hcc_Headers :: "(string \<times> string) list"

record UpstreamConfig =
  uc_URL :: string
  uc_Weight :: int
  uc_HealthCheck :: "HealthCheckConf option"

record TargetTLSConfig =
  tls_CertFile :: string
  tls_KeyFile :: string

record WAFRuleAction =
  act_Type :: string
  act_Code :: int
  act_Message :: string
  act_RPS :: real
  act_Burst :: int

record WAFCondition =
  wc_Param :: string
  wc_ParamName :: string
  wc_Operator :: string
  wc_Value :: string

record WAFRule =
  wr_ID :: string
  wr_Name :: string
  wr_Enabled :: "bool option"
  wr_Action :: WAFRuleAction
  wr_Conditions :: "WAFCondition list list"

record WAFLocationConfig =
  wl_Enabled :: bool
  wl_Rules :: "WAFRule list"

record CompressionConfig =
  cmp_Enabled :: bool
  cmp_Level :: int
  cmp_MinLength :: int
  cmp_Types :: "string list"

record ImageOptimizeConfig =
  im_Enabled :: bool
  im_MaxWidth :: int
  im_MaxHeight :: int
  im_Quality :: int
  im_Format :: string
  im_StripMetadata :: bool
  im_Progressive :: bool

record OptimizeConfig =
  opt_MinifyCSS :: bool
  opt_MinifyJS :: bool
  opt_UglifyJS :: bool
  opt_Images :: "ImageOptimizeConfig option"
  opt_Enabled :: bool

record CORSConfig =
  cors_Enabled :: bool
  cors_AllowOrigins :: "string list"
  cors_AllowMethods :: "string list"
  cors_AllowHeaders :: "string list"
  cors_ExposeHeaders :: "string list"
  cors_AllowCredentials :: bool
  cors_MaxAge :: int

record RewriteConfig =
  rc_Pattern :: string
  rc_Replacement :: string
  rc_Break :: bool
  rc_Redirect :: string

record HeadersConfig =
  hc_RequestAdd :: "(string \<times> string) list"
  hc_RequestRemove :: "string list"
  hc_ResponseAdd :: "(string \<times> string) list"
  hc_ResponseRemove :: "string list"

record ProxyLocationConfig =
  pl_Upstream :: string
  pl_ConnectTimeout :: string
  pl_ReadTimeout :: string
  pl_SendTimeout :: string
  pl_Buffering :: bool
  pl_BufferSize :: string
  pl_WebSocket :: bool
  pl_PassHostHeader :: bool

record LocationConfig =
  loc_Path :: string
  loc_MatchType :: match_type
  loc_Cache :: bool
  loc_CacheTTL :: string
  loc_CacheExcludes :: "string list"
  loc_CORS :: "CORSConfig option"
  loc_Rewrite :: "RewriteConfig option"
  loc_Headers :: "HeadersConfig option"
  loc_Proxy :: "ProxyLocationConfig option"
  loc_Optimize :: "OptimizeConfig option"
  loc_Compression :: "CompressionConfig option"
  loc_WAF :: "WAFLocationConfig option"

record TargetConfig =
  tc_ServerName :: string
  tc_HostHeader :: string
  tc_Upstreams :: "UpstreamConfig list"
  tc_LBAlgorithm :: string
  tc_Locations :: "LocationConfig list"
  tc_TLS :: "TargetTLSConfig option"

text \<open>The zero value of a location with a path, a match type and the cache flag.\<close>

definition location :: "string \<Rightarrow> match_type \<Rightarrow> bool \<Rightarrow> LocationConfig" where
  "location path mt cache =
     \<lparr>loc_Path = path, loc_MatchType = mt, loc_Cache = cache, loc_CacheTTL = '''', loc_CacheExcludes = [],
      loc_CORS = None, loc_Rewrite = None, loc_Headers = None, loc_Proxy = None, loc_Optimize = None,
      loc_Compression = None, loc_WAF = None\<rparr>"

section \<open>Server names\<close>

definition strip_port :: "string \<Rightarrow> string" where
  "strip_port h = (case Index h '':'' of None \<Rightarrow> h | Some i \<Rightarrow> take i h)"

definition ParseServerNames :: "string \<Rightarrow> string list" where
  "ParseServerNames serverName =
     (if serverName = '''' then []
      else map strip_port (filter (\<lambda>h. h \<noteq> '''') (map TrimSpace (SplitByte serverName (CHR '','')))))"

section \<open>Listen directives\<close>

datatype config_error =
    EmptyDirective
  | DuplicateFlag string
  | UnknownFlag string
  | FlagConflict
  | PortRange int
  | InListener nat config_error
  | ErrInvalidURL

record ListenersSpec =
  ls_Addr :: string
  ls_SSL :: bool
  ls_QUIC :: bool

text \<open>\<open>net.SplitHostPort\<close>; None stands for its errors.\<close>

definition last_colon :: "string \<Rightarrow> nat option" where
  "last_colon s =
     (if CHR '':'' \<in> set s then Some (length s - 1 - length (takeWhile (\<lambda>c. c \<noteq> CHR '':'') (rev s))) else None)"

definition SplitHostPort :: "string \<Rightarrow> (string \<times> string) option" where
  "SplitHostPort s =
     (case last_colon s of
        None \<Rightarrow> None
      | Some i \<Rightarrow>
          if hd s = CHR ''['' then
            (case Index s '']'' of
               None \<Rightarrow> None
             | Some e \<Rightarrow>
                 if e + 1 \<noteq> i \<or> e + 1 = length s then None
                 else if CHR ''['' \<in> set (drop 1 s) \<or> CHR '']'' \<in> set (drop (e + 1) s) then None
                 else Some (drop 1 (take e s), drop (i + 1) s))
          else if CHR '':'' \<in> set (take i s) \<or> CHR ''['' \<in> set s \<or> CHR '']'' \<in> set s then None
          else Some (take i s, drop (i + 1) s))"

definition JoinHostPort :: "string \<Rightarrow> string \<Rightarrow> string" where
  "JoinHostPort host port =
     (if CHR '':'' \<in> set host then ''['' @ host @ '']:'' @ port else host @ '':'' @ port)"

definition resolveListenAddr :: "string \<Rightarrow> nat \<Rightarrow> (config_error, string) result" where
  "resolveListenAddr raw0 defaultPort =
     (let raw = TrimSpace raw0 in
      if raw = '''' then Inr ('':'' @ show_nat defaultPort)
      else if SplitHostPort raw \<noteq> None then Inr raw
      else
        (case Atoi (TrimPrefix raw '':'') of
           Some p \<Rightarrow> if p < 0 \<or> p > 65535 then Inl (PortRange p) else Inr ('':'' @ show_int p)
         | None \<Rightarrow> Inr (JoinHostPort raw (show_nat defaultPort))))"

text \<open>The switch on a flag, and the loop over the flags with those already seen.\<close>

definition listen_flag :: "string \<Rightarrow> bool \<times> bool \<times> bool \<Rightarrow> (bool \<times> bool \<times> bool) option" where
  "listen_flag f acc =
     (case acc of (ssl, quic, h2c) \<Rightarrow>
        if f = ''ssl'' then Some (True, quic, h2c)
        else if f = ''h3'' \<or> f = ''http3'' \<or> f = ''quic'' then Some (ssl, True, h2c)
        else if f = ''h2c'' then Some (ssl, quic, True)
        else if f = ''h2'' \<or> f = ''http2'' then Some (ssl, quic, h2c)
        else None)"

primrec listen_flags ::
  "string list \<Rightarrow> string list \<Rightarrow> bool \<times> bool \<times> bool \<Rightarrow> (config_error, bool \<times> bool \<times> bool) result" where
  "listen_flags [] seen acc = Inr acc"
| "listen_flags (f # fs) seen acc =
     (if f \<in> set seen then Inl (DuplicateFlag f)
      else (case listen_flag f acc of
              None \<Rightarrow> Inl (UnknownFlag f)
            | Some acc' \<Rightarrow> listen_flags fs (f # seen) acc'))"

definition ParseListener :: "string \<Rightarrow> (config_error, ListenersSpec) result" where
  "ParseListener raw =
     (case Fields raw of
        [] \<Rightarrow> Inl EmptyDirective
      | addr # flags \<Rightarrow>
          (case listen_flags flags [] (False, False, False) of
             Inl e \<Rightarrow> Inl e
           | Inr (ssl, quic, h2c) \<Rightarrow>
               if ssl \<and> h2c then Inl FlagConflict
               else
                 (case resolveListenAddr addr (if ssl \<or> quic then 443 else 80) of
                    Inl e \<Rightarrow> Inl e
                  | Inr a \<Rightarrow> Inr \<lparr>ls_Addr = a, ls_SSL = ssl, ls_QUIC = quic\<rparr>)))"

fun parse_listeners :: "nat \<Rightarrow> string list \<Rightarrow> (config_error, ListenersSpec list) result" where
  "parse_listeners i [] = Inr []"
| "parse_listeners i (raw # rest) =
     (case ParseListener raw of
        Inl e \<Rightarrow> Inl (InListener i e)
      | Inr spec \<Rightarrow>
          (case parse_listeners (i + 1) rest of Inl e \<Rightarrow> Inl e | Inr specs \<Rightarrow> Inr (spec # specs)))"

definition ParseListeners :: "ProxyConfig \<Rightarrow> (config_error, ListenersSpec list) result" where
  "ParseListeners c = parse_listeners 0 (pc_Listeners c)"

section \<open>Upstream URLs\<close>

record url =
  Scheme :: string
  url_Host :: string

definition ParseURL :: "string \<Rightarrow> (config_error, url) result" where
  "ParseURL raw =
     (case Cut raw ''://'' of
        None \<Rightarrow> Inl ErrInvalidURL
      | Some (a, b) \<Rightarrow> Inr \<lparr>Scheme = a, url_Host = b\<rparr>)"

definition URL_String :: "url \<Rightarrow> string" where
  "URL_String u = Scheme u @ ''://'' @ url_Host u"

fun parse_upstreams :: "UpstreamConfig list \<Rightarrow> (config_error, url list) result" where
  "parse_upstreams [] = Inr []"
| "parse_upstreams (u # us) =
     (case ParseURL (uc_URL u) of
        Inl e \<Rightarrow> Inl e
      | Inr v \<Rightarrow> (case parse_upstreams us of Inl e \<Rightarrow> Inl e | Inr vs \<Rightarrow> Inr (v # vs)))"

definition ParseUpstreams :: "TargetConfig \<Rightarrow> (config_error, url list) result" where
  "ParseUpstreams t = parse_upstreams (tc_Upstreams t)"

section \<open>Locations\<close>

text \<open>
  \<open>Matches\<close>: a pattern that does not compile panics (\<open>regexp.MustCompile\<close>). The
  compiled pattern the code keeps is the same at every call, as the path of a
  location does not change.
\<close>

definition Matches :: "(string \<Rightarrow> (string \<Rightarrow> bool) option) \<Rightarrow> LocationConfig \<Rightarrow> string \<Rightarrow> bool go" where
  "Matches re l path =
     (if loc_MatchType l = MatchExact then Ret (loc_Path l = path)
      else if loc_MatchType l = MatchRegex then
        (if loc_Path l = '''' then Ret False
         else (case re (loc_Path l) of None \<Rightarrow> Panic | Some m \<Rightarrow> Ret (m path)))
      else if loc_Path l = ''/'' then Ret True
      else Ret (HasPrefix path (TrimSuffix (loc_Path l) ''/'')))"

section \<open>Reading server names\<close>

lemma SplitByte_append: "c \<notin> set a \<Longrightarrow> SplitByte (a @ c # s) c = a # SplitByte s c"
  by (induction a) (auto split: list.splits)

lemma SplitByte_Join:
  "ns \<noteq> [] \<Longrightarrow> \<forall>n \<in> set ns. c \<notin> set n \<Longrightarrow> SplitByte (Join ns [c]) c = ns"
proof (induction ns rule: induct_list012)
  case (3 a b ns)
  then show ?case by (simp add: SplitByte_append)
qed (simp_all add: SplitByte_id)

lemma strip_port_no_colon: "CHR '':'' \<notin> set (strip_port h)"
proof (cases "Index h '':''")
  case None
  then have "CHR '':'' \<notin> set h" using Index_byte [of h "CHR '':''"] by (auto split: if_splits)
  then show ?thesis using None by (simp add: strip_port_def)
next
  case (Some i)
  then show ?thesis using take_Index_byte [OF Some] by (auto simp: strip_port_def dest: set_takeWhileD)
qed

lemma strip_port_id: "CHR '':'' \<notin> set h \<Longrightarrow> strip_port h = h"
  using Index_byte [of h "CHR '':''"] by (simp add: strip_port_def)

text \<open>
  Server names round trip: a list of non-empty names without commas, colons and
  outer spaces is read back from its comma-separated text, and whatever the
  text, no name that is read contains a comma or a port separator.
\<close>

theorem ParseServerNames_Join:
  assumes "\<forall>n \<in> set ns. n \<noteq> '''' \<and> TrimSpace n = n \<and> CHR '','' \<notin> set n \<and> CHR '':'' \<notin> set n"
  shows "ParseServerNames (Join ns '','') = ns \<and>
    (\<forall>n \<in> set (ParseServerNames s). CHR '':'' \<notin> set n \<and> CHR '','' \<notin> set n)"
proof (rule conjI)
  show "ParseServerNames (Join ns '','') = ns"
  proof (cases "ns = []")
    case False
    then have "SplitByte (Join ns '','') (CHR '','') = ns" using SplitByte_Join [of ns "CHR '',''"] assms by simp
    moreover have "Join ns '','' \<noteq> ''''" using False assms by (cases ns rule: remdups_adj.cases) auto
    moreover have "map TrimSpace ns = ns" "filter (\<lambda>h. h \<noteq> '''') ns = ns" "map strip_port ns = ns"
      using assms by (auto simp: strip_port_id intro: map_idI filter_True)
    ultimately show ?thesis by (simp add: ParseServerNames_def)
  qed (simp add: ParseServerNames_def)
  have "set (strip_port h) \<subseteq> set h" for h
    by (auto simp: strip_port_def split: option.splits dest: in_set_takeD)
  moreover have "CHR '','' \<notin> set (TrimSpace p)" if "p \<in> set (SplitByte s (CHR '',''))" for p
    using SplitByte_no_sep [OF that] set_TrimSpace by blast
  ultimately show "\<forall>n \<in> set (ParseServerNames s). CHR '':'' \<notin> set n \<and> CHR '','' \<notin> set n"
    using strip_port_no_colon unfolding ParseServerNames_def by (auto split: if_splits)
qed

theorem ParseServerNames_Join_witness:
  "ParseServerNames ''a.example,b.example'' = [''a.example'', ''b.example'']"
  using ParseServerNames_Join [of "[''a.example'', ''b.example'']"]
  by (simp add: TrimSpace_id is_space_def)

section \<open>Reading listen directives\<close>

lemma last_colon_append: "CHR '':'' \<notin> set p \<Longrightarrow> last_colon (h @ CHR '':'' # p) = Some (length h)"
proof -
  assume "CHR '':'' \<notin> set p"
  then have "takeWhile (\<lambda>c. c \<noteq> CHR '':'') (rev p @ CHR '':'' # rev h) = rev p"
    by (subst takeWhile_append2) auto
  then show ?thesis by (simp add: last_colon_def)
qed

lemma SplitHostPort_plain:
  assumes "CHR '':'' \<notin> set h" "CHR ''['' \<notin> set h" "CHR '']'' \<notin> set h"
    and "CHR '':'' \<notin> set p" "CHR ''['' \<notin> set p" "CHR '']'' \<notin> set p"
  shows "SplitHostPort (h @ CHR '':'' # p) = Some (h, p)"
  using assms last_colon_append [OF assms(4), of h]
  by (cases h) (auto simp: SplitHostPort_def)

lemma Index_after: "c \<notin> set h \<Longrightarrow> Index (h @ c # t) [c] = Some (length h)"
proof -
  assume "c \<notin> set h"
  then have "takeWhile (\<lambda>x. x \<noteq> c) (h @ c # t) = h" by (subst takeWhile_append2) auto
  then show ?thesis using Index_byte [of "h @ c # t" c] by simp
qed

lemma SplitHostPort_bracketed:
  assumes "CHR ''['' \<notin> set h" "CHR '']'' \<notin> set h"
    and "CHR '':'' \<notin> set p" "CHR ''['' \<notin> set p" "CHR '']'' \<notin> set p"
  shows "SplitHostPort (''['' @ h @ '']:'' @ p) = Some (h, p)"
proof -
  have "Index (''['' @ h @ '']:'' @ p) '']'' = Some (Suc (length h))"
    using Index_after [of "CHR '']''" "''['' @ h" "CHR '':'' # p"] assms(2) by simp
  moreover have "last_colon (''['' @ h @ '']:'' @ p) = Some (length h + 2)"
    using last_colon_append [OF assms(3), of "''['' @ h @ '']''"] by simp
  ultimately show ?thesis using assms by (simp add: SplitHostPort_def)
qed

lemma show_nat_plain: "digit_val c = None \<Longrightarrow> c \<notin> set (show_nat n)"
  using show_nat_digits by blast

lemma no_digit [simp]:
  "digit_val (CHR '':'') = None" "digit_val (CHR ''['') = None" "digit_val (CHR '']'') = None"
  by (simp_all add: digit_val_def)

lemma resolveListenAddr_splits:
  assumes "resolveListenAddr raw port = Inr a" "CHR ''['' \<notin> set raw" "CHR '']'' \<notin> set raw"
  shows "SplitHostPort a \<noteq> None"
proof -
  let ?r = "TrimSpace raw"
  have r: "CHR ''['' \<notin> set ?r" "CHR '']'' \<notin> set ?r" using assms(2,3) set_TrimSpace by blast+
  have join: "SplitHostPort (JoinHostPort ?r (show_nat port)) \<noteq> None"
    using r SplitHostPort_plain [of ?r "show_nat port"] SplitHostPort_bracketed [of ?r "show_nat port"]
    by (simp add: JoinHostPort_def show_nat_plain)
  have num: "SplitHostPort (CHR '':'' # show_nat n) \<noteq> None" for n
    using SplitHostPort_plain [of "[]" "show_nat n"] by (simp add: show_nat_plain)
  have "SplitHostPort (CHR '':'' # show_int p) \<noteq> None" if "0 \<le> p" for p
    using num [of "nat p"] that by (simp add: show_int_def)
  then show ?thesis using assms(1) join num
    by (auto simp: resolveListenAddr_def Let_def split: if_splits option.splits)
qed

lemma listen_flag_Some:
  assumes "listen_flag f (s0, q0, c0) = Some (s1, q1, c1)"
  shows "f \<in> {''ssl'', ''h3'', ''http3'', ''quic'', ''h2c'', ''h2'', ''http2''} \<and>
    s1 = (s0 \<or> f = ''ssl'') \<and> q1 = (q0 \<or> f \<in> {''h3'', ''http3'', ''quic''})"
proof -
  have "f \<in> {''ssl'', ''h3'', ''http3'', ''quic'', ''h2c'', ''h2'', ''http2''}"
  proof (rule ccontr)
    assume "f \<notin> {''ssl'', ''h3'', ''http3'', ''quic'', ''h2c'', ''h2'', ''http2''}"
    then show False using assms by (simp add: listen_flag_def)
  qed
  then show ?thesis
    by (elim insertE emptyE; hypsubst; use assms in \<open>simp add: listen_flag_def\<close>)
qed

lemma listen_flags_Inr:
  assumes "\<And>f s q c s1 q1 c1. listen_flag f (s, q, c) = Some (s1, q1, c1) \<Longrightarrow>
      f \<in> K \<and> s1 = (s \<or> f = S) \<and> q1 = (q \<or> f \<in> Q)"
    and "listen_flags fs seen (s0, q0, c0) = Inr (ssl, quic, h2c)"
  shows "distinct fs \<and> set fs \<inter> set seen = {} \<and> set fs \<subseteq> K \<and>
    ssl = (s0 \<or> S \<in> set fs) \<and> quic = (q0 \<or> set fs \<inter> Q \<noteq> {})"
  using assms(2)
proof (induction fs arbitrary: seen s0 q0 c0)
  case (Cons f fs)
  obtain s1 q1 c1 where f: "f \<notin> set seen" "listen_flag f (s0, q0, c0) = Some (s1, q1, c1)"
      "listen_flags fs (f # seen) (s1, q1, c1) = Inr (ssl, quic, h2c)"
    using Cons.prems by (auto split: if_splits option.splits)
  show ?case using Cons.IH [OF f(3)] f(1) assms(1) [OF f(2)] by auto
qed simp

text \<open>
  A listen directive resolves to an address with a port: when \<open>ParseListener\<close>
  accepts a directive whose address token has no brackets, \<open>net.SplitHostPort\<close>
  accepts the address it gives, and every flag was known and given once.
\<close>

theorem ParseListener_has_port:
  assumes "ParseListener raw = Inr spec" "Fields raw = tok # flags" "CHR ''['' \<notin> set tok" "CHR '']'' \<notin> set tok"
  shows "SplitHostPort (ls_Addr spec) \<noteq> None \<and> distinct flags \<and>
    set flags \<subseteq> {''ssl'', ''h3'', ''http3'', ''quic'', ''h2c'', ''h2'', ''http2''} \<and>
    ls_SSL spec = (''ssl'' \<in> set flags) \<and> ls_QUIC spec = (set flags \<inter> {''h3'', ''http3'', ''quic''} \<noteq> {})"
proof -
  obtain ssl quic h2c where fl: "listen_flags flags [] (False, False, False) = Inr (ssl, quic, h2c)"
    and addr: "resolveListenAddr tok (if ssl \<or> quic then 443 else 80) = Inr (ls_Addr spec)"
    and spec: "ls_SSL spec = ssl" "ls_QUIC spec = quic"
    using assms(1,2) by (auto simp: ParseListener_def split: sum.splits if_splits)
  have "distinct flags \<and> set flags \<inter> set [] = {} \<and>
      set flags \<subseteq> {''ssl'', ''h3'', ''http3'', ''quic'', ''h2c'', ''h2'', ''http2''} \<and>
      ssl = (False \<or> ''ssl'' \<in> set flags) \<and> quic = (False \<or> set flags \<inter> {''h3'', ''http3'', ''quic''} \<noteq> {})"
    by (rule listen_flags_Inr [OF _ fl]) (rule listen_flag_Some)
  then show ?thesis
    using resolveListenAddr_splits [OF addr assms(3,4)] unfolding spec by (simp only: simp_thms)
qed

theorem ParseListener_has_port_witness:
  "ParseListener ''8443 ssl h3'' = Inr \<lparr>ls_Addr = '':8443'', ls_SSL = True, ls_QUIC = True\<rparr> \<and>
   SplitHostPort '':8443'' \<noteq> None"
proof -
  have f: "Fields ''8443 ssl h3'' = [''8443'', ''ssl'', ''h3'']" by (simp add: Fields.simps is_space_def)
  have p: "ParseListener ''8443 ssl h3'' = Inr \<lparr>ls_Addr = '':8443'', ls_SSL = True, ls_QUIC = True\<rparr>"
    by (simp add: ParseListener_def f listen_flag_def resolveListenAddr_def SplitHostPort_def last_colon_def
        TrimSpace_def is_space_def TrimPrefix_def HasPrefix_def Atoi_def digit_val_def show_int_def show_nat.simps
        char_of_def bit_Suc_0_iff)
  show ?thesis using ParseListener_has_port [OF p f] p by simp
qed

text \<open>
  A bracketed IPv6 address without a port resolves to an address with two pairs
  of brackets, which \<open>net.SplitHostPort\<close> refuses.
\<close>

lemma bracketed_listener_unbindable:
  assumes "CHR '':'' \<in> set h" "CHR ''['' \<notin> set h" "CHR '']'' \<notin> set h" "TrimSpace (''['' @ h @ '']'') = ''['' @ h @ '']''"
  shows "resolveListenAddr (''['' @ h @ '']'') port = Inr (''[['' @ h @ '']]:'' @ show_nat port)"
    and "SplitHostPort (''[['' @ h @ '']]:'' @ show_nat port) = None"
proof -
  let ?s = "''['' @ h @ '']''"
  have "Index ?s '']'' = Some (Suc (length h))" using Index_after [of "CHR '']''" "''['' @ h" "[]"] assms(3) by simp
  then have "SplitHostPort ?s = None"
    by (simp add: SplitHostPort_def split: option.split)
  moreover have "Atoi (TrimPrefix ?s '':'') = None"
    by (simp add: TrimPrefix_def HasPrefix_def Atoi_def digit_val_def)
  ultimately show "resolveListenAddr ?s port = Inr (''[['' @ h @ '']]:'' @ show_nat port)"
    using assms(1,4) by (simp add: resolveListenAddr_def JoinHostPort_def)
  have "Index (''[['' @ h @ '']]:'' @ show_nat port) '']'' = Some (length h + 2)"
    using Index_after [of "CHR '']''" "''[['' @ h" "'']:'' @ show_nat port"] assms(3) by simp
  then show "SplitHostPort (''[['' @ h @ '']]:'' @ show_nat port) = None"
    by (simp add: SplitHostPort_def split: option.split)
qed

end
