(* ===== verification/Router.thy ===== *)
theory Router
  imports Config "HOL-Library.AList"
begin

text \<open>
  Host and location routing (\<open>internal/router/router.go\<close>). A handler is a value
  of a type parameter with a function that serves it; the routing table is the
  map of the code as an association list, the resolver an optional function.
  The read-write lock is not modelled: every operation is one step.
\<close>

section \<open>Hosts\<close>

definition DefaultHostname :: string where
  "DefaultHostname = ''_default''"

definition NormalizeHost :: "string \<Rightarrow> string" where
  "NormalizeHost h0 =
     (let host = ToLower (TrimSpace h0) in
      if host = '''' then ''''
      else if HasPrefix host ''['' then
        (case Index host '']'' of Some e \<Rightarrow> take (e + 1) host | None \<Rightarrow> host)
      else
        (let host1 = (if count_list host (CHR '':'') = 1
                      then (case Index host '':'' of Some i \<Rightarrow> take i host | None \<Rightarrow> host)
                      else host)
         in TrimSuffix host1 ''.''))"

section \<open>The host router\<close>

record 'h HostRouter =
  hr_targets :: "(string \<times> 'h) list"
  hr_defaultHandler :: "'h option"
  hr_resolver :: "(string \<Rightarrow> 'h option) option"

definition NewHostRouter :: "'h HostRouter" where
  "NewHostRouter = \<lparr>hr_targets = [], hr_defaultHandler = None, hr_resolver = None\<rparr>"

definition hr_lookup :: "'h HostRouter \<Rightarrow> string \<Rightarrow> 'h option" where
  "hr_lookup hr host =
     (case map_of (hr_targets hr) host of
        Some h \<Rightarrow> Some h
      | None \<Rightarrow> (case hr_resolver hr of None \<Rightarrow> None | Some resolve \<Rightarrow> resolve host))"

text \<open>The handler \<open>ServeHTTP\<close> hands a request to, and the answer it gives without one.\<close>

fun first_candidate :: "'h HostRouter \<Rightarrow> string list \<Rightarrow> 'h option" where
  "first_candidate hr [] = None"
| "first_candidate hr (c # cs) =
     (case hr_lookup hr c of Some h \<Rightarrow> Some h | None \<Rightarrow> first_candidate hr cs)"

definition hr_route :: "'h HostRouter \<Rightarrow> request \<Rightarrow> 'h option" where
  "hr_route hr req =
     (case first_candidate hr [NormalizeHost (Host req), DefaultHostname] of
        Some h \<Rightarrow> Some h
      | None \<Rightarrow> hr_defaultHandler hr)"

definition hr_ServeHTTP ::
  "('h \<Rightarrow> response_writer \<Rightarrow> request \<Rightarrow> response_writer go) \<Rightarrow>
   'h HostRouter \<Rightarrow> response_writer \<Rightarrow> request \<Rightarrow> response_writer go" where
  "hr_ServeHTTP serve hr w req =
     (case hr_route hr req of
        Some h \<Rightarrow> serve h w req
      | None \<Rightarrow> Ret (http_Error w ''No matching target for host'' 404))"

definition Reload :: "'h HostRouter \<Rightarrow> (string \<times> 'h) list \<Rightarrow> 'h option \<Rightarrow> 'h HostRouter" where
  "Reload hr targets def = hr\<lparr>hr_targets := targets, hr_defaultHandler := def\<rparr>"

definition SetResolver :: "'h HostRouter \<Rightarrow> (string \<Rightarrow> 'h option) option \<Rightarrow> 'h HostRouter" where
  "SetResolver hr r = hr\<lparr>hr_resolver := r\<rparr>"

definition Upsert :: "'h HostRouter \<Rightarrow> string \<Rightarrow> 'h option \<Rightarrow> 'h HostRouter" where
  "Upsert hr host h =
     (case h of
        None \<Rightarrow> hr
      | Some h' \<Rightarrow> if host = '''' then hr else hr\<lparr>hr_targets := AList.update host h' (hr_targets hr)\<rparr>)"

definition RemoveHost :: "'h HostRouter \<Rightarrow> string \<Rightarrow> 'h HostRouter" where
  "RemoveHost hr host = (if host = '''' then hr else hr\<lparr>hr_targets := AList.delete host (hr_targets hr)\<rparr>)"

definition GetTargets :: "'h HostRouter \<Rightarrow> (string \<times> 'h) list" where
  "GetTargets hr = hr_targets hr"

definition GetDefaultHandler :: "'h HostRouter \<Rightarrow> 'h option" where
  "GetDefaultHandler hr = hr_defaultHandler hr"

section \<open>Locations of a target\<close>

record 'h TargetConfigHandler =
  tch_Target :: TargetConfig
  tch_Handlers :: "'h list"
  tch_DefaultLoc :: "'h option"

definition priority :: "LocationConfig \<Rightarrow> nat" where
  "priority l =
     (if loc_MatchType l = MatchExact then 1000
      else if loc_MatchType l = MatchRegex then 500
      else if loc_MatchType l = MatchPrefix then length (TrimSuffix (loc_Path l) ''/'')
      else 0)"

text \<open>The loop over the handlers with the best one so far.\<close>

fun best_location ::
  "(string \<Rightarrow> (string \<Rightarrow> bool) option) \<Rightarrow> ('h \<Rightarrow> LocationConfig) \<Rightarrow> string \<Rightarrow> 'h list \<Rightarrow>
   'h option \<times> nat \<Rightarrow> 'h option go" where
  "best_location re loc path [] (best, bestPriority) = Ret best"
| "best_location re loc path (h # hs) (best, bestPriority) =
     go_bind (Matches re (loc h) path) (\<lambda>ok.
       if \<not> ok then best_location re loc path hs (best, bestPriority)
       else if priority (loc h) > bestPriority
       then best_location re loc path hs (Some h, priority (loc h))
       else best_location re loc path hs (best, bestPriority))"

definition tch_route ::
  "(string \<Rightarrow> (string \<Rightarrow> bool) option) \<Rightarrow> ('h \<Rightarrow> LocationConfig) \<Rightarrow> 'h TargetConfigHandler \<Rightarrow> string \<Rightarrow> 'h option go" where
  "tch_route re loc tch path =
     go_bind (best_location re loc path (tch_Handlers tch) (None, 0)) (\<lambda>best.
       Ret (case best of Some h \<Rightarrow> Some h | None \<Rightarrow> tch_DefaultLoc tch))"

definition tch_ServeHTTP ::
  "(string \<Rightarrow> (string \<Rightarrow> bool) option) \<Rightarrow> ('h \<Rightarrow> LocationConfig) \<Rightarrow>
   ('h \<Rightarrow> response_writer \<Rightarrow> request \<Rightarrow> response_writer go) \<Rightarrow>
   'h TargetConfigHandler \<Rightarrow> response_writer \<Rightarrow> request \<Rightarrow> response_writer go" where
  "tch_ServeHTTP re loc serve tch w req =
     go_bind (tch_route re loc tch (Path req)) (\<lambda>best.
       case best of
         Some h \<Rightarrow> serve h w req
       | None \<Rightarrow> Ret (http_Error w ''No matching location'' 404))"

section \<open>Host routing\<close>

lemma lower_char_not_upper: "\<not> (65 \<le> (of_char (lower_char c) :: nat) \<and> (of_char (lower_char c) :: nat) \<le> 90)"
  by (auto simp: of_char_lower Let_def split: if_splits)

lemma ToLower_no_upper: "c \<in> set (ToLower s) \<Longrightarrow> \<not> (65 \<le> (of_char c :: nat) \<and> (of_char c :: nat) \<le> 90)"
  using lower_char_not_upper by (auto simp: ToLower_def)

lemma set_NormalizeHost: "set (NormalizeHost h) \<subseteq> set (ToLower (TrimSpace h))"
  by (auto simp: NormalizeHost_def Let_def TrimSuffix_def split: option.splits if_splits
      dest: in_set_takeD)

lemma NormalizeHost_colons:
  assumes "\<not> HasPrefix (NormalizeHost h) ''[''"
  shows "count_list (NormalizeHost h) (CHR '':'') \<noteq> 1"
proof -
  let ?l = "ToLower (TrimSpace h)"
  have le: "count_list (take n s) c \<le> count_list s c" for n s and c :: char
    by (metis append_take_drop_id count_list_append le_add1)
  have ts: "count_list (TrimSuffix s ''.'') (CHR '':'') = count_list s (CHR '':'')" for s
    by (cases "HasSuffix s ''.''") (auto simp: TrimSuffix_def HasSuffix_iff)
  show ?thesis
  proof (cases "?l = '''' \<or> HasPrefix ?l ''[''")
    case True
    then show ?thesis using assms
      by (auto simp: NormalizeHost_def Let_def HasPrefix_iff split: option.splits)
  next
    case False
    show ?thesis
    proof (cases "count_list ?l (CHR '':'') = 1")
      case True
      then have "CHR '':'' \<in> set ?l" by (metis count_notin zero_neq_one)
      then obtain i where i: "Index ?l '':'' = Some i" by (simp add: Index_byte)
      have "CHR '':'' \<notin> set (take i ?l)" using take_Index_byte [OF i] by (auto dest: set_takeWhileD)
      then show ?thesis using False True i by (simp add: NormalizeHost_def Let_def ts count_notin)
    next
      case c: False
      then show ?thesis using False by (simp add: NormalizeHost_def Let_def ts)
    qed
  qed
qed

text \<open>
  Hosts that no request can reach: a table key with an upper case letter, with
  outer spaces or with a single port separator is never the normalised host of a
  request, so the request is answered as if the entry were not in the table.
  The keys of the eager router are the configured server names unchanged.
\<close>

theorem unnormalised_key_unreachable:
  assumes "(\<exists>c \<in> set key. 65 \<le> (of_char c :: nat) \<and> (of_char c :: nat) \<le> 90) \<or>
      (count_list key (CHR '':'') = 1 \<and> \<not> HasPrefix key ''['')"
    and "key \<noteq> DefaultHostname"
  shows "hr_ServeHTTP serve (hr\<lparr>hr_targets := AList.update key h (hr_targets hr)\<rparr>) w req =
    hr_ServeHTTP serve (hr\<lparr>hr_targets := AList.delete key (hr_targets hr)\<rparr>) w req"
proof -
  have "NormalizeHost (Host req) \<noteq> key"
  proof
    assume k: "NormalizeHost (Host req) = key"
    show False
    proof (rule disjE [OF assms(1)])
      assume "\<exists>c \<in> set key. 65 \<le> (of_char c :: nat) \<and> (of_char c :: nat) \<le> 90"
      then show False using k set_NormalizeHost [of "Host req"] ToLower_no_upper by blast
    next
      assume "count_list key (CHR '':'') = 1 \<and> \<not> HasPrefix key ''[''"
      then show False using NormalizeHost_colons [of "Host req"] k by simp
    qed
  qed
  then have "hr_lookup (hr\<lparr>hr_targets := AList.update key h (hr_targets hr)\<rparr>) c =
      hr_lookup (hr\<lparr>hr_targets := AList.delete key (hr_targets hr)\<rparr>) c"
    if "c \<in> {NormalizeHost (Host req), DefaultHostname}" for c
    using that assms(2) by (auto simp: hr_lookup_def AList.update_conv' AList.delete_conv' split: option.split)
  then show ?thesis by (simp add: hr_ServeHTTP_def hr_route_def cong: option.case_cong)
qed

theorem unnormalised_key_unreachable_witness:
  "hr_ServeHTTP (\<lambda>h w req. Ret (http_Error w h 200))
     (NewHostRouter\<lparr>hr_targets := AList.update ''Example.com'' ''target'' (hr_targets NewHostRouter)\<rparr>)
     new_writer (some_request\<lparr>Host := ''Example.com''\<rparr>) =
   Ret (http_Error new_writer ''No matching target for host'' 404)"
proof -
  have "DefaultHostname \<noteq> ''Example.com''" by (simp add: DefaultHostname_def)
  then show ?thesis
    using unnormalised_key_unreachable [of "''Example.com''" "\<lambda>h w req. Ret (http_Error w h 200)" "''target''"
        NewHostRouter new_writer "some_request\<lparr>Host := ''Example.com''\<rparr>"]
    by (simp add: hr_ServeHTTP_def hr_route_def hr_lookup_def NewHostRouter_def)
qed

lemma hr_lookup_simps [simp]:
  "hr_lookup NewHostRouter host = None"
  "host \<noteq> '''' \<Longrightarrow> hr_lookup (Upsert hr host (Some h)) host' = (if host' = host then Some h else hr_lookup hr host')"
  "host \<noteq> '''' \<Longrightarrow> hr_lookup (RemoveHost hr host) host' =
     (if host' = host then (case hr_resolver hr of None \<Rightarrow> None | Some f \<Rightarrow> f host) else hr_lookup hr host')"
  by (auto simp: hr_lookup_def NewHostRouter_def Upsert_def RemoveHost_def AList.update_conv' AList.delete_conv'
      split: option.split)

section \<open>Location routing\<close>

text \<open>
  The patterns of the handlers compile, which \<open>best_location\<close> needs not to panic.
\<close>

definition patterns_ok :: "(string \<Rightarrow> (string \<Rightarrow> bool) option) \<Rightarrow> LocationConfig \<Rightarrow> bool" where
  "patterns_ok re l \<longleftrightarrow> loc_MatchType l \<noteq> MatchRegex \<or> loc_Path l = '''' \<or> re (loc_Path l) \<noteq> None"

definition matching :: "(string \<Rightarrow> (string \<Rightarrow> bool) option) \<Rightarrow> LocationConfig \<Rightarrow> string \<Rightarrow> bool" where
  "matching re l path \<longleftrightarrow> Matches re l path = Ret True"

lemma Matches_Ret: "patterns_ok re l \<Longrightarrow> Matches re l path = Ret (matching re l path)"
  by (auto simp: Matches_def matching_def patterns_ok_def split: option.splits)







text \<open>
  A location without a match type is never selected for its path: dropping the
  handlers whose match type is not one of the three names changes no answer,
  although \<open>Matches\<close> treats them as prefix locations.
\<close>

theorem unset_match_type_never_selected:
  assumes "\<forall>h \<in> set (tch_Handlers tch). patterns_ok re (loc h)"
  shows "tch_ServeHTTP re loc serve tch w req =
    tch_ServeHTTP re loc serve
      (tch\<lparr>tch_Handlers := filter (\<lambda>h. loc_MatchType (loc h) \<in> {MatchPrefix, MatchExact, MatchRegex}) (tch_Handlers tch)\<rparr>)
      w req"
proof -
  have drop: "best_location re loc path (filter (\<lambda>h. loc_MatchType (loc h) \<in> {MatchPrefix, MatchExact, MatchRegex}) hs) acc =
      best_location re loc path hs acc"
    if "\<forall>h \<in> set hs. patterns_ok re (loc h)" for path hs acc
    using that
  proof (induction hs arbitrary: acc)
    case (Cons h hs)
    obtain b p where acc: "acc = (b, p)" by (cases acc)
    have "Matches re (loc h) path = Ret (matching re (loc h) path)" using Cons.prems Matches_Ret by auto
    moreover have "priority (loc h) = 0" if "loc_MatchType (loc h) \<notin> {MatchPrefix, MatchExact, MatchRegex}"
      using that by (simp add: priority_def)
    ultimately show ?case using Cons by (auto simp: acc)
  qed (cases acc, simp)
  show ?thesis using drop [OF assms] by (simp add: tch_ServeHTTP_def tch_route_def cong: option.case_cong)
qed

theorem unset_match_type_never_selected_witness:
  "tch_ServeHTTP (\<lambda>p. None) (\<lambda>h. h) (\<lambda>h w req. Ret (http_Error w (loc_Path h) 200))
     \<lparr>tch_Target = \<lparr>tc_ServerName = ''a'', tc_HostHeader = '''', tc_Upstreams = [], tc_LBAlgorithm = '''',
        tc_Locations = [], tc_TLS = None\<rparr>,
      tch_Handlers = [location ''/api'' '''' False], tch_DefaultLoc = None\<rparr>
     new_writer (some_request\<lparr>Path := ''/api''\<rparr>) = Ret (http_Error new_writer ''No matching location'' 404)"
  by (subst unset_match_type_never_selected)
    (simp_all add: patterns_ok_def location_def tch_ServeHTTP_def tch_route_def MatchPrefix_def MatchRegex_def MatchExact_def)

end
