(* ===== verification/Flights.thy ===== *)
theory Flights
  imports LruCache Http
begin

text \<open>
  Lazy materialisation of targets (\<open>internal/router/lazy.go\<close>): the flight table,
  in which concurrent requests for a cold host share one load. A step is a
  critical section of the code (a stretch under \<open>ft.mu\<close> or one call of the LRU
  cache, which has its own lock); steps of the requests interleave freely, with
  arrivals and with invalidations of the cache. A channel is a number, closed or
  not. The cache is any that keeps the contract \<open>recency_cache\<close>.
\<close>

section \<open>State\<close>

text \<open>
  How \<open>materialize\<close>, or the fast path before it, ends: the resident handler, a
  handler from \<open>materialize\<close>, nil without an error, an error of the load,
  \<open>errMaterializeFailed\<close>, or the error of the request's context.
\<close>

datatype 'v outcome = Resident 'v | Handler 'v | NilHandler | LoadError | MaterializeFailed | CtxError

datatype 'v req_state = Arrived | Entering | Waiting nat | Loading nat | Finished "'v outcome"

record ('c, 'v) flights =
  ft_lru :: 'c
  ft_calls :: "(string \<times> nat) list"
  ft_closed :: "nat list"
  ft_fresh :: nat
  ft_reqs :: "(string \<times> 'v req_state) list"

definition NewFlightTable :: "'c \<Rightarrow> ('c, 'v) flights" where
  "NewFlightTable lru = \<lparr>ft_lru = lru, ft_calls = [], ft_closed = [], ft_fresh = 0, ft_reqs = []\<rparr>"

definition set_req :: "('c, 'v) flights \<Rightarrow> nat \<Rightarrow> 'v req_state \<Rightarrow> ('c, 'v) flights" where
  "set_req s i st = s\<lparr>ft_reqs := (ft_reqs s)[i := (fst (ft_reqs s ! i), st)]\<rparr>"

section \<open>The critical sections\<close>

text \<open>What a call of the load function can do; \<open>runLoad\<close> turns a panic into an error.\<close>

datatype 'v load_result = LoadOk "'v option" | LoadErr | LoadPanics

definition runLoad :: "'v load_result \<Rightarrow> (unit, 'v option) result" where
  "runLoad r = (case r of LoadOk v \<Rightarrow> Inr v | LoadErr \<Rightarrow> Inl () | LoadPanics \<Rightarrow> Inl ())"

text \<open>\<open>LazyHandler.ServeHTTP\<close> looks into the cache first.\<close>

definition fast_path ::
  "('c \<Rightarrow> string \<Rightarrow> ('v option \<times> 'c) go) \<Rightarrow> ('c, 'v) flights \<Rightarrow> nat \<Rightarrow> ('c, 'v) flights go" where
  "fast_path get s i =
     go_bind (get (ft_lru s) (fst (ft_reqs s ! i))) (\<lambda>(v, c).
       Ret (set_req (s\<lparr>ft_lru := c\<rparr>) i (case v of Some tch \<Rightarrow> Finished (Resident tch) | None \<Rightarrow> Entering)))"

text \<open>The first critical section of \<open>materialize\<close>: a hit, joining a flight, or opening one.\<close>

definition enter ::
  "('c \<Rightarrow> string \<Rightarrow> ('v option \<times> 'c) go) \<Rightarrow> ('c, 'v) flights \<Rightarrow> nat \<Rightarrow> ('c, 'v) flights go" where
  "enter get s i =
     (let key = fst (ft_reqs s ! i) in
      go_bind (get (ft_lru s) key) (\<lambda>(v, c).
        (let s1 = s\<lparr>ft_lru := c\<rparr> in
         case v of
           Some tch \<Rightarrow> Ret (set_req s1 i (Finished (Handler tch)))
         | None \<Rightarrow>
             (case map_of (ft_calls s1) key of
                Some call \<Rightarrow> Ret (set_req s1 i (Waiting call))
              | None \<Rightarrow>
                  Ret (set_req (s1\<lparr>ft_calls := (key, ft_fresh s1) # ft_calls s1, ft_fresh := Suc (ft_fresh s1)\<rparr>)
                    i (Loading (ft_fresh s1)))))))"

text \<open>The second critical section of the owner: publish, remove the flight, wake the followers.\<close>

definition finish ::
  "('c \<Rightarrow> string \<Rightarrow> 'v \<Rightarrow> 'c go) \<Rightarrow> ('c, 'v) flights \<Rightarrow> nat \<Rightarrow> nat \<Rightarrow> 'v load_result \<Rightarrow> ('c, 'v) flights go" where
  "finish put s i call r =
     (let key = fst (ft_reqs s ! i) in
      go_bind (case runLoad r of Inr (Some tch) \<Rightarrow> put (ft_lru s) key tch | _ \<Rightarrow> Ret (ft_lru s)) (\<lambda>c.
        Ret (set_req (s\<lparr>ft_lru := c, ft_calls := AList.delete key (ft_calls s), ft_closed := call # ft_closed s\<rparr>) i
          (Finished (case runLoad r of
             Inl _ \<Rightarrow> LoadError
           | Inr None \<Rightarrow> NilHandler
           | Inr (Some tch) \<Rightarrow> Handler tch)))))"

text \<open>A follower whose channel is closed reads what the owner published.\<close>

definition wake ::
  "('c \<Rightarrow> string \<Rightarrow> ('v option \<times> 'c) go) \<Rightarrow> ('c, 'v) flights \<Rightarrow> nat \<Rightarrow> ('c, 'v) flights go" where
  "wake get s i =
     go_bind (get (ft_lru s) (fst (ft_reqs s ! i))) (\<lambda>(v, c).
       Ret (set_req (s\<lparr>ft_lru := c\<rparr>) i
         (Finished (case v of Some tch \<Rightarrow> Handler tch | None \<Rightarrow> MaterializeFailed))))"

text \<open>The answer of \<open>LazyHandler.ServeHTTP\<close>; \<open>ctx_err\<close> says whether the context is done.\<close>

definition lazy_answer ::
  "('v \<Rightarrow> response_writer \<Rightarrow> request \<Rightarrow> response_writer go) \<Rightarrow> 'v outcome \<Rightarrow> bool \<Rightarrow>
   response_writer \<Rightarrow> request \<Rightarrow> response_writer go" where
  "lazy_answer serve res ctx_err w r =
     (case res of
        Resident tch \<Rightarrow> serve tch w r
      | Handler tch \<Rightarrow>
          if ctx_err then Ret (http_Error w ''request canceled'' 408) else serve tch w r
      | _ \<Rightarrow>
          if ctx_err then Ret (http_Error w ''request canceled'' 408)
          else Ret (http_Error w ''target config unavailable'' 502))"

section \<open>Interleavings\<close>

inductive req_step ::
  "('c \<Rightarrow> string \<Rightarrow> ('v option \<times> 'c) go) \<Rightarrow> ('c \<Rightarrow> string \<Rightarrow> 'v \<Rightarrow> 'c go) \<Rightarrow>
   ('c, 'v) flights \<Rightarrow> ('c, 'v) flights \<Rightarrow> bool"
  for get put where
  Fast: "i < length (ft_reqs s) \<Longrightarrow> snd (ft_reqs s ! i) = Arrived \<Longrightarrow> fast_path get s i = Ret s' \<Longrightarrow>
    req_step get put s s'"
| Enter: "i < length (ft_reqs s) \<Longrightarrow> snd (ft_reqs s ! i) = Entering \<Longrightarrow> enter get s i = Ret s' \<Longrightarrow>
    req_step get put s s'"
| Finish: "i < length (ft_reqs s) \<Longrightarrow> snd (ft_reqs s ! i) = Loading call \<Longrightarrow> finish put s i call r = Ret s' \<Longrightarrow>
    req_step get put s s'"
| Wake: "i < length (ft_reqs s) \<Longrightarrow> snd (ft_reqs s ! i) = Waiting call \<Longrightarrow> call \<in> set (ft_closed s) \<Longrightarrow>
    wake get s i = Ret s' \<Longrightarrow> req_step get put s s'"
| Cancel: "i < length (ft_reqs s) \<Longrightarrow> snd (ft_reqs s ! i) = Waiting call \<Longrightarrow>
    s' = set_req s i (Finished CtxError) \<Longrightarrow> req_step get put s s'"

text \<open>What happens around the requests: a new one arrives, an update drops a cached handler.\<close>

inductive env_step ::
  "('c \<Rightarrow> string \<Rightarrow> (bool \<times> 'c) go) \<Rightarrow> ('c, 'v) flights \<Rightarrow> ('c, 'v) flights \<Rightarrow> bool"
  for del where
  Arrive: "env_step del s (s\<lparr>ft_reqs := ft_reqs s @ [(key, Arrived)]\<rparr>)"
| Invalidate: "del (ft_lru s) key = Ret (b, c) \<Longrightarrow> env_step del s (s\<lparr>ft_lru := c\<rparr>)"

inductive reachable for get put del lru where
  Init: "reachable get put del lru (NewFlightTable lru)"
| Req: "reachable get put del lru s \<Longrightarrow> req_step get put s s' \<Longrightarrow> reachable get put del lru s'"
| Env: "reachable get put del lru s \<Longrightarrow> env_step del s s' \<Longrightarrow> reachable get put del lru s'"

inductive_cases req_stepE: "req_step get put s s'"
inductive_cases env_stepE: "env_step del s s'"

section \<open>The invariant\<close>

text \<open>
  Every open flight has a number of its own below the next one and is not
  closed; a loading request owns the open flight of its key, alone; a waiting
  request waits for a flight that is closed or open under its key.
\<close>

definition flights_ok :: "('c, 'v) flights \<Rightarrow> bool" where
  "flights_ok s \<longleftrightarrow>
     distinct (map fst (ft_calls s)) \<and> distinct (map snd (ft_calls s)) \<and>
     (\<forall>(k, f) \<in> set (ft_calls s). f < ft_fresh s \<and> f \<notin> set (ft_closed s) \<and>
        (\<exists>i < length (ft_reqs s). ft_reqs s ! i = (k, Loading f))) \<and>
     (\<forall>i < length (ft_reqs s). \<forall>f. snd (ft_reqs s ! i) = Loading f \<longrightarrow>
        (fst (ft_reqs s ! i), f) \<in> set (ft_calls s) \<and>
        (\<forall>j < length (ft_reqs s). snd (ft_reqs s ! j) = Loading f \<longrightarrow> j = i)) \<and>
     (\<forall>i < length (ft_reqs s). \<forall>f. snd (ft_reqs s ! i) = Waiting f \<longrightarrow>
        f \<in> set (ft_closed s) \<or> (fst (ft_reqs s ! i), f) \<in> set (ft_calls s)) \<and>
     (\<forall>f \<in> set (ft_closed s). f < ft_fresh s)"

lemma flights_ok_New [simp]: "flights_ok (NewFlightTable lru)" "ft_lru (NewFlightTable lru) = lru"
  by (simp_all add: flights_ok_def NewFlightTable_def)

lemma flights_okD:
  assumes "flights_ok s"
  shows "distinct (map fst (ft_calls s))" "distinct (map snd (ft_calls s))"
    and "(k, f) \<in> set (ft_calls s) \<Longrightarrow> f < ft_fresh s"
    and "(k, f) \<in> set (ft_calls s) \<Longrightarrow> f \<notin> set (ft_closed s)"
    and "(k, f) \<in> set (ft_calls s) \<Longrightarrow> \<exists>i < length (ft_reqs s). ft_reqs s ! i = (k, Loading f)"
    and "i < length (ft_reqs s) \<Longrightarrow> snd (ft_reqs s ! i) = Loading f \<Longrightarrow> (fst (ft_reqs s ! i), f) \<in> set (ft_calls s)"
    and "i < length (ft_reqs s) \<Longrightarrow> snd (ft_reqs s ! i) = Loading f \<Longrightarrow> j < length (ft_reqs s) \<Longrightarrow>
      snd (ft_reqs s ! j) = Loading f \<Longrightarrow> j = i"
    and "i < length (ft_reqs s) \<Longrightarrow> snd (ft_reqs s ! i) = Waiting f \<Longrightarrow>
      f \<in> set (ft_closed s) \<or> (fst (ft_reqs s ! i), f) \<in> set (ft_calls s)"
    and "f \<in> set (ft_closed s) \<Longrightarrow> f < ft_fresh s"
  using assms unfolding flights_ok_def by blast+

lemma flights_okI:
  assumes "distinct (map fst (ft_calls s))" "distinct (map snd (ft_calls s))"
    and "\<And>k f. (k, f) \<in> set (ft_calls s) \<Longrightarrow> f < ft_fresh s \<and> f \<notin> set (ft_closed s)"
    and "\<And>k f. (k, f) \<in> set (ft_calls s) \<Longrightarrow> \<exists>i < length (ft_reqs s). ft_reqs s ! i = (k, Loading f)"
    and "\<And>i f. i < length (ft_reqs s) \<Longrightarrow> snd (ft_reqs s ! i) = Loading f \<Longrightarrow> (fst (ft_reqs s ! i), f) \<in> set (ft_calls s)"
    and "\<And>i j f. i < length (ft_reqs s) \<Longrightarrow> snd (ft_reqs s ! i) = Loading f \<Longrightarrow> j < length (ft_reqs s) \<Longrightarrow>
      snd (ft_reqs s ! j) = Loading f \<Longrightarrow> j = i"
    and "\<And>i f. i < length (ft_reqs s) \<Longrightarrow> snd (ft_reqs s ! i) = Waiting f \<Longrightarrow>
      f \<in> set (ft_closed s) \<or> (fst (ft_reqs s ! i), f) \<in> set (ft_calls s)"
    and "\<And>f. f \<in> set (ft_closed s) \<Longrightarrow> f < ft_fresh s"
  shows "flights_ok s"
  unfolding flights_ok_def using assms by blast

lemma req_of_set_req:
  assumes "j < length (ft_reqs s)"
  shows "ft_reqs (set_req s i st) ! j = (if j = i then (fst (ft_reqs s ! i), st) else ft_reqs s ! j)"
  using assms by (simp add: set_req_def nth_list_update)

lemma set_req_simps [simp]:
  "ft_calls (set_req s i st) = ft_calls s" "ft_closed (set_req s i st) = ft_closed s"
  "ft_fresh (set_req s i st) = ft_fresh s" "length (ft_reqs (set_req s i st)) = length (ft_reqs s)"
  "ft_lru (set_req s i st) = ft_lru s"
  by (simp_all add: set_req_def)

text \<open>Steps that neither open nor close a flight.\<close>

lemma flights_ok_quiet:
  assumes ok: "flights_ok s" and i: "i < length (ft_reqs s)" and old: "\<forall>f. snd (ft_reqs s ! i) \<noteq> Loading f"
    and new: "\<forall>f. st \<noteq> Loading f"
    and wait: "\<forall>f. st = Waiting f \<longrightarrow> f \<in> set (ft_closed s) \<or> (fst (ft_reqs s ! i), f) \<in> set (ft_calls s)"
  shows "flights_ok (set_req s i st)"
proof -
  let ?s = "set_req s i st"
  have fst_eq: "fst (ft_reqs ?s ! j) = fst (ft_reqs s ! j)" if "j < length (ft_reqs s)" for j
    using that by (simp add: req_of_set_req)
  have load: "snd (ft_reqs s ! j) = Loading f" if "j < length (ft_reqs s)" "snd (ft_reqs ?s ! j) = Loading f" for j f
    using that new by (simp add: req_of_set_req split: if_splits)
  show ?thesis
  proof (rule flights_okI)
    fix k f
    assume "(k, f) \<in> set (ft_calls ?s)"
    then obtain j where j: "j < length (ft_reqs s)" "ft_reqs s ! j = (k, Loading f)"
      using flights_okD(5) [OF ok] by auto
    then have "j \<noteq> i" using old by auto
    then show "\<exists>j < length (ft_reqs ?s). ft_reqs ?s ! j = (k, Loading f)"
      using j by (intro exI [of _ j]) (simp add: req_of_set_req)
  next
    fix j f
    assume "j < length (ft_reqs ?s)" "snd (ft_reqs ?s ! j) = Loading f"
    then show "(fst (ft_reqs ?s ! j), f) \<in> set (ft_calls ?s)"
      using flights_okD(6) [OF ok, of j f] load [of j f] fst_eq [of j] by simp
  next
    fix j l f
    assume "j < length (ft_reqs ?s)" "snd (ft_reqs ?s ! j) = Loading f"
      and "l < length (ft_reqs ?s)" "snd (ft_reqs ?s ! l) = Loading f"
    then show "l = j" using flights_okD(7) [OF ok, of j f l] load [of j f] load [of l f] by simp
  next
    fix j f
    assume "j < length (ft_reqs ?s)" "snd (ft_reqs ?s ! j) = Waiting f"
    then show "f \<in> set (ft_closed ?s) \<or> (fst (ft_reqs ?s ! j), f) \<in> set (ft_calls ?s)"
      using flights_okD(8) [OF ok, of j f] wait fst_eq [of j] by (cases "j = i") (simp_all add: req_of_set_req)
  next
    fix k f
    assume "(k, f) \<in> set (ft_calls ?s)"
    then show "f < ft_fresh ?s \<and> f \<notin> set (ft_closed ?s)"
      using flights_okD(3) [OF ok, of k f] flights_okD(4) [OF ok, of k f] by simp
  qed (simp_all add: flights_okD(1,2,9) [OF ok])
qed

lemma flights_ok_lru [simp]: "flights_ok (s\<lparr>ft_lru := c\<rparr>) = flights_ok s"
  by (simp add: flights_ok_def)

lemma flights_ok_open:
  assumes ok: "flights_ok s" and i: "i < length (ft_reqs s)" "fst (ft_reqs s ! i) = key"
    and old: "\<forall>f. snd (ft_reqs s ! i) \<noteq> Loading f" and none: "map_of (ft_calls s) key = None"
  shows "flights_ok (set_req (s\<lparr>ft_calls := (key, ft_fresh s) # ft_calls s, ft_fresh := Suc (ft_fresh s)\<rparr>) i
    (Loading (ft_fresh s)))"
proof -
  let ?f = "ft_fresh s"
  let ?t = "s\<lparr>ft_calls := (key, ?f) # ft_calls s, ft_fresh := Suc ?f\<rparr>"
  let ?s = "set_req ?t i (Loading ?f)"
  have at: "ft_reqs ?s ! j = (if j = i then (key, Loading ?f) else ft_reqs s ! j)" if "j < length (ft_reqs s)" for j
    using that i(2) by (simp add: req_of_set_req)
  have fresh: "f \<noteq> ?f" if "(k, f) \<in> set (ft_calls s)" for k f using flights_okD(3) [OF ok that] by simp
  have nofresh: "snd (ft_reqs s ! j) \<noteq> Loading ?f" if "j < length (ft_reqs s)" for j
    using flights_okD(6) [OF ok that, of ?f] fresh by auto
  show ?thesis
  proof (rule flights_okI)
    show "distinct (map fst (ft_calls ?s))" using flights_okD(1) [OF ok] none by (simp add: map_of_eq_None_iff)
    show "distinct (map snd (ft_calls ?s))" using flights_okD(2) [OF ok] by (auto dest: fresh)
  next
    fix k f
    assume "(k, f) \<in> set (ft_calls ?s)"
    moreover have "?f \<notin> set (ft_closed s)" using flights_okD(9) [OF ok, of ?f] by auto
    ultimately show "f < ft_fresh ?s \<and> f \<notin> set (ft_closed ?s)"
      using flights_okD(3) [OF ok, of k f] flights_okD(4) [OF ok, of k f] by auto
  next
    fix k f
    assume kf: "(k, f) \<in> set (ft_calls ?s)"
    show "\<exists>j < length (ft_reqs ?s). ft_reqs ?s ! j = (k, Loading f)"
    proof (cases "(k, f) = (key, ?f)")
      case True
      then show ?thesis using i at [OF i(1)] by (intro exI [of _ i]) simp
    next
      case False
      then obtain j where j: "j < length (ft_reqs s)" "ft_reqs s ! j = (k, Loading f)"
        using flights_okD(5) [OF ok, of k f] kf by auto
      then have "j \<noteq> i" using old by auto
      then show ?thesis using j at [OF j(1)] by (intro exI [of _ j]) simp
    qed
  next
    fix j f
    assume "j < length (ft_reqs ?s)" "snd (ft_reqs ?s ! j) = Loading f"
    then show "(fst (ft_reqs ?s ! j), f) \<in> set (ft_calls ?s)"
      using flights_okD(6) [OF ok, of j f] at [of j] by (cases "j = i") simp_all
  next
    fix j l f
    assume "j < length (ft_reqs ?s)" "snd (ft_reqs ?s ! j) = Loading f"
      and "l < length (ft_reqs ?s)" "snd (ft_reqs ?s ! l) = Loading f"
    then show "l = j"
      using flights_okD(7) [OF ok, of j f l] at [of j] at [of l] nofresh [of j] nofresh [of l]
      by (cases "j = i"; cases "l = i") simp_all
  next
    fix j f
    assume "j < length (ft_reqs ?s)" "snd (ft_reqs ?s ! j) = Waiting f"
    then show "f \<in> set (ft_closed ?s) \<or> (fst (ft_reqs ?s ! j), f) \<in> set (ft_calls ?s)"
      using flights_okD(8) [OF ok, of j f] at [of j] by (cases "j = i") auto
  next
    fix f
    assume "f \<in> set (ft_closed ?s)"
    then show "f < ft_fresh ?s" using flights_okD(9) [OF ok, of f] by simp
  qed
qed

lemma flights_ok_close:
  assumes ok: "flights_ok s" and i: "i < length (ft_reqs s)" "ft_reqs s ! i = (key, Loading call)"
    and new: "\<forall>f. st \<noteq> Loading f" "\<forall>f. st \<noteq> Waiting f"
  shows "flights_ok (set_req (s\<lparr>ft_calls := AList.delete key (ft_calls s), ft_closed := call # ft_closed s\<rparr>) i st)"
proof -
  let ?t = "s\<lparr>ft_calls := AList.delete key (ft_calls s), ft_closed := call # ft_closed s\<rparr>"
  let ?s = "set_req ?t i st"
  have own: "(key, call) \<in> set (ft_calls s)" using flights_okD(6) [OF ok i(1), of call] i(2) by simp
  have keyf: "f = call" if "(key, f) \<in> set (ft_calls s)" for f
    using eq_key_imp_eq_value [OF flights_okD(1) [OF ok] that own] .
  have keyk: "k = key" if "(k, call) \<in> set (ft_calls s)" for k
    using flights_okD(5) [OF ok that] flights_okD(7) [OF ok i(1), of call] i(2) by force
  have calls: "(k, f) \<in> set (AList.delete key (ft_calls s)) \<longleftrightarrow> (k, f) \<in> set (ft_calls s) \<and> k \<noteq> key" for k f
    by (auto simp: AList.delete_eq)
  have at: "ft_reqs ?s ! j = (if j = i then (key, st) else ft_reqs s ! j)" if "j < length (ft_reqs s)" for j
    using that i(2) by (simp add: req_of_set_req)
  have load: "j \<noteq> i \<and> snd (ft_reqs s ! j) = Loading f \<and> ft_reqs ?s ! j = ft_reqs s ! j"
    if "j < length (ft_reqs s)" "snd (ft_reqs ?s ! j) = Loading f" for j f
    using that new at [OF that(1)] by (simp split: if_splits)
  show ?thesis
  proof (rule flights_okI)
    show "distinct (map fst (ft_calls ?s))" using flights_okD(1) [OF ok] by (simp add: AList.distinct_delete)
    show "distinct (map snd (ft_calls ?s))"
      using flights_okD(2) [OF ok] by (simp add: AList.delete_eq distinct_map_filter)
  next
    fix k f
    assume "(k, f) \<in> set (ft_calls ?s)"
    then show "f < ft_fresh ?s \<and> f \<notin> set (ft_closed ?s)"
      using flights_okD(3) [OF ok, of k f] flights_okD(4) [OF ok, of k f] keyk [of k] by (auto simp: calls)
  next
    fix k f
    assume "(k, f) \<in> set (ft_calls ?s)"
    then have kf: "(k, f) \<in> set (ft_calls s)" "k \<noteq> key" by (simp_all add: calls)
    then obtain j where j: "j < length (ft_reqs s)" "ft_reqs s ! j = (k, Loading f)"
      using flights_okD(5) [OF ok, of k f] by auto
    then have "j \<noteq> i" using kf(2) i(2) by auto
    then show "\<exists>j < length (ft_reqs ?s). ft_reqs ?s ! j = (k, Loading f)"
      using j at [OF j(1)] by (intro exI [of _ j]) simp
  next
    fix j f
    assume j: "j < length (ft_reqs ?s)" "snd (ft_reqs ?s ! j) = Loading f"
    then have l: "j \<noteq> i" "snd (ft_reqs s ! j) = Loading f" "ft_reqs ?s ! j = ft_reqs s ! j" using load by simp_all
    then have kf: "(fst (ft_reqs s ! j), f) \<in> set (ft_calls s)" using flights_okD(6) [OF ok, of j f] j by simp
    moreover have "fst (ft_reqs s ! j) \<noteq> key"
      using kf keyf flights_okD(7) [OF ok i(1), of call j] l(1,2) i(2) j(1) by auto
    ultimately show "(fst (ft_reqs ?s ! j), f) \<in> set (ft_calls ?s)" using l(3) by (simp add: calls)
  next
    fix j l f
    assume "j < length (ft_reqs ?s)" "snd (ft_reqs ?s ! j) = Loading f"
      and "l < length (ft_reqs ?s)" "snd (ft_reqs ?s ! l) = Loading f"
    then show "l = j" using flights_okD(7) [OF ok, of j f l] load [of j f] load [of l f] by simp
  next
    fix j f
    assume "j < length (ft_reqs ?s)" "snd (ft_reqs ?s ! j) = Waiting f"
    then have "j < length (ft_reqs s)" "ft_reqs ?s ! j = ft_reqs s ! j" "snd (ft_reqs s ! j) = Waiting f"
      using at [of j] new by (simp_all split: if_splits)
    then show "f \<in> set (ft_closed ?s) \<or> (fst (ft_reqs ?s ! j), f) \<in> set (ft_calls ?s)"
      using flights_okD(8) [OF ok, of j f] keyf [of f] by (auto simp: calls)
  next
    fix f
    assume "f \<in> set (ft_closed ?s)"
    then show "f < ft_fresh ?s" using flights_okD(9) [OF ok, of f] flights_okD(3) [OF ok own] by auto
  qed
qed

lemma flights_ok_arrive:
  assumes ok: "flights_ok s"
  shows "flights_ok (s\<lparr>ft_reqs := ft_reqs s @ [(key, Arrived)]\<rparr>)"
proof -
  let ?s = "s\<lparr>ft_reqs := ft_reqs s @ [(key, Arrived)]\<rparr>"
  have at: "ft_reqs ?s ! j = (if j < length (ft_reqs s) then ft_reqs s ! j else (key, Arrived))"
    if "j < length (ft_reqs ?s)" for j using that by (simp add: nth_append)
  have old: "j < length (ft_reqs s) \<and> ft_reqs ?s ! j = ft_reqs s ! j"
    if "j < length (ft_reqs ?s)" "snd (ft_reqs ?s ! j) \<noteq> Arrived" for j
    using that(2) at [OF that(1)] by (simp split: if_splits)
  show ?thesis
  proof (rule flights_okI)
    fix k f
    assume "(k, f) \<in> set (ft_calls ?s)"
    then show "\<exists>j < length (ft_reqs ?s). ft_reqs ?s ! j = (k, Loading f)"
      using flights_okD(5) [OF ok, of k f] by (auto simp: nth_append less_Suc_eq)
  next
    fix j l f
    assume "j < length (ft_reqs ?s)" "snd (ft_reqs ?s ! j) = Loading f"
      and "l < length (ft_reqs ?s)" "snd (ft_reqs ?s ! l) = Loading f"
    then show "l = j" using flights_okD(7) [OF ok, of j f l] old [of j] old [of l] by simp
  next
    fix j f
    assume "j < length (ft_reqs ?s)" "snd (ft_reqs ?s ! j) = Loading f"
    then show "(fst (ft_reqs ?s ! j), f) \<in> set (ft_calls ?s)"
      using flights_okD(6) [OF ok, of j f] old [of j] by simp
  next
    fix j f
    assume "j < length (ft_reqs ?s)" "snd (ft_reqs ?s ! j) = Waiting f"
    then show "f \<in> set (ft_closed ?s) \<or> (fst (ft_reqs ?s ! j), f) \<in> set (ft_calls ?s)"
      using flights_okD(8) [OF ok, of j f] old [of j] by simp
  next
    fix k f
    assume "(k, f) \<in> set (ft_calls ?s)"
    then show "f < ft_fresh ?s \<and> f \<notin> set (ft_closed ?s)"
      using flights_okD(3) [OF ok, of k f] flights_okD(4) [OF ok, of k f] by simp
  qed (simp_all add: flights_okD(1,2,9) [OF ok])
qed

section \<open>Progress\<close>

text \<open>How many critical sections a request may still pass.\<close>

fun todo :: "'v req_state \<Rightarrow> nat" where
  "todo Arrived = 3"
| "todo Entering = 2"
| "todo (Waiting f) = 1"
| "todo (Loading f) = 1"
| "todo (Finished r) = 0"

definition pending :: "('c, 'v) flights \<Rightarrow> nat" where
  "pending s = sum_list (map (\<lambda>r. todo (snd r)) (ft_reqs s))"




lemma pending_set_req:
  assumes "i < length (ft_reqs s)" "todo st < todo (snd (ft_reqs s ! i))"
  shows "pending (set_req s i st) < pending s"
proof -
  let ?f = "\<lambda>r. todo (snd r)"
  have "?f (ft_reqs s ! i) \<le> sum_list (map ?f (ft_reqs s))"
    using assms(1) elem_le_sum_list [of i "map ?f (ft_reqs s)"] by simp
  then have "sum_list (map ?f ((ft_reqs s)[i := (fst (ft_reqs s ! i), st)])) + ?f (ft_reqs s ! i) =
      sum_list (map ?f (ft_reqs s)) + todo st"
    using assms(1) by (simp add: map_update sum_list_update)
  then show ?thesis using assms(2) by (simp add: pending_def set_req_def)
qed

lemma pending_cong: "ft_reqs s = ft_reqs t \<Longrightarrow> pending s = pending t"
  by (simp add: pending_def)

text \<open>Every step of a request brings it closer to its end, whatever the cache does.\<close>

lemma req_step_pending: "req_step get put s s' \<Longrightarrow> pending s' < pending s"
proof (induction rule: req_step.induct)
  case (Fast i s s')
  then obtain v c where "s' = set_req (s\<lparr>ft_lru := c\<rparr>) i (case v of Some tch \<Rightarrow> Finished (Resident tch) | None \<Rightarrow> Entering)"
    by (auto simp: fast_path_def go_bind_Ret_iff)
  then show ?case using Fast pending_set_req [of i "s\<lparr>ft_lru := c\<rparr>"] pending_cong [of "s\<lparr>ft_lru := c\<rparr>" s]
    by (auto split: option.split)
next
  case (Enter i s s')
  then obtain t st where "s' = set_req t i st" "ft_reqs t = ft_reqs s" "todo st < 2"
    by (fastforce simp: enter_def Let_def go_bind_Ret_iff split: option.splits)
  then show ?case using Enter pending_set_req [of i t st] pending_cong [of t s] by simp
next
  case (Finish i s call r s')
  then obtain t res where "s' = set_req t i (Finished res)" "ft_reqs t = ft_reqs s"
    by (fastforce simp: finish_def Let_def go_bind_Ret_iff)
  then show ?case using Finish pending_set_req [of i t] pending_cong [of t s] by simp
next
  case (Wake i s call s')
  then obtain t res where "s' = set_req t i (Finished res)" "ft_reqs t = ft_reqs s"
    by (fastforce simp: wake_def go_bind_Ret_iff)
  then show ?case using Wake pending_set_req [of i t] pending_cong [of t s] by simp
next
  case (Cancel i s call s')
  then show ?case using pending_set_req [of i s] by simp
qed

section \<open>Flights over any cache that keeps its contract\<close>

text \<open>The contract at the type the flight table uses it: hosts are strings.\<close>

locale handler_cache = recency_cache get put delete entries cap invar
  for get :: "'c \<Rightarrow> string \<Rightarrow> ('v option \<times> 'c) go"
    and put :: "'c \<Rightarrow> string \<Rightarrow> 'v \<Rightarrow> 'c go"
    and delete :: "'c \<Rightarrow> string \<Rightarrow> (bool \<times> 'c) go"
    and entries :: "'c \<Rightarrow> (string \<times> 'v) list"
    and cap :: "'c \<Rightarrow> nat"
    and invar :: "'c \<Rightarrow> bool"
begin

lemma publish_ok:
  assumes "invar c"
  shows "\<exists>d. (case r of Inr (Some tch) \<Rightarrow> put c k tch | _ \<Rightarrow> Ret c) = Ret d \<and> invar d"
proof (cases "\<exists>tch. r = Inr (Some tch)")
  case True
  then obtain tch where "r = Inr (Some tch)" by blast
  then show ?thesis using put_spec [OF assms, of k tch] by auto
next
  case False
  then show ?thesis using assms by (auto split: sum.split option.split)
qed

lemma req_step_ok:
  assumes "req_step get put s s'" "invar (ft_lru s)" "flights_ok s"
  shows "invar (ft_lru s') \<and> flights_ok s'"
  using assms
proof (induction rule: req_step.induct)
  case (Fast i s s')
  then obtain v c where "invar c" "s' = set_req (s\<lparr>ft_lru := c\<rparr>) i (case v of Some tch \<Rightarrow> Finished (Resident tch) | None \<Rightarrow> Entering)"
    using get_spec [of "ft_lru s" "fst (ft_reqs s ! i)"] by (auto simp: fast_path_def go_bind_Ret_iff)
  then show ?case using Fast flights_ok_quiet [of "s\<lparr>ft_lru := c\<rparr>" i] by (auto split: option.split)
next
  case (Enter i s s')
  obtain v c where g: "get (ft_lru s) (fst (ft_reqs s ! i)) = Ret (v, c)" "invar c"
    using get_spec [OF Enter.prems(1)] by blast
  let ?s = "s\<lparr>ft_lru := c\<rparr>" and ?k = "fst (ft_reqs s ! i)"
  consider tch where "v = Some tch" | f where "v = None" "map_of (ft_calls s) ?k = Some f"
    | "v = None" "map_of (ft_calls s) ?k = None" by (cases v; cases "map_of (ft_calls s) ?k") auto
  then show ?case
  proof cases
    case 1
    then have "s' = set_req ?s i (Finished (Handler tch))" using Enter(3) g(1) by (simp add: enter_def Let_def)
    then show ?thesis using Enter g(2) flights_ok_quiet [of ?s i "Finished (Handler tch)"] by simp
  next
    case 2
    then have "s' = set_req ?s i (Waiting f)" using Enter(3) g(1) by (simp add: enter_def Let_def)
    then show ?thesis using Enter g(2) flights_ok_quiet [of ?s i "Waiting f"] map_of_SomeD [OF 2(2)] by simp
  next
    case 3
    then have "s' = set_req (?s\<lparr>ft_calls := (?k, ft_fresh ?s) # ft_calls ?s, ft_fresh := Suc (ft_fresh ?s)\<rparr>) i
        (Loading (ft_fresh ?s))" using Enter(3) g(1) by (simp add: enter_def Let_def)
    then show ?thesis using Enter g(2) 3 flights_ok_open [of ?s i ?k] by simp
  qed
next
  case (Finish i s call r s')
  let ?k = "fst (ft_reqs s ! i)"
  obtain c where c: "(case runLoad r of Inr (Some tch) \<Rightarrow> put (ft_lru s) ?k tch | _ \<Rightarrow> Ret (ft_lru s)) = Ret c" "invar c"
    using publish_ok [OF Finish.prems(1)] by blast
  obtain res where "s' = set_req ((s\<lparr>ft_lru := c\<rparr>)\<lparr>ft_calls := AList.delete ?k (ft_calls (s\<lparr>ft_lru := c\<rparr>)),
      ft_closed := call # ft_closed (s\<lparr>ft_lru := c\<rparr>)\<rparr>) i (Finished res)"
    using Finish(3) c(1) by (auto simp: finish_def Let_def)
  then show ?case
    using Finish c(2) flights_ok_close [of "s\<lparr>ft_lru := c\<rparr>" i ?k call "Finished res"] by (auto simp: prod_eq_iff)
next
  case (Wake i s call s')
  then obtain res c where "invar c" "s' = set_req (s\<lparr>ft_lru := c\<rparr>) i (Finished res)"
    using get_spec [of "ft_lru s" "fst (ft_reqs s ! i)"] by (auto simp: wake_def go_bind_Ret_iff)
  then show ?case using Wake flights_ok_quiet [of "s\<lparr>ft_lru := c\<rparr>" i "Finished res"] by simp
next
  case (Cancel i s call s')
  then show ?case using flights_ok_quiet [of s i "Finished CtxError"] by simp
qed

lemma env_step_ok:
  assumes "env_step delete s s'" "invar (ft_lru s)" "flights_ok s"
  shows "invar (ft_lru s') \<and> flights_ok s'"
  using assms
proof (induction rule: env_step.induct)
  case (Arrive s key)
  have "flights_ok (s\<lparr>ft_reqs := ft_reqs s @ [(key, Arrived)]\<rparr>)" by (rule flights_ok_arrive [OF Arrive(2)])
  then show ?case using Arrive(1) by simp
next
  case (Invalidate s key b c)
  then show ?case using delete_spec [of "ft_lru s" key] by auto
qed

lemma reachable_ok:
  assumes "reachable get put delete lru s" "invar lru"
  shows "invar (ft_lru s) \<and> flights_ok s"
  using assms
proof (induction rule: reachable.induct)
  case Init
  then show ?case by simp
qed (use req_step_ok env_step_ok in blast)+

text \<open>A state with an unfinished request has a step: no request waits for a flight nobody ends.\<close>

lemma not_stuck:
  assumes "invar (ft_lru s)" "flights_ok s" "i < length (ft_reqs s)" "\<forall>r. snd (ft_reqs s ! i) \<noteq> Finished r"
  shows "\<exists>s'. req_step get put s s'"
proof -
  have load: "\<exists>s'. req_step get put s s'" if "j < length (ft_reqs s)" "snd (ft_reqs s ! j) = Loading f" for j f
  proof -
    have "\<exists>s'. finish put s j f LoadErr = Ret s'" by (simp add: finish_def runLoad_def)
    then show ?thesis using Finish [OF that] by blast
  qed
  have got: "\<exists>v c. get (ft_lru s) (fst (ft_reqs s ! i)) = Ret (v, c)" using get_spec [OF assms(1)] by blast
  show ?thesis
  proof (cases "snd (ft_reqs s ! i)")
    case Arrived
    have "\<exists>s'. fast_path get s i = Ret s'" using got by (auto simp: fast_path_def)
    then show ?thesis using Fast [OF assms(3) Arrived] by blast
  next
    case Entering
    have "\<exists>s'. enter get s i = Ret s'" using got by (auto simp: enter_def Let_def split: option.split)
    then show ?thesis using Enter [OF assms(3) Entering] by blast
  next
    case (Waiting f)
    have "\<exists>s'. wake get s i = Ret s'" using got by (auto simp: wake_def)
    moreover have "f \<in> set (ft_closed s) \<or> (\<exists>j < length (ft_reqs s). snd (ft_reqs s ! j) = Loading f)"
      using flights_okD(8) [OF assms(2,3) Waiting] flights_okD(5) [OF assms(2)] by (metis snd_conv)
    ultimately show ?thesis using Wake [OF assms(3) Waiting] load by blast
  next
    case (Loading f)
    then show ?thesis using load assms(3) by blast
  next
    case (Finished r)
    then show ?thesis using assms(4) by blast
  qed
qed

lemma all_finish:
  assumes "invar (ft_lru s)" "flights_ok s"
  shows "\<exists>s'. (req_step get put)\<^sup>*\<^sup>* s s' \<and> pending s' = 0"
  using assms
proof (induction "pending s" arbitrary: s rule: less_induct)
  case less
  show ?case
  proof (cases "pending s = 0")
    case False
    then obtain r where "r \<in> set (ft_reqs s)" "todo (snd r) \<noteq> 0" by (auto simp: pending_def sum_list_eq_0_iff)
    then obtain i where "i < length (ft_reqs s)" "\<forall>r. snd (ft_reqs s ! i) \<noteq> Finished r"
      by (metis in_set_conv_nth todo.simps(5))
    then obtain s1 where s1: "req_step get put s s1" using not_stuck less.prems by blast
    then obtain s' where "(req_step get put)\<^sup>*\<^sup>* s1 s'" "pending s' = 0"
      using less.hyps [OF req_step_pending [OF s1]] req_step_ok [OF s1 less.prems] by blast
    then show ?thesis using s1 by (meson converse_rtranclp_into_rtranclp)
  qed blast
qed

end

section \<open>Flights over the LRU cache\<close>

interpretation hlru: handler_cache lru_Get lru_Put lru_Delete lru_abs capacity lru_invar
  by unfold_locales

text \<open>
  C8. Single flight: however requests, their cancellations, loads of any outcome and
  invalidations interleave, two requests never load the same host at the same
  time, and the loading request is the one the flight table names.
\<close>

theorem single_flight:
  assumes "reachable lru_Get lru_Put lru_Delete lru s" "lru_invar lru"
    and "i < length (ft_reqs s)" "ft_reqs s ! i = (key, Loading f)"
    and "j < length (ft_reqs s)" "ft_reqs s ! j = (key, Loading g)"
  shows "i = j \<and> map_of (ft_calls s) key = Some f"
proof -
  have ok: "flights_ok s" using hlru.reachable_ok [OF assms(1,2)] by blast
  have "(key, f) \<in> set (ft_calls s)" "(key, g) \<in> set (ft_calls s)"
    using flights_okD(6) [OF ok] assms(3-6) by (metis fst_conv snd_conv)+
  moreover from this have "f = g" using eq_key_imp_eq_value [OF flights_okD(1) [OF ok]] by blast
  ultimately show ?thesis
    using flights_okD(7) [OF ok assms(3), of f j] assms(4-6) flights_okD(1) [OF ok] by simp
qed


text \<open>The LRU cache of a new flight table, and three requests for one host that arrive at once.\<close>

definition one_load :: "((string, nat) LRUCache, nat) flights" where
  "one_load = \<lparr>ft_lru = NewLRUCache 2, ft_calls = [(''h'', 0)], ft_closed = [], ft_fresh = 1,
     ft_reqs = [(''h'', Loading 0), (''h'', Waiting 0)]\<rparr>"

lemma get_new: "lru_Get (NewLRUCache n) k = Ret (None, NewLRUCache n)"
  by (simp add: lru_Get_def NewLRUCache_def)

lemma reachable_one_load: "reachable lru_Get lru_Put lru_Delete (NewLRUCache 2) one_load"
proof -
  let ?c = "NewLRUCache 2 :: (string, nat) LRUCache" and ?R = "reachable lru_Get lru_Put lru_Delete (NewLRUCache 2)"
  let ?s = "\<lambda>calls n rs. \<lparr>ft_lru = ?c, ft_calls = calls, ft_closed = [], ft_fresh = n, ft_reqs = rs\<rparr>"
  have "?R (?s [] 0 [])" using Init [of lru_Get lru_Put lru_Delete ?c] by (simp add: NewFlightTable_def)
  then have "?R (?s [] 0 [(''h'', Arrived)])" by (rule Env) (use Arrive [of lru_Delete "?s [] 0 []" "''h''"] in simp)
  then have "?R (?s [] 0 [(''h'', Arrived), (''h'', Arrived)])"
    by (rule Env) (use Arrive [of lru_Delete "?s [] 0 [(''h'', Arrived)]" "''h''"] in simp)
  then have "?R (?s [] 0 [(''h'', Entering), (''h'', Arrived)])"
    by (rule Req) (rule Fast [of 0], simp_all add: fast_path_def get_new set_req_def)
  then have "?R (?s [] 0 [(''h'', Entering), (''h'', Entering)])"
    by (rule Req) (rule Fast [of 1], simp_all add: fast_path_def get_new set_req_def)
  then have "?R (?s [(''h'', 0)] 1 [(''h'', Loading 0), (''h'', Entering)])"
    by (rule Req) (rule Enter [of 0], simp_all add: enter_def Let_def get_new set_req_def)
  then have "?R (?s [(''h'', 0)] 1 [(''h'', Loading 0), (''h'', Waiting 0)])"
    by (rule Req) (rule Enter [of 1], simp_all add: enter_def Let_def get_new set_req_def)
  then show ?thesis by (simp add: one_load_def)
qed

theorem single_flight_witness:
  "map_of (ft_calls one_load) ''h'' = Some 0 \<and> reachable lru_Get lru_Put lru_Delete (NewLRUCache 2) one_load"
  using single_flight [OF reachable_one_load lru_invar_New(1), of 0 "''h''" 0 0 0] reachable_one_load
  by (simp add: one_load_def)


text \<open>
  Followers share the load: when the owner of a flight loads a handler, every
  request that waits for that flight and wakes next is given this handler.
\<close>

theorem follower_gets_handler:
  assumes "reachable lru_Get lru_Put lru_Delete lru s" "lru_invar lru"
    and "i < length (ft_reqs s)" "ft_reqs s ! i = (key, Loading f)"
    and "j < length (ft_reqs s)" "ft_reqs s ! j = (key, Waiting f)"
  shows "\<exists>s1 s2. finish lru_Put s i f (LoadOk (Some tch)) = Ret s1 \<and> wake lru_Get s1 j = Ret s2 \<and>
    ft_reqs s2 ! i = (key, Finished (Handler tch)) \<and> ft_reqs s2 ! j = (key, Finished (Handler tch)) \<and>
    map_of (ft_calls s2) key = None"
proof -
  have ok: "lru_invar (ft_lru s)" using hlru.reachable_ok [OF assms(1,2)] by blast
  have ne: "i \<noteq> j" using assms(4,6) by auto
  obtain c where c: "lru_Put (ft_lru s) key tch = Ret c" "lru_invar c" using lru.put_spec [OF ok] by blast
  obtain d where d: "lru_Get c key = Ret (Some tch, d)" using lru.get_after_put [OF ok c(1)] by blast
  show ?thesis
    using c d assms(3-6) ne
    by (simp add: finish_def wake_def runLoad_def set_req_def AList.delete_conv')
qed

theorem follower_gets_handler_witness:
  "\<exists>s1 s2. finish lru_Put one_load 0 0 (LoadOk (Some 7)) = Ret s1 \<and> wake lru_Get s1 1 = Ret s2 \<and>
    ft_reqs s2 ! 1 = (''h'', Finished (Handler 7))"
  using follower_gets_handler [OF reachable_one_load lru_invar_New(1), of 0 "''h''" 0 1 7]
  by (auto simp: one_load_def)

end
