(* ===== verification/Transport.thy ===== *)
theory Transport
  imports Balancers Config
begin

text \<open>
  The upstream side of a request: the transports of \<open>internal/handler/transport.go\<close>,
  which choose an upstream, send the request and report its health, and what the
  sources use of \<open>httputil.ReverseProxy\<close>. The network is an argument: a function
  from the outgoing request to what comes back. Connection upgrades and trailers
  are left out, except that a 101 answer ends in the error handler, as it does in
  Go for a response body that cannot be written to.
\<close>

section \<open>Outgoing requests and answers\<close>

record out_request = request +
  out_Scheme :: string
  out_URLHost :: string

text \<open>
  What the network gives: an error, or status, headers, the body bytes that
  arrive, and whether the body then ended properly.
\<close>

datatype answer = NetError | Answered int header "byte list" bool

datatype transport_error = NoHealthyUpstreams | Unreachable | BodyReadError | BodyTooLarge

record upstream_response =
  ur_status :: int
  ur_header :: header
  ur_body :: "byte list"

section \<open>Response headers that identify the upstream\<close>

definition upstreamIdentityHeaders :: "string list" where
  "upstreamIdentityHeaders =
     [''Server'', ''Via'', ''Age'', ''X-Powered-By'', ''X-Cache'', ''X-Cache-Hits'', ''X-Cache-Status'',
      ''X-Served-By'', ''X-Backend-Server'', ''X-Backend-Host'', ''Cf-Ray'', ''Cf-Cache-Status'', ''Cf-Worker'']"

definition sanitizeResponseHeaders :: "header \<Rightarrow> header" where
  "sanitizeResponseHeaders hdr = Header_Set (foldl Header_Del hdr upstreamIdentityHeaders) ''Server'' ''peretum''"

section \<open>The capturing transport\<close>

definition maxBodyReadSize :: int where
  "maxBodyReadSize = 50 * 2 ^ 20"

record capture =
  ct_statusCode :: int
  ct_headers :: header
  ct_body :: "byte list"
  ct_selectedUpstream :: string

definition new_capture :: capture where
  "new_capture = \<lparr>ct_statusCode = 0, ct_headers = [], ct_body = [], ct_selectedUpstream = ''''\<rparr>"

text \<open>The request pointed at the selected upstream.\<close>

definition retarget :: "string \<Rightarrow> out_request \<Rightarrow> out_request" where
  "retarget targetURL req =
     (case Cut targetURL ''://'' of
        Some (scheme, rest) \<Rightarrow> req\<lparr>out_Scheme := scheme, out_URLHost := rest\<rparr>
      | None \<Rightarrow> req)"

text \<open>The choice of the upstream; None when there is none.\<close>

definition select_upstream ::
  "('b \<Rightarrow> request \<Rightarrow> (nat option \<times> 'b) go) \<Rightarrow> ('b \<Rightarrow> upstream list) \<Rightarrow> string \<Rightarrow> out_request \<Rightarrow> 'b \<Rightarrow>
   ((string \<times> out_request) option \<times> 'b) go" where
  "select_upstream nxt ups pinned req b =
     (if pinned \<noteq> '''' then Ret (Some (pinned, req), b)
      else
        go_bind (nxt b (request.truncate req)) (\<lambda>(c, b').
          case c of
            None \<Rightarrow> Ret (None, b')
          | Some i \<Rightarrow>
              go_bind (go_index (ups b') i) (\<lambda>u.
                Ret (Some (URL u, retarget (URL u) req), b'))))"

text \<open>The body as the limited reader delivers it: a limit below 0 is no limit.\<close>

definition read_body :: "int \<Rightarrow> byte list \<Rightarrow> bool \<Rightarrow> (transport_error, byte list) result" where
  "read_body limit body ended =
     (if limit \<ge> 0 \<and> int (length body) > limit then Inl BodyTooLarge
      else if \<not> ended then Inl BodyReadError
      else Inr body)"

definition capturing_RoundTrip ::
  "('b \<Rightarrow> request \<Rightarrow> (nat option \<times> 'b) go) \<Rightarrow> ('b \<Rightarrow> string \<Rightarrow> bool \<Rightarrow> int \<Rightarrow> 'b) \<Rightarrow> ('b \<Rightarrow> upstream list) \<Rightarrow>
   string \<Rightarrow> int \<Rightarrow> (out_request \<Rightarrow> answer) \<Rightarrow> int \<Rightarrow> out_request \<Rightarrow> 'b \<Rightarrow>
   ((transport_error, upstream_response) result \<times> capture \<times> 'b) go" where
  "capturing_RoundTrip nxt mark ups pinned maxBodySize send now req b =
     go_bind (select_upstream nxt ups pinned req b) (\<lambda>(sel, b1).
       case sel of
         None \<Rightarrow> Ret (Inl NoHealthyUpstreams, new_capture, b1)
       | Some (targetURL, outReq) \<Rightarrow>
           (let cap = new_capture\<lparr>ct_selectedUpstream := targetURL\<rparr> in
            case send outReq of
              NetError \<Rightarrow> Ret (Inl Unreachable, cap, mark b1 targetURL False now)
            | Answered status hdr body ended \<Rightarrow>
                (let cap1 = cap\<lparr>ct_statusCode := status, ct_headers := hdr\<rparr>;
                     limit = (if maxBodySize = 0 then maxBodyReadSize else maxBodySize)
                 in case read_body limit body ended of
                      Inl e \<Rightarrow> Ret (Inl e, cap1, mark b1 targetURL False now)
                    | Inr body' \<Rightarrow>
                        (let hdr' = sanitizeResponseHeaders hdr in
                         Ret (Inr \<lparr>ur_status = status, ur_header = hdr', ur_body = body'\<rparr>,
                              cap1\<lparr>ct_headers := hdr', ct_body := body'\<rparr>,
                              mark b1 targetURL True now)))))"

section \<open>The gRPC transport\<close>

definition grpc_RoundTrip ::
  "('b \<Rightarrow> request \<Rightarrow> (nat option \<times> 'b) go) \<Rightarrow> ('b \<Rightarrow> string \<Rightarrow> bool \<Rightarrow> int \<Rightarrow> 'b) \<Rightarrow> ('b \<Rightarrow> upstream list) \<Rightarrow>
   string \<Rightarrow> (out_request \<Rightarrow> answer) \<Rightarrow> int \<Rightarrow> out_request \<Rightarrow> 'b \<Rightarrow>
   ((transport_error, upstream_response) result \<times> 'b) go" where
  "grpc_RoundTrip nxt mark ups pinned send now req b =
     go_bind (select_upstream nxt ups pinned req b) (\<lambda>(sel, b1).
       case sel of
         None \<Rightarrow> Ret (Inl NoHealthyUpstreams, b1)
       | Some (targetURL, outReq) \<Rightarrow>
           (case send outReq of
              NetError \<Rightarrow> Ret (Inl Unreachable, mark b1 targetURL False now)
            | Answered status hdr body ended \<Rightarrow>
                Ret (Inr \<lparr>ur_status = status, ur_header = hdr, ur_body = body\<rparr>, mark b1 targetURL True now)))"

definition grpcContentTypePrefix :: string where
  "grpcContentTypePrefix = ''application/grpc''"

definition isGRPCRequest :: "request \<Rightarrow> bool" where
  "isGRPCRequest r = HasPrefix (Header_Get (Header r) ''Content-Type'') grpcContentTypePrefix"

section \<open>The reverse proxy of the standard library\<close>

definition header_tokens :: "string list \<Rightarrow> string list" where
  "header_tokens vs = filter (\<lambda>t. t \<noteq> '''') (map TrimSpace (concat (map (\<lambda>v. SplitByte v (CHR '','')) vs)))"

definition hopHeaders :: "string list" where
  "hopHeaders =
     [''Connection'', ''Proxy-Connection'', ''Keep-Alive'', ''Proxy-Authenticate'', ''Proxy-Authorization'', ''Te'',
      ''Trailer'', ''Transfer-Encoding'', ''Upgrade'']"

definition removeHopByHopHeaders :: "header \<Rightarrow> header" where
  "removeHopByHopHeaders h =
     foldl Header_Del (foldl Header_Del h (header_tokens (case hdr_lookup h ''Connection'' of Some vs \<Rightarrow> vs | None \<Rightarrow> [])))
       hopHeaders"

text \<open>The copy of the request the \<open>Rewrite\<close> function of the proxy gets.\<close>

definition outgoing :: "request \<Rightarrow> out_request" where
  "outgoing r =
     request.extend
       (r\<lparr>Header := foldl Header_Del (removeHopByHopHeaders (Header r))
           [''Forwarded'', ''X-Forwarded-For'', ''X-Forwarded-Host'', ''X-Forwarded-Proto'']\<rparr>)
       (out_request.fields '''' '''')"

definition copyHeader :: "header \<Rightarrow> header \<Rightarrow> header" where
  "copyHeader dst src = foldl (\<lambda>h (k, vs). foldl (\<lambda>h v. Header_Add h k v) h vs) dst src"

definition ReverseProxy_ServeHTTP ::
  "(out_request \<Rightarrow> out_request go) \<Rightarrow> (out_request \<Rightarrow> 's \<Rightarrow> ((transport_error, upstream_response) result \<times> 's) go) \<Rightarrow>
   (upstream_response \<Rightarrow> upstream_response) \<Rightarrow> (response_writer \<Rightarrow> transport_error option \<Rightarrow> 's \<Rightarrow> response_writer \<times> 's) \<Rightarrow>
   response_writer \<Rightarrow> request \<Rightarrow> 's \<Rightarrow> (response_writer \<times> 's) go" where
  "ReverseProxy_ServeHTTP rewrite transport modify err w r s =
     go_bind (rewrite (outgoing r)) (\<lambda>out.
     go_bind (transport out s) (\<lambda>(res, s1).
       case res of
         Inl e \<Rightarrow> Ret (err w (Some e) s1)
       | Inr resp \<Rightarrow>
           if ur_status resp = 101 then Ret (err w None s1)
           else
             (let resp' = modify (resp\<lparr>ur_header := removeHopByHopHeaders (ur_header resp)\<rparr>) in
              Ret (Write (WriteHeader (w\<lparr>rw_header := copyHeader (rw_header w) (ur_header resp')\<rparr>) (ur_status resp'))
                     (ur_body resp'), s1))))"

end
