(* ===== verification/Plugins.thy ===== *)
theory Plugins
  imports Config
begin

text \<open>
  The plugin interfaces (\<open>plugins/base\<close>) and the plugin manager
  (\<open>internal/plugin/manager/manager.go\<close>). A plugin is a value of a type
  parameter, a pointer to it a position in the manager's list, so that the hook
  lists share the state of the plugins as the pointers of the code do. The
  interfaces a plugin may implement are a record of its methods; whether it
  implements one is a predicate, the type assertion of the code.
\<close>

section \<open>Configuration values\<close>

text \<open>Values of type \<open>any\<close>, with the dynamic types the sources put into a configuration.\<close>

datatype any =
    ABool bool
  | AInt int
  | AInt64 int
  | AFloat real
  | AString string
  | AList "any list"
  | AStrings "string list"
  | AInts "int list"
  | AMap "(string \<times> any) list"
  | AMaps "(string \<times> any) list list"
  | AStringMap "(string \<times> string) list"

type_synonym config = "(string \<times> any) list"

text \<open>The conversion of a \<open>float64\<close> to an integer truncates.\<close>

definition trunc :: "real \<Rightarrow> int" where
  "trunc x = (if x < 0 then \<lceil>x\<rceil> else \<lfloor>x\<rfloor>)"

definition GetBool :: "config \<Rightarrow> string \<Rightarrow> bool" where
  "GetBool c k = (case map_of c k of Some (ABool b) \<Rightarrow> b | _ \<Rightarrow> False)"

definition GetIntOrDefault :: "config \<Rightarrow> string \<Rightarrow> int \<Rightarrow> int" where
  "GetIntOrDefault c k dflt =
     (case map_of c k of Some (AInt i) \<Rightarrow> i | Some (AFloat x) \<Rightarrow> trunc x | _ \<Rightarrow> dflt)"

definition GetInt :: "config \<Rightarrow> string \<Rightarrow> int" where
  "GetInt c k = (case map_of c k of Some (AInt i) \<Rightarrow> i | Some (AFloat x) \<Rightarrow> trunc x | _ \<Rightarrow> 0)"

definition GetInt64 :: "config \<Rightarrow> string \<Rightarrow> int" where
  "GetInt64 c k =
     (case map_of c k of Some (AInt64 i) \<Rightarrow> i | Some (AFloat x) \<Rightarrow> trunc x | Some (AInt i) \<Rightarrow> i | _ \<Rightarrow> 0)"

definition GetString :: "config \<Rightarrow> string \<Rightarrow> string" where
  "GetString c k = (case map_of c k of Some (AString s) \<Rightarrow> s | _ \<Rightarrow> '''')"

definition string_items :: "any list \<Rightarrow> string list" where
  "string_items xs = concat (map (\<lambda>x. case x of AString s \<Rightarrow> [s] | _ \<Rightarrow> []) xs)"

definition GetStringSlice :: "config \<Rightarrow> string \<Rightarrow> string list" where
  "GetStringSlice c k =
     (case map_of c k of Some (AList xs) \<Rightarrow> string_items xs | Some (AStrings ss) \<Rightarrow> ss | _ \<Rightarrow> [])"

section \<open>The interfaces\<close>

text \<open>An error of a hook is its message. \<open>resp_status\<close> and \<open>resp_header\<close> are the response a hook sees.\<close>

type_synonym error = string

record response =
  resp_status :: int
  resp_header :: header

record 'p plugin_api =
  pl_Name :: "'p \<Rightarrow> string"
  pl_Init :: "'p \<Rightarrow> config \<Rightarrow> error option \<times> 'p"
  pl_Start :: "'p \<Rightarrow> error option \<times> 'p"
  pl_Stop :: "'p \<Rightarrow> error option \<times> 'p"
  is_RequestHook :: "'p \<Rightarrow> bool"
  BeforeProxy :: "'p \<Rightarrow> response_writer \<Rightarrow> request \<Rightarrow> string \<Rightarrow> string \<Rightarrow> error option \<times> response_writer \<times> request \<times> 'p"
  AfterProxy :: "'p \<Rightarrow> response_writer \<Rightarrow> request \<Rightarrow> string \<Rightarrow> string \<Rightarrow> response \<Rightarrow> error option \<times> response_writer \<times> 'p"
  is_ResponseBodyHook :: "'p \<Rightarrow> bool"
  TransformResponseBody :: "'p \<Rightarrow> string \<Rightarrow> string \<Rightarrow> string \<Rightarrow> byte list \<Rightarrow> (error, byte list) result \<times> 'p"
  is_CacheHook :: "'p \<Rightarrow> bool"
  BeforeCacheStore :: "'p \<Rightarrow> string \<Rightarrow> string \<Rightarrow> string \<Rightarrow> int \<Rightarrow> header \<Rightarrow> byte list \<Rightarrow> (error, byte list) result \<times> 'p"
  AfterCacheHit :: "'p \<Rightarrow> response_writer \<Rightarrow> request \<Rightarrow> string \<Rightarrow> string \<Rightarrow> string \<Rightarrow> error option \<times> response_writer \<times> 'p"
  ShouldCache :: "'p \<Rightarrow> string \<Rightarrow> string \<Rightarrow> int \<Rightarrow> header \<Rightarrow> byte list \<Rightarrow> bool"
  is_MetricsHook :: "'p \<Rightarrow> bool"
  RecordRequest :: "'p \<Rightarrow> string \<Rightarrow> string \<Rightarrow> string \<Rightarrow> bool \<Rightarrow> duration \<Rightarrow> 'p"
  RecordCacheHit :: "'p \<Rightarrow> string \<Rightarrow> string \<Rightarrow> 'p"
  RecordCacheMiss :: "'p \<Rightarrow> string \<Rightarrow> string \<Rightarrow> 'p"
  RecordCacheEviction :: "'p \<Rightarrow> 'p"
  RecordCacheExpiration :: "'p \<Rightarrow> 'p"
  is_ErrorHook :: "'p \<Rightarrow> bool"
  LogError :: "'p \<Rightarrow> string \<Rightarrow> string \<Rightarrow> string \<Rightarrow> string \<Rightarrow> string \<Rightarrow> 'p"

section \<open>The manager\<close>

record 'p PluginManager =
  pm_plugins :: "'p list"
  pm_requestHooks :: "nat list"
  pm_bodyHooks :: "nat list"
  pm_cacheHooks :: "nat list"
  pm_metricsHooks :: "nat list"
  pm_errorHooks :: "nat list"

definition NewPluginManager :: "'p PluginManager" where
  "NewPluginManager = \<lparr>pm_plugins = [], pm_requestHooks = [], pm_bodyHooks = [], pm_cacheHooks = [],
     pm_metricsHooks = [], pm_errorHooks = []\<rparr>"

definition RegisterPlugin :: "'p plugin_api \<Rightarrow> 'p PluginManager \<Rightarrow> 'p \<Rightarrow> 'p PluginManager" where
  "RegisterPlugin api pm p =
     (let n = length (pm_plugins pm) in
      \<lparr>pm_plugins = pm_plugins pm @ [p],
       pm_requestHooks = (if is_RequestHook api p then pm_requestHooks pm @ [n] else pm_requestHooks pm),
       pm_bodyHooks = (if is_ResponseBodyHook api p then pm_bodyHooks pm @ [n] else pm_bodyHooks pm),
       pm_cacheHooks = (if is_CacheHook api p then pm_cacheHooks pm @ [n] else pm_cacheHooks pm),
       pm_metricsHooks = (if is_MetricsHook api p then pm_metricsHooks pm @ [n] else pm_metricsHooks pm),
       pm_errorHooks = (if is_ErrorHook api p then pm_errorHooks pm @ [n] else pm_errorHooks pm)\<rparr>)"

definition GetPlugins :: "'p PluginManager \<Rightarrow> 'p list" where
  "GetPlugins pm = pm_plugins pm"

text \<open>
  The loops over hooks: call each on the plugin it points to, thread a value
  through, and stop at the first error.
\<close>

fun run_hooks ::
  "('p \<Rightarrow> 'a \<Rightarrow> error option \<times> 'a \<times> 'p) \<Rightarrow> nat list \<Rightarrow> 'a \<Rightarrow> 'p list \<Rightarrow> error option \<times> 'a \<times> 'p list" where
  "run_hooks call [] x ps = (None, x, ps)"
| "run_hooks call (h # hs) x ps =
     (case call (ps ! h) x of
        (Some e, x', p') \<Rightarrow> (Some e, x', ps[h := p'])
      | (None, x', p') \<Rightarrow> run_hooks call hs x' (ps[h := p']))"

text \<open>A call that cannot fail, in the form the loop takes it.\<close>

definition silent :: "('p \<Rightarrow> 'p) \<Rightarrow> 'p \<Rightarrow> unit \<Rightarrow> error option \<times> unit \<times> 'p" where
  "silent f p x = (None, x, f p)"

definition InitializePlugins :: "'p plugin_api \<Rightarrow> 'p PluginManager \<Rightarrow> (string \<times> config) list \<Rightarrow> error option \<times> 'p PluginManager" where
  "InitializePlugins api pm configs =
     (case run_hooks (\<lambda>p x. case pl_Init api p (case map_of configs (pl_Name api p) of Some c \<Rightarrow> c | None \<Rightarrow> []) of
                            (e, p') \<Rightarrow> (e, x, p'))
             [0..<length (pm_plugins pm)] () (pm_plugins pm) of
        (e, _, ps) \<Rightarrow> (e, pm\<lparr>pm_plugins := ps\<rparr>))"

definition StartPlugins :: "'p plugin_api \<Rightarrow> 'p PluginManager \<Rightarrow> error option \<times> 'p PluginManager" where
  "StartPlugins api pm =
     (case run_hooks (\<lambda>p x. case pl_Start api p of (e, p') \<Rightarrow> (e, x, p')) [0..<length (pm_plugins pm)] () (pm_plugins pm) of
        (e, _, ps) \<Rightarrow> (e, pm\<lparr>pm_plugins := ps\<rparr>))"

definition StopPlugins :: "'p plugin_api \<Rightarrow> 'p PluginManager \<Rightarrow> error option \<times> 'p PluginManager" where
  "StopPlugins api pm =
     (case run_hooks (\<lambda>p x. case pl_Stop api p of (e, p') \<Rightarrow> (e, x, p')) (rev [0..<length (pm_plugins pm)]) () (pm_plugins pm) of
        (e, _, ps) \<Rightarrow> (e, pm\<lparr>pm_plugins := ps\<rparr>))"

definition RunBeforeProxy ::
  "'p plugin_api \<Rightarrow> 'p PluginManager \<Rightarrow> response_writer \<Rightarrow> request \<Rightarrow> string \<Rightarrow> string \<Rightarrow>
   error option \<times> response_writer \<times> request \<times> 'p PluginManager" where
  "RunBeforeProxy api pm w r target loc =
     (case run_hooks (\<lambda>p (w, r). case BeforeProxy api p w r target loc of (e, w', r', p') \<Rightarrow> (e, (w', r'), p'))
             (pm_requestHooks pm) (w, r) (pm_plugins pm) of
        (e, (w', r'), ps) \<Rightarrow> (e, w', r', pm\<lparr>pm_plugins := ps\<rparr>))"

definition RunAfterProxy ::
  "'p plugin_api \<Rightarrow> 'p PluginManager \<Rightarrow> response_writer \<Rightarrow> request \<Rightarrow> string \<Rightarrow> string \<Rightarrow> response \<Rightarrow>
   error option \<times> response_writer \<times> 'p PluginManager" where
  "RunAfterProxy api pm w r target loc resp =
     (case run_hooks (\<lambda>p w. AfterProxy api p w r target loc resp) (pm_requestHooks pm) w (pm_plugins pm) of
        (e, w', ps) \<Rightarrow> (e, w', pm\<lparr>pm_plugins := ps\<rparr>))"

text \<open>The two hooks that pass a body on: an error is returned without a body.\<close>

definition body_call ::
  "('p \<Rightarrow> byte list \<Rightarrow> (error, byte list) result \<times> 'p) \<Rightarrow> 'p \<Rightarrow> byte list \<Rightarrow> error option \<times> byte list \<times> 'p" where
  "body_call f p body = (case f p body of (Inl e, p') \<Rightarrow> (Some e, body, p') | (Inr b, p') \<Rightarrow> (None, b, p'))"

definition run_body ::
  "('p \<Rightarrow> byte list \<Rightarrow> (error, byte list) result \<times> 'p) \<Rightarrow> nat list \<Rightarrow> byte list \<Rightarrow> 'p PluginManager \<Rightarrow>
   (error, byte list) result \<times> 'p PluginManager" where
  "run_body f hooks body pm =
     (case run_hooks (body_call f) hooks body (pm_plugins pm) of
        (Some e, _, ps) \<Rightarrow> (Inl e, pm\<lparr>pm_plugins := ps\<rparr>)
      | (None, b, ps) \<Rightarrow> (Inr b, pm\<lparr>pm_plugins := ps\<rparr>))"

definition RunTransformResponseBody ::
  "'p plugin_api \<Rightarrow> 'p PluginManager \<Rightarrow> string \<Rightarrow> string \<Rightarrow> string \<Rightarrow> byte list \<Rightarrow>
   (error, byte list) result \<times> 'p PluginManager" where
  "RunTransformResponseBody api pm target loc contentType body =
     run_body (\<lambda>p b. TransformResponseBody api p target loc contentType b) (pm_bodyHooks pm) body pm"

definition RunBeforeCacheStore ::
  "'p plugin_api \<Rightarrow> 'p PluginManager \<Rightarrow> string \<Rightarrow> string \<Rightarrow> string \<Rightarrow> int \<Rightarrow> header \<Rightarrow> byte list \<Rightarrow>
   (error, byte list) result \<times> 'p PluginManager" where
  "RunBeforeCacheStore api pm key target loc statusCode headers body =
     run_body (\<lambda>p b. BeforeCacheStore api p key target loc statusCode headers b) (pm_cacheHooks pm) body pm"

definition RunAfterCacheHit ::
  "'p plugin_api \<Rightarrow> 'p PluginManager \<Rightarrow> response_writer \<Rightarrow> request \<Rightarrow> string \<Rightarrow> string \<Rightarrow> string \<Rightarrow>
   error option \<times> response_writer \<times> 'p PluginManager" where
  "RunAfterCacheHit api pm w r key target loc =
     (case run_hooks (\<lambda>p w. AfterCacheHit api p w r key target loc) (pm_cacheHooks pm) w (pm_plugins pm) of
        (e, w', ps) \<Rightarrow> (e, w', pm\<lparr>pm_plugins := ps\<rparr>))"

definition RunShouldCache ::
  "'p plugin_api \<Rightarrow> 'p PluginManager \<Rightarrow> string \<Rightarrow> string \<Rightarrow> int \<Rightarrow> header \<Rightarrow> byte list \<Rightarrow> bool" where
  "RunShouldCache api pm target loc statusCode headers body =
     list_all (\<lambda>h. ShouldCache api (pm_plugins pm ! h) target loc statusCode headers body) (pm_cacheHooks pm)"

text \<open>The metrics and error hooks cannot fail.\<close>

definition run_silent :: "('p \<Rightarrow> 'p) \<Rightarrow> nat list \<Rightarrow> 'p PluginManager \<Rightarrow> 'p PluginManager" where
  "run_silent f hooks pm =
     (case run_hooks (silent f) hooks () (pm_plugins pm) of (_, _, ps) \<Rightarrow> pm\<lparr>pm_plugins := ps\<rparr>)"

definition RunRecordRequest ::
  "'p plugin_api \<Rightarrow> 'p PluginManager \<Rightarrow> string \<Rightarrow> string \<Rightarrow> string \<Rightarrow> bool \<Rightarrow> duration \<Rightarrow> 'p PluginManager" where
  "RunRecordRequest api pm target loc matchType cached d =
     run_silent (\<lambda>p. RecordRequest api p target loc matchType cached d) (pm_metricsHooks pm) pm"

definition RunRecordCacheHit :: "'p plugin_api \<Rightarrow> 'p PluginManager \<Rightarrow> string \<Rightarrow> string \<Rightarrow> 'p PluginManager" where
  "RunRecordCacheHit api pm target loc =
     run_silent (\<lambda>p. RecordCacheHit api p target loc) (pm_metricsHooks pm) pm"

definition RunRecordCacheMiss :: "'p plugin_api \<Rightarrow> 'p PluginManager \<Rightarrow> string \<Rightarrow> string \<Rightarrow> 'p PluginManager" where
  "RunRecordCacheMiss api pm target loc =
     run_silent (\<lambda>p. RecordCacheMiss api p target loc) (pm_metricsHooks pm) pm"

definition RunRecordCacheEviction :: "'p plugin_api \<Rightarrow> 'p PluginManager \<Rightarrow> 'p PluginManager" where
  "RunRecordCacheEviction api pm = run_silent (RecordCacheEviction api) (pm_metricsHooks pm) pm"

definition RunRecordCacheExpiration :: "'p plugin_api \<Rightarrow> 'p PluginManager \<Rightarrow> 'p PluginManager" where
  "RunRecordCacheExpiration api pm = run_silent (RecordCacheExpiration api) (pm_metricsHooks pm) pm"

definition RunLogError ::
  "'p plugin_api \<Rightarrow> 'p PluginManager \<Rightarrow> string \<Rightarrow> string \<Rightarrow> string \<Rightarrow> string \<Rightarrow> string \<Rightarrow> 'p PluginManager" where
  "RunLogError api pm level target loc requestID msg =
     run_silent (\<lambda>p. LogError api p level target loc requestID msg) (pm_errorHooks pm) pm"

section \<open>Request identifiers\<close>

text \<open>
  \<open>EnsureRequestID\<close>: the identifier the context of the request then carries;
  \<open>newRequestID\<close> encodes eight random bytes, or is the clock when there are none.
\<close>

definition newRequestID :: "(byte list) option \<Rightarrow> int \<Rightarrow> string" where
  "newRequestID random now =
     (case random of
        Some bs \<Rightarrow> concat (map (\<lambda>b. [''0123456789abcdef'' ! (unat b div 16), ''0123456789abcdef'' ! (unat b mod 16)]) bs)
      | None \<Rightarrow> show_int now)"

definition EnsureRequestID :: "request \<Rightarrow> (byte list) option \<Rightarrow> int \<Rightarrow> string" where
  "EnsureRequestID r random now =
     (let h = Header_Get (Header r) ''X-Request-ID'' in if h \<noteq> '''' then h else newRequestID random now)"

section \<open>Hooks run in the order of registration\<close>

text \<open>Reference definition: one pass over the plugins themselves.\<close>

fun seq_hooks ::
  "('p \<Rightarrow> bool) \<Rightarrow> ('p \<Rightarrow> 'a \<Rightarrow> error option \<times> 'a \<times> 'p) \<Rightarrow> 'p list \<Rightarrow> 'a \<Rightarrow> error option \<times> 'a \<times> 'p list" where
  "seq_hooks is_hook call [] x = (None, x, [])"
| "seq_hooks is_hook call (p # ps) x =
     (if is_hook p then
        (case call p x of
           (Some e, x', p') \<Rightarrow> (Some e, x', p' # ps)
         | (None, x', p') \<Rightarrow> (case seq_hooks is_hook call ps x' of (e, x'', ps') \<Rightarrow> (e, x'', p' # ps')))
      else (case seq_hooks is_hook call ps x of (e, x'', ps') \<Rightarrow> (e, x'', p # ps')))"

definition hooks_at :: "('p \<Rightarrow> bool) \<Rightarrow> 'p list \<Rightarrow> nat list" where
  "hooks_at is_hook ps = filter (\<lambda>i. is_hook (ps ! i)) [0..<length ps]"

lemma hooks_at_append:
  "hooks_at is_hook (ps @ [p]) = hooks_at is_hook ps @ (if is_hook p then [length ps] else [])"
proof -
  have "filter (\<lambda>i. is_hook ((ps @ [p]) ! i)) [0..<length ps] = filter (\<lambda>i. is_hook (ps ! i)) [0..<length ps]"
    by (rule filter_cong) (auto simp: nth_append)
  then show ?thesis by (simp add: hooks_at_def nth_append)
qed

lemma hooks_at_Cons:
  "hooks_at is_hook (p # ps) = (if is_hook p then [0] else []) @ map Suc (hooks_at is_hook ps)"
proof -
  have "[0..<length (p # ps)] = 0 # map Suc [0..<length ps]" by (simp add: map_Suc_upt upt_conv_Cons del: upt_Suc)
  then show ?thesis by (simp add: hooks_at_def filter_map comp_def)
qed

lemma run_hooks_seq:
  "run_hooks call (map ((+) (length pre)) (hooks_at is_hook ps)) x (pre @ ps) =
     (case seq_hooks is_hook call ps x of (e, x', ps') \<Rightarrow> (e, x', pre @ ps'))"
proof (induction ps arbitrary: pre x)
  case (Cons p ps)
  have shift: "(\<lambda>i. Suc (length pre + i)) = (+) (Suc (length pre))" by auto
  show ?case
  proof (cases "is_hook p")
    case True
    obtain e x' p' where c: "call p x = (e, x', p')" by (cases "call p x") auto
    show ?thesis
    proof (cases e)
      case None
      have "run_hooks call (map ((+) (length pre)) (hooks_at is_hook (p # ps))) x (pre @ p # ps) =
          run_hooks call (map ((+) (length (pre @ [p']))) (hooks_at is_hook ps)) x' ((pre @ [p']) @ ps)"
        using True c None unfolding hooks_at_Cons by (simp add: comp_def shift)
      also have "\<dots> = (case seq_hooks is_hook call ps x' of (e, x'', ps') \<Rightarrow> (e, x'', (pre @ [p']) @ ps'))"
        by (rule Cons.IH)
      finally show ?thesis using True c None by (simp split: prod.split)
    next
      case (Some err)
      then show ?thesis using True c by (simp add: hooks_at_Cons)
    qed
  next
    case False
    have "run_hooks call (map ((+) (length pre)) (hooks_at is_hook (p # ps))) x (pre @ p # ps) =
        run_hooks call (map ((+) (length (pre @ [p]))) (hooks_at is_hook ps)) x ((pre @ [p]) @ ps)"
      using False unfolding hooks_at_Cons by (simp add: comp_def shift)
    also have "\<dots> = (case seq_hooks is_hook call ps x of (e, x'', ps') \<Rightarrow> (e, x'', (pre @ [p]) @ ps'))"
      by (rule Cons.IH)
    finally show ?thesis using False by (simp split: prod.split)
  qed
qed (simp add: hooks_at_def)

lemma run_hooks_at: "run_hooks call (hooks_at is_hook ps) x ps = seq_hooks is_hook call ps x"
proof -
  have "map ((+) (length [])) (hooks_at is_hook ps) = hooks_at is_hook ps" by (rule map_idI) simp
  then show ?thesis using run_hooks_seq [of call "[]" is_hook ps x] by simp
qed

lemma RegisterPlugin_sel [simp]:
  "pm_plugins (RegisterPlugin api pm p) = pm_plugins pm @ [p]"
  "pm_requestHooks (RegisterPlugin api pm p) = pm_requestHooks pm @ (if is_RequestHook api p then [length (pm_plugins pm)] else [])"
  "pm_bodyHooks (RegisterPlugin api pm p) = pm_bodyHooks pm @ (if is_ResponseBodyHook api p then [length (pm_plugins pm)] else [])"
  "pm_cacheHooks (RegisterPlugin api pm p) = pm_cacheHooks pm @ (if is_CacheHook api p then [length (pm_plugins pm)] else [])"
  "pm_metricsHooks (RegisterPlugin api pm p) = pm_metricsHooks pm @ (if is_MetricsHook api p then [length (pm_plugins pm)] else [])"
  "pm_errorHooks (RegisterPlugin api pm p) = pm_errorHooks pm @ (if is_ErrorHook api p then [length (pm_plugins pm)] else [])"
  by (simp_all add: RegisterPlugin_def Let_def)

lemma registered:
  "pm_plugins (foldl (RegisterPlugin api) NewPluginManager ps) = ps"
  "pm_requestHooks (foldl (RegisterPlugin api) NewPluginManager ps) = hooks_at (is_RequestHook api) ps"
  "pm_bodyHooks (foldl (RegisterPlugin api) NewPluginManager ps) = hooks_at (is_ResponseBodyHook api) ps"
  "pm_cacheHooks (foldl (RegisterPlugin api) NewPluginManager ps) = hooks_at (is_CacheHook api) ps"
  "pm_metricsHooks (foldl (RegisterPlugin api) NewPluginManager ps) = hooks_at (is_MetricsHook api) ps"
  "pm_errorHooks (foldl (RegisterPlugin api) NewPluginManager ps) = hooks_at (is_ErrorHook api) ps"
proof -
  have "pm_plugins (foldl (RegisterPlugin api) NewPluginManager ps) = ps \<and>
    pm_requestHooks (foldl (RegisterPlugin api) NewPluginManager ps) = hooks_at (is_RequestHook api) ps \<and>
    pm_bodyHooks (foldl (RegisterPlugin api) NewPluginManager ps) = hooks_at (is_ResponseBodyHook api) ps \<and>
    pm_cacheHooks (foldl (RegisterPlugin api) NewPluginManager ps) = hooks_at (is_CacheHook api) ps \<and>
    pm_metricsHooks (foldl (RegisterPlugin api) NewPluginManager ps) = hooks_at (is_MetricsHook api) ps \<and>
    pm_errorHooks (foldl (RegisterPlugin api) NewPluginManager ps) = hooks_at (is_ErrorHook api) ps"
    by (induction ps rule: rev_induct)
      (simp_all add: NewPluginManager_def hooks_at_append, simp add: hooks_at_def)
  then show "pm_plugins (foldl (RegisterPlugin api) NewPluginManager ps) = ps"
    "pm_requestHooks (foldl (RegisterPlugin api) NewPluginManager ps) = hooks_at (is_RequestHook api) ps"
    "pm_bodyHooks (foldl (RegisterPlugin api) NewPluginManager ps) = hooks_at (is_ResponseBodyHook api) ps"
    "pm_cacheHooks (foldl (RegisterPlugin api) NewPluginManager ps) = hooks_at (is_CacheHook api) ps"
    "pm_metricsHooks (foldl (RegisterPlugin api) NewPluginManager ps) = hooks_at (is_MetricsHook api) ps"
    "pm_errorHooks (foldl (RegisterPlugin api) NewPluginManager ps) = hooks_at (is_ErrorHook api) ps"
    by blast+
qed

text \<open>
  Hooks run in the order of registration: on a manager with any plugins
  registered, \<open>RunBeforeProxy\<close> passes the request through those that implement
  the hook, first to last, keeps the state each leaves, and stops at the first
  error with the later plugins untouched.
\<close>

theorem RunBeforeProxy_in_order:
  "RunBeforeProxy api (foldl (RegisterPlugin api) NewPluginManager ps) w r target loc =
     (case seq_hooks (is_RequestHook api)
             (\<lambda>p (w, r). case BeforeProxy api p w r target loc of (e, w', r', p') \<Rightarrow> (e, (w', r'), p')) ps (w, r) of
        (e, (w', r'), ps') \<Rightarrow>
          (e, w', r', (foldl (RegisterPlugin api) NewPluginManager ps)\<lparr>pm_plugins := ps'\<rparr>))"
  unfolding RunBeforeProxy_def registered run_hooks_at ..

end
