(* ===== verification/Handler.thy ===== *)
theory Handler
  imports Transport Plugins DiskCache
begin

text \<open>
  The handler of one location (\<open>internal/handler\<close>): header rules, CORS, cache
  lookup, request coalescing, the proxied request and the store of its answer.
  What the handlers of a server share (disk cache, balancer, plugins) is a
  record passed through; what the environment decides (the clock, the network,
  failures of the disk, a free slot in the write pool, the regular expression
  engine, the cleaning of a redirect target by the standard library) is another.
  A request is one step except for the wait on a flight, which splits it in
  \<open>serve_before\<close>, \<open>serveWaiterFromFlight\<close> and \<open>serve_fetch\<close>.
\<close>

section \<open>State\<close>

record TargetHandler =
  th_target :: TargetConfig
  th_location :: LocationConfig
  th_cacheTTL :: duration
  th_maxBodySize :: int

record 'p world =
  wd_cache :: disk_cache
  wd_lb :: balancer
  wd_pm :: "'p PluginManager option"

record environment =
  env_now :: int
  env_send :: "out_request \<Rightarrow> answer"
  env_meta_write :: "write_outcome \<times> string"
  env_body_write :: "write_outcome \<times> string"
  env_slot :: bool
  env_replace :: "string \<Rightarrow> (string \<Rightarrow> string \<Rightarrow> string) option"
  env_clean :: "request \<Rightarrow> string \<Rightarrow> string"
  env_request_id :: string

text \<open>
  \<open>NewTargetHandler\<close>: \<open>ttl\<close> is the result of parsing the location's TTL. A rewrite
  pattern that does not compile panics.
\<close>

definition NewTargetHandler ::
  "(string \<Rightarrow> (string \<Rightarrow> string \<Rightarrow> string) option) \<Rightarrow> TargetConfig \<Rightarrow> LocationConfig \<Rightarrow> duration option \<Rightarrow> int \<Rightarrow>
   TargetHandler go" where
  "NewTargetHandler replace target loc ttl maxBodySize =
     (let h = \<lparr>th_target = target, th_location = loc,
               th_cacheTTL = (if loc_CacheTTL loc \<noteq> '''' then (case ttl of Some d \<Rightarrow> d | None \<Rightarrow> 0) else 0),
               th_maxBodySize = maxBodySize\<rparr>
      in case loc_Rewrite loc of
           Some rw \<Rightarrow> if rc_Pattern rw \<noteq> '''' \<and> replace (rc_Pattern rw) = None then Panic else Ret h
         | None \<Rightarrow> Ret h)"

definition resolveMaxBodySize :: "TargetHandler \<Rightarrow> int" where
  "resolveMaxBodySize th =
     (if th_maxBodySize th < 0 then -1 else if th_maxBodySize th = 0 then maxBodyReadSize else th_maxBodySize th)"

definition targetName :: "TargetHandler \<Rightarrow> string" where
  "targetName th = tc_ServerName (th_target th)"

section \<open>Header rules\<close>

definition cors_headers :: "CORSConfig \<Rightarrow> string \<Rightarrow> string \<Rightarrow> header \<Rightarrow> header" where
  "cors_headers cors origin reqHeaders h =
     (let h1 = Header_Set h ''Access-Control-Allow-Origin'' origin;
          h2 = (if cors_AllowCredentials cors then Header_Set h1 ''Access-Control-Allow-Credentials'' ''true'' else h1);
          h3 = Header_Set h2 ''Access-Control-Allow-Methods''
                 (if cors_AllowMethods cors \<noteq> [] then Join (cors_AllowMethods cors) '', ''
                  else ''GET, POST, PUT, DELETE, OPTIONS, HEAD'');
          h4 = (if cors_AllowHeaders cors \<noteq> []
                then Header_Set h3 ''Access-Control-Allow-Headers'' (Join (cors_AllowHeaders cors) '', '')
                else if reqHeaders \<noteq> '''' then Header_Set h3 ''Access-Control-Allow-Headers'' reqHeaders else h3);
          h5 = (if cors_ExposeHeaders cors \<noteq> []
                then Header_Set h4 ''Access-Control-Expose-Headers'' (Join (cors_ExposeHeaders cors) '', '') else h4)
      in if cors_MaxAge cors > 0 then Header_Set h5 ''Access-Control-Max-Age'' (show_int (cors_MaxAge cors)) else h5)"

definition handleCORS :: "CORSConfig \<Rightarrow> response_writer \<Rightarrow> request \<Rightarrow> response_writer" where
  "handleCORS cors w r =
     (let origin = Header_Get (Header r) ''Origin'' in
      if origin = '''' then w
      else if \<not> list_ex (\<lambda>x. x = ''*'' \<or> x = origin) (cors_AllowOrigins cors) then w
      else w\<lparr>rw_header := cors_headers cors origin
               (Header_Get (Header r) ''Access-Control-Request-Headers'') (rw_header w)\<rparr>)"

definition set_and_remove :: "(string \<times> string) list \<Rightarrow> string list \<Rightarrow> header \<Rightarrow> header" where
  "set_and_remove add remove h = foldl Header_Del (foldl (\<lambda>h (k, v). Header_Set h k v) h add) remove"

definition applyRequestHeaders :: "HeadersConfig \<Rightarrow> request \<Rightarrow> request" where
  "applyRequestHeaders hc r = r\<lparr>Header := set_and_remove (hc_RequestAdd hc) (hc_RequestRemove hc) (Header r)\<rparr>"

definition excludes :: "string \<Rightarrow> string \<Rightarrow> bool" where
  "excludes pattern path \<longleftrightarrow>
     pattern \<noteq> '''' \<and>
     (if HasPrefix pattern ''.'' then HasSuffix path pattern
      else pattern = path \<or> HasPrefix path (TrimSuffix pattern ''/''))"

definition isCacheExcluded :: "TargetHandler \<Rightarrow> string \<Rightarrow> bool" where
  "isCacheExcluded th path = list_ex (\<lambda>pattern. excludes pattern path) (loc_CacheExcludes (th_location th))"

definition setNoCacheHeaders :: "header \<Rightarrow> header" where
  "setNoCacheHeaders h =
     Header_Set (Header_Set (Header_Set h ''Cache-Control'' ''no-store, no-cache, must-revalidate, max-age=0'')
       ''Pragma'' ''no-cache'') ''Expires'' ''0''"

definition applyResponseHeadersTo :: "TargetHandler \<Rightarrow> header \<Rightarrow> header" where
  "applyResponseHeadersTo th h =
     (case loc_Headers (th_location th) of
        None \<Rightarrow> h
      | Some hc \<Rightarrow> set_and_remove (hc_ResponseAdd hc) (hc_ResponseRemove hc) h)"

section \<open>Upstreams of a location\<close>

definition pinnedUpstream :: "TargetHandler \<Rightarrow> string" where
  "pinnedUpstream th = (case loc_Proxy (th_location th) of Some p \<Rightarrow> pl_Upstream p | None \<Rightarrow> '''')"

definition getUpstreamURL :: "TargetHandler \<Rightarrow> string" where
  "getUpstreamURL th =
     (if pinnedUpstream th \<noteq> '''' then pinnedUpstream th
      else (case ParseUpstreams (th_target th) of Inr (u # _) \<Rightarrow> URL_String u | _ \<Rightarrow> ''''))"

text \<open>The two slices of the URL around its scheme separator; without one the first is out of range.\<close>

definition split_upstream :: "string \<Rightarrow> (string \<times> string) go" where
  "split_upstream url = (case Index url ''://'' of None \<Rightarrow> Panic | Some i \<Rightarrow> Ret (take i url, drop (i + 3) url))"

text \<open>The \<open>Rewrite\<close> functions of the two proxies; \<open>orig\<close> is the incoming request.\<close>

definition out_host :: "TargetHandler \<Rightarrow> request \<Rightarrow> string \<Rightarrow> string" where
  "out_host th orig urlHost =
     (if tc_HostHeader (th_target th) \<noteq> '''' then tc_HostHeader (th_target th)
      else if (case loc_Proxy (th_location th) of Some p \<Rightarrow> pl_PassHostHeader p | None \<Rightarrow> False) then Host orig
      else urlHost)"

definition grpc_rewrite :: "TargetHandler \<Rightarrow> request \<Rightarrow> out_request \<Rightarrow> out_request go" where
  "grpc_rewrite th orig out =
     go_bind (split_upstream (getUpstreamURL th)) (\<lambda>(scheme, host).
       Ret (out\<lparr>out_Scheme := scheme, out_URLHost := host, Host := out_host th orig host\<rparr>))"

definition proxy_rewrite :: "TargetHandler \<Rightarrow> request \<Rightarrow> string \<Rightarrow> string \<Rightarrow> out_request \<Rightarrow> out_request go" where
  "proxy_rewrite th orig path rawQuery out =
     go_bind (split_upstream (getUpstreamURL th)) (\<lambda>(scheme, host).
       Ret (out\<lparr>out_Scheme := scheme, out_URLHost := host, Path := path, RawQuery := rawQuery,
                Host := out_host th orig host, Header := Header_Del (Header out) ''Accept-Encoding''\<rparr>))"

section \<open>Errors\<close>

definition with_pm :: "('p PluginManager \<Rightarrow> 'p PluginManager) \<Rightarrow> 'p world \<Rightarrow> 'p world" where
  "with_pm f wd = (case wd_pm wd of None \<Rightarrow> wd | Some pm \<Rightarrow> wd\<lparr>wd_pm := Some (f pm)\<rparr>)"

text \<open>\<open>logError\<close>; the fields it attaches for the log are not modelled.\<close>

definition logError :: "'p plugin_api \<Rightarrow> TargetHandler \<Rightarrow> environment \<Rightarrow> string \<Rightarrow> string \<Rightarrow> 'p world \<Rightarrow> 'p world" where
  "logError api th env level msg wd =
     with_pm (\<lambda>pm. RunLogError api pm level (targetName th) (loc_Path (th_location th)) (env_request_id env) msg) wd"

definition bad_gateway :: "response_writer \<Rightarrow> response_writer" where
  "bad_gateway w = Write (WriteHeader w 502) (bytes_of (''Bad Gateway'' @ [char_of (10 :: nat)]))"

definition error_text :: "transport_error option \<Rightarrow> string" where
  "error_text e =
     (case e of
        Some NoHealthyUpstreams \<Rightarrow> ''no healthy upstreams''
      | Some Unreachable \<Rightarrow> ''upstream unreachable''
      | Some BodyReadError \<Rightarrow> ''read error''
      | Some BodyTooLarge \<Rightarrow> ''response body exceeds max read size''
      | None \<Rightarrow> ''internal error: 101 switching protocols response with non-writable body'')"

section \<open>gRPC\<close>

definition serveGRPC ::
  "'p plugin_api \<Rightarrow> TargetHandler \<Rightarrow> environment \<Rightarrow> 'p world \<Rightarrow> response_writer \<Rightarrow> request \<Rightarrow>
   (response_writer \<times> 'p world) go" where
  "serveGRPC api th env wd w r =
     (if getUpstreamURL th = '''' then
        Ret (bad_gateway w, logError api th env ''ERROR'' ''gRPC proxy error: no upstream configured'' wd)
      else
        ReverseProxy_ServeHTTP (grpc_rewrite th r)
          (\<lambda>out wd. go_bind (grpc_RoundTrip lb_Next lb_MarkHealthy GetUpstreams (pinnedUpstream th) (env_send env)
                               (env_now env) out (wd_lb wd)) (\<lambda>(res, b). Ret (res, wd\<lparr>wd_lb := b\<rparr>)))
          (\<lambda>resp. resp)
          (\<lambda>w e wd. (bad_gateway w, logError api th env ''ERROR'' (''gRPC proxy error: '' @ error_text e) wd))
          w r wd)"

section \<open>Before the upstream\<close>

datatype 'p phase =
    Answer response_writer bool "'p world"
  | Fetch response_writer request string "'p world"

definition cache_lookup ::
  "'p plugin_api \<Rightarrow> TargetHandler \<Rightarrow> environment \<Rightarrow> 'p world \<Rightarrow> response_writer \<Rightarrow> request \<Rightarrow> string \<Rightarrow> 'p phase go" where
  "cache_lookup api th env wd w r key =
     go_bind (Peek (wd_cache wd) key (th_cacheTTL th) (env_now env)) (\<lambda>fresh.
       (let w1 = (if fresh then w\<lparr>rw_header := applyResponseHeadersTo th (rw_header w)\<rparr> else w);
            name = targetName th; path = loc_Path (th_location th) in
        go_bind (StreamCachedResponseTTL (wd_cache wd) w1 key (th_cacheTTL th) (env_now env)) (\<lambda>(err, w2, dc).
          if err = None then
            (let wd1 = with_pm (\<lambda>pm. RunRecordCacheHit api pm name path) (wd\<lparr>wd_cache := RecordHit dc\<rparr>) in
             case wd_pm wd1 of
               None \<Rightarrow> Ret (Answer w2 True wd1)
             | Some pm \<Rightarrow>
                 (case RunAfterCacheHit api pm w2 r key name path of
                    (_, w3, pm') \<Rightarrow> Ret (Answer w3 True (wd1\<lparr>wd_pm := Some pm'\<rparr>))))
          else
            Ret (Fetch w2 r key
              (with_pm (\<lambda>pm. RunRecordCacheMiss api pm name path) (wd\<lparr>wd_cache := RecordMiss dc\<rparr>))))))"

definition serve_before ::
  "'p plugin_api \<Rightarrow> TargetHandler \<Rightarrow> environment \<Rightarrow> 'p world \<Rightarrow> response_writer \<Rightarrow> request \<Rightarrow> 'p phase go" where
  "serve_before api th env wd0 w0 r0 =
     (case (case wd_pm wd0 of
              None \<Rightarrow> (None, w0, r0, wd0)
            | Some pm \<Rightarrow>
                (case RunBeforeProxy api pm w0 r0 (targetName th) (loc_Path (th_location th)) of
                   (e, w, r, pm') \<Rightarrow> (e, w, r, wd0\<lparr>wd_pm := Some pm'\<rparr>)))
      of (err, w, r, wd) \<Rightarrow>
        if err \<noteq> None then Ret (Answer w False wd)
        else if isGRPCRequest r then
          go_bind (serveGRPC api th env wd w r) (\<lambda>(w', wd'). Ret (Answer w' False wd'))
        else
          (let cors = loc_CORS (th_location th);
               on = (case cors of Some c \<Rightarrow> cors_Enabled c | None \<Rightarrow> False);
               w1 = (case cors of Some c \<Rightarrow> if cors_Enabled c then handleCORS c w r else w | None \<Rightarrow> w)
           in if on \<and> Method r = ''OPTIONS'' then Ret (Answer w1 False wd)
              else
                (let r1 = (case loc_Headers (th_location th) of Some hc \<Rightarrow> applyRequestHeaders hc r | None \<Rightarrow> r);
                     key = CacheKey (targetName th) (RequestURI r1)
                 in if isCacheExcluded th (Path r1)
                    then Ret (Fetch (w1\<lparr>rw_header := setNoCacheHeaders (rw_header w1)\<rparr>) r1 key wd)
                    else if loc_Cache (th_location th) then cache_lookup api th env wd w1 r1 key
                    else Ret (Fetch w1 r1 key wd))))"

section \<open>Waiting for another request\<close>

text \<open>
  A flight that ended: the response its owner recorded, if it stored one. The
  field \<open>err\<close> of the source is never set.
\<close>

type_synonym flight = "response option"

definition serveWaiterFromFlight ::
  "'p plugin_api \<Rightarrow> TargetHandler \<Rightarrow> environment \<Rightarrow> 'p world \<Rightarrow> response_writer \<Rightarrow> request \<Rightarrow> string \<Rightarrow> flight \<Rightarrow>
   (bool \<times> response_writer \<times> 'p world) go" where
  "serveWaiterFromFlight api th env wd w r key flight =
     (case flight of
        None \<Rightarrow> Ret (False, w, wd)
      | Some _ \<Rightarrow>
          (let name = targetName th; path = loc_Path (th_location th);
               wd1 = with_pm (\<lambda>pm. RunRecordCacheHit api pm name path) (wd\<lparr>wd_cache := RecordHit (wd_cache wd)\<rparr>)
           in case (case wd_pm wd1 of
                      None \<Rightarrow> (w, wd1)
                    | Some pm \<Rightarrow>
                        (case RunAfterCacheHit api pm w r key name path of
                           (_, w', pm') \<Rightarrow> (w', wd1\<lparr>wd_pm := Some pm'\<rparr>)))
              of (w1, wd2) \<Rightarrow>
                go_bind (StreamCachedResponseTTL (wd_cache wd2) (w1\<lparr>rw_header := applyResponseHeadersTo th (rw_header w1)\<rparr>)
                  key (th_cacheTTL th) (env_now env)) (\<lambda>(err, w2, dc).
                    Ret (err = None, w2, wd2\<lparr>wd_cache := dc\<rparr>))))"

section \<open>Rewrites and redirects\<close>

text \<open>\<open>url.URL.EscapedPath\<close> of a path that was assigned: every byte that may not stand is escaped.\<close>

definition path_char :: "char \<Rightarrow> bool" where
  "path_char c \<longleftrightarrow>
     (let n = of_char c :: nat in (48 \<le> n \<and> n \<le> 57) \<or> (65 \<le> n \<and> n \<le> 90) \<or> (97 \<le> n \<and> n \<le> 122)) \<or>
     c \<in> set ''-_.~$&+,/:;=@''"

definition escape_path :: "string \<Rightarrow> string" where
  "escape_path p =
     (if p = ''*'' then ''*''
      else concat (map (\<lambda>c. if path_char c then [c]
                            else CHR ''%'' # (let n = of_char c :: nat in
                              [''0123456789ABCDEF'' ! (n div 16), ''0123456789ABCDEF'' ! (n mod 16)])) p))"

text \<open>The path after the location's rewrite, and the request with it.\<close>

definition apply_rewrite :: "TargetHandler \<Rightarrow> environment \<Rightarrow> request \<Rightarrow> request go" where
  "apply_rewrite th env r =
     (case loc_Rewrite (th_location th) of
        None \<Rightarrow> Ret r
      | Some rw \<Rightarrow>
          if rc_Pattern rw = '''' then Ret r
          else
            (case env_replace env (rc_Pattern rw) of
               None \<Rightarrow> Panic
             | Some f \<Rightarrow>
                 (let newPath = f (Path r) (rc_Replacement rw) in
                  Ret (if newPath \<noteq> Path r then r\<lparr>Path := newPath, EscapedPath := escape_path newPath\<rparr> else r))))"

definition html_escape :: "string \<Rightarrow> string" where
  "html_escape s = concat (map (\<lambda>c.
     if c = CHR ''&'' then ''&amp;'' else if c = CHR ''<'' then ''&lt;'' else if c = CHR ''>'' then ''&gt;''
     else if of_char c = (34 :: nat) then ''&#34;'' else if of_char c = (39 :: nat) then ''&#39;'' else [c]) s)"

text \<open>\<open>http.Redirect\<close> for the two codes the handler uses; \<open>url\<close> is the cleaned target.\<close>

definition http_Redirect :: "response_writer \<Rightarrow> request \<Rightarrow> string \<Rightarrow> int \<Rightarrow> response_writer" where
  "http_Redirect w r url code =
     (let hadCT = hdr_lookup (rw_header w) ''Content-Type'' \<noteq> None;
          h1 = Header_Set (rw_header w) ''Location'' url;
          h2 = (if \<not> hadCT \<and> (Method r = ''GET'' \<or> Method r = ''HEAD'')
                then Header_Set h1 ''Content-Type'' ''text/html; charset=utf-8'' else h1);
          w1 = WriteHeader (w\<lparr>rw_header := h2\<rparr>) code;
          nl = [char_of (10 :: nat)]
      in if \<not> hadCT \<and> Method r = ''GET''
         then Write w1 (bytes_of (''<a href='' @ [char_of (34 :: nat)] @ html_escape url @ [char_of (34 :: nat)] @ ''>'' @
           (if code = 301 then ''Moved Permanently'' else ''Found'') @ ''</a>.'' @ nl @ nl))
         else w1)"

text \<open>A configured redirect answers at once; \<open>r\<close> is the request after the rewrite.\<close>

definition redirect_answer :: "TargetHandler \<Rightarrow> environment \<Rightarrow> response_writer \<Rightarrow> request \<Rightarrow> response_writer option" where
  "redirect_answer th env w r =
     (case loc_Rewrite (th_location th) of
        None \<Rightarrow> None
      | Some rw \<Rightarrow>
          if rc_Redirect rw = '''' then None
          else
            (let status = (if rc_Redirect rw = ''redirect'' then 302 else 301);
                 newPath = (case env_replace env (rc_Pattern rw) of
                              Some f \<Rightarrow> if rc_Pattern rw \<noteq> '''' then f (Path r) (rc_Replacement rw) else Path r
                            | None \<Rightarrow> Path r)
             in Some (http_Redirect w r (env_clean env r (newPath @ ''?'' @ RawQuery r)) status)))"

section \<open>The upstream request and the store\<close>

type_synonym 'p proxy_handler = "response_writer \<Rightarrow> request \<Rightarrow> 'p world \<times> capture \<Rightarrow> (response_writer \<times> 'p world \<times> capture) go"

definition modify_response :: "TargetHandler \<Rightarrow> upstream_response \<Rightarrow> upstream_response" where
  "modify_response th resp =
     (let h0 = (if (case loc_Proxy (th_location th) of Some p \<Rightarrow> pl_WebSocket p | None \<Rightarrow> False) \<and> ur_status resp = 101
                then Header_Set (Header_Set (ur_header resp) ''Connection'' ''upgrade'') ''Upgrade'' ''websocket''
                else ur_header resp)
      in resp\<lparr>ur_header := applyResponseHeadersTo th (Header_Set h0 ''X-Cache'' ''MISS'')\<rparr>)"

definition proxy :: "'p plugin_api \<Rightarrow> TargetHandler \<Rightarrow> environment \<Rightarrow> request \<Rightarrow> 'p proxy_handler" where
  "proxy api th env orig w r st =
     ReverseProxy_ServeHTTP (proxy_rewrite th orig (Path orig) (RawQuery orig))
       (\<lambda>out (wd, cap).
          go_bind (capturing_RoundTrip lb_Next lb_MarkHealthy GetUpstreams (pinnedUpstream th) (resolveMaxBodySize th)
                     (env_send env) (env_now env) out (wd_lb wd)) (\<lambda>(res, cap', b).
            Ret (res, wd\<lparr>wd_lb := b\<rparr>, cap')))
       (modify_response th)
       (\<lambda>w e (wd, cap). (bad_gateway w, logError api th env ''ERROR'' (''proxy error: '' @ error_text e) wd, cap))
       w r st"

text \<open>The compression plugin, if one is registered, wraps the proxy.\<close>

definition final_handler ::
  "'p plugin_api \<Rightarrow> ('p \<Rightarrow> ('p proxy_handler \<Rightarrow> 'p proxy_handler) option) \<Rightarrow> 'p world \<Rightarrow> 'p proxy_handler \<Rightarrow> 'p proxy_handler" where
  "final_handler api wrap wd rp =
     (case wd_pm wd of
        None \<Rightarrow> rp
      | Some pm \<Rightarrow>
          (case find (\<lambda>p. pl_Name api p = ''compression'' \<and> wrap p \<noteq> None) (GetPlugins pm) of
             None \<Rightarrow> rp
           | Some p \<Rightarrow> (case wrap p of Some f \<Rightarrow> f rp | None \<Rightarrow> rp)))"

text \<open>A hook's result for a body: an error is logged and the body stays.\<close>

definition hooked_body ::
  "'p plugin_api \<Rightarrow> TargetHandler \<Rightarrow> environment \<Rightarrow> ('p PluginManager \<Rightarrow> (error, byte list) result \<times> 'p PluginManager) \<Rightarrow>
   string \<Rightarrow> byte list \<Rightarrow> 'p world \<Rightarrow> byte list \<times> 'p world" where
  "hooked_body api th env run msg body wd =
     (case wd_pm wd of
        None \<Rightarrow> (body, wd)
      | Some pm \<Rightarrow>
          (case run pm of
             (Inl e, pm') \<Rightarrow> (body, logError api th env ''WARN'' (msg @ e) (wd\<lparr>wd_pm := Some pm'\<rparr>))
           | (Inr b, pm') \<Rightarrow> (b, wd\<lparr>wd_pm := Some pm'\<rparr>)))"

definition store_answer ::
  "'p plugin_api \<Rightarrow> TargetHandler \<Rightarrow> environment \<Rightarrow> string \<Rightarrow> request \<Rightarrow> capture \<Rightarrow> 'p world \<Rightarrow> ('p world \<times> flight) go" where
  "store_answer api th env key r cap wd =
     (if loc_Cache (th_location th) \<and> \<not> isCacheExcluded th (Path r) \<and>
         ct_statusCode cap \<ge> 200 \<and> ct_statusCode cap < 300 \<and> ct_body cap \<noteq> [] then
        (let name = targetName th; path = loc_Path (th_location th) in
         case hooked_body api th env (\<lambda>pm. RunTransformResponseBody api pm name path
                (Header_Get (ct_headers cap) ''Content-Type'') (ct_body cap))
                ''response body transformation failed: '' (ct_body cap) wd of
           (bodyCopy, wd1) \<Rightarrow>
             (case hooked_body api th env (\<lambda>pm. RunBeforeCacheStore api pm key name path (ct_statusCode cap) (ct_headers cap) bodyCopy)
                     ''before cache store failed: '' bodyCopy wd1 of
                (storeBody, wd2) \<Rightarrow>
                  (let shouldCache = (case wd_pm wd2 of
                         None \<Rightarrow> True
                       | Some pm \<Rightarrow> RunShouldCache api pm name path (ct_statusCode cap) (ct_headers cap) storeBody);
                       done = Some \<lparr>resp_status = ct_statusCode cap, resp_header = ct_headers cap\<rparr>
                   in if shouldCache \<and> env_slot env then
                        go_bind (SetResponseToCache (wd_cache wd2) key name (RequestURI r) (ct_statusCode cap)
                          (ct_headers cap) storeBody (env_meta_write env) (env_body_write env) (env_now env)) (\<lambda>(err, dc).
                          Ret (if err = None then wd2\<lparr>wd_cache := dc\<rparr>
                               else logError api th env ''WARN'' ''cache write failed'' (wd2\<lparr>wd_cache := dc\<rparr>), done))
                      else Ret (wd2, done))))
      else Ret (wd, None))"

definition serve_fetch ::
  "'p plugin_api \<Rightarrow> ('p \<Rightarrow> ('p proxy_handler \<Rightarrow> 'p proxy_handler) option) \<Rightarrow> TargetHandler \<Rightarrow> environment \<Rightarrow>
   response_writer \<Rightarrow> request \<Rightarrow> string \<Rightarrow> 'p world \<Rightarrow> (response_writer \<times> 'p world \<times> flight) go" where
  "serve_fetch api wrap th env w r key wd =
     go_bind (apply_rewrite th env r) (\<lambda>r1.
       case redirect_answer th env w r1 of
         Some w' \<Rightarrow> Ret (w', wd, None)
       | None \<Rightarrow>
           go_bind (final_handler api wrap wd (proxy api th env r1) w r1 (wd, new_capture)) (\<lambda>(w1, wd1, cap).
             case (case wd_pm wd1 of
                     None \<Rightarrow> (w1, wd1)
                   | Some pm \<Rightarrow>
                       (case RunAfterProxy api pm w1 r1 (targetName th) (loc_Path (th_location th))
                               \<lparr>resp_status = ct_statusCode cap, resp_header = ct_headers cap\<rparr> of
                          (_, w2, pm') \<Rightarrow> (w2, wd1\<lparr>wd_pm := Some pm'\<rparr>)))
             of (w2, wd2) \<Rightarrow>
               go_bind (store_answer api th env key r1 cap wd2) (\<lambda>(wd3, fl). Ret (w2, wd3, fl))))"

section \<open>The handler\<close>

text \<open>A request nobody else is fetching: it owns the flight, if its location caches.\<close>

definition ServeHTTP ::
  "'p plugin_api \<Rightarrow> ('p \<Rightarrow> ('p proxy_handler \<Rightarrow> 'p proxy_handler) option) \<Rightarrow> TargetHandler \<Rightarrow> environment \<Rightarrow>
   'p world \<Rightarrow> response_writer \<Rightarrow> request \<Rightarrow> (response_writer \<times> bool \<times> 'p world \<times> flight) go" where
  "ServeHTTP api wrap th env wd w r =
     go_bind (serve_before api th env wd w r) (\<lambda>ph.
       case ph of
         Answer w' cached wd' \<Rightarrow> Ret (w', cached, wd', None)
       | Fetch w' r' key wd' \<Rightarrow>
           go_bind (serve_fetch api wrap th env w' r' key wd') (\<lambda>(w2, wd2, fl). Ret (w2, False, wd2, fl)))"

text \<open>
  A request that found a flight for its key, after the owner of the flight has
  ended: \<open>wd\<close> and \<open>env\<close> are those of that time, \<open>w\<close>, \<open>r\<close> and \<open>key\<close> what
  \<open>serve_before\<close> left.
\<close>

definition serve_joined ::
  "'p plugin_api \<Rightarrow> ('p \<Rightarrow> ('p proxy_handler \<Rightarrow> 'p proxy_handler) option) \<Rightarrow> TargetHandler \<Rightarrow> environment \<Rightarrow>
   'p world \<Rightarrow> response_writer \<Rightarrow> request \<Rightarrow> string \<Rightarrow> flight \<Rightarrow> (response_writer \<times> bool \<times> 'p world) go" where
  "serve_joined api wrap th env wd w r key flight =
     go_bind (serveWaiterFromFlight api th env wd w r key flight) (\<lambda>(ok, w1, wd1).
       if ok then Ret (w1, True, wd1)
       else go_bind (serve_fetch api wrap th env w1 r key wd1) (\<lambda>(w2, wd2, fl). Ret (w2, False, wd2)))"

end
