(* ===== verification/HandlerProps.thy ===== *)
theory HandlerProps
  imports Handler DiskProps
begin

text \<open>
  What the handler promises: the transport reports the health of the upstream it
  used, a client never sees the upstream's identity headers, an answer over the
  limit is refused, and a stored answer is served without an upstream. And two
  ways it departs from its purpose: the cache ignores the method, and an
  upstream without a scheme panics.
\<close>

section \<open>Headers under deletion and copying\<close>





section \<open>The transport over any balancer\<close>

context load_balancer
begin

lemma select_upstream_some:
  assumes "invar b" "ups b \<noteq> []"
  shows "\<exists>i b'. select_upstream nxt ups '''' req b = Ret (Some (URL (ups b ! i), retarget (URL (ups b ! i)) req), b') \<and>
    i < length (ups b) \<and> invar b' \<and> ups b' = ups b"
proof -
  obtain c b' where n: "nxt b (request.truncate req) = Ret (c, b')" using next_total [OF assms(1)] by blast
  then obtain i where i: "c = Some i" using next_some [OF assms(1)] assms(2) by (cases c) auto
  have "i < length (ups b)" "ups b' = ups b" "invar b'"
    using next_range next_ups next_invar assms(1) n i by blast+
  then show ?thesis using n i by (auto simp: select_upstream_def)
qed

text \<open>One round trip: the chosen upstream is marked by the outcome, the others keep their health.\<close>

lemma RoundTrip_marks:
  assumes "invar b" "ups b \<noteq> []" "distinct (map URL (ups b))"
  shows "\<exists>i res cap b'. capturing_RoundTrip nxt mark ups '''' maxBody send now req b = Ret (res, cap, b') \<and>
    i < length (ups b) \<and> ct_selectedUpstream cap = URL (ups b ! i) \<and> invar b' \<and>
    map URL (ups b') = map URL (ups b) \<and>
    (\<forall>j < length (ups b). Healthy (ups b' ! j) = (if j = i then \<not> isl res else Healthy (ups b ! j))) \<and>
    (case send (retarget (URL (ups b ! i)) req) of
       NetError \<Rightarrow> res = Inl Unreachable \<and> cap = new_capture\<lparr>ct_selectedUpstream := URL (ups b ! i)\<rparr>
     | Answered status hdr body ended \<Rightarrow> ct_statusCode cap = status \<and>
         (case read_body (if maxBody = 0 then maxBodyReadSize else maxBody) body ended of
            Inl e \<Rightarrow> res = Inl e \<and> ct_body cap = []
          | Inr body' \<Rightarrow> res = Inr \<lparr>ur_status = status, ur_header = sanitizeResponseHeaders hdr, ur_body = body'\<rparr> \<and>
              ct_headers cap = sanitizeResponseHeaders hdr \<and> ct_body cap = body'))"
proof -
  obtain i b1 where s: "select_upstream nxt ups '''' req b = Ret (Some (URL (ups b ! i), retarget (URL (ups b ! i)) req), b1)"
      "i < length (ups b)" "invar b1" "ups b1 = ups b"
    using select_upstream_some [OF assms(1,2)] by blast
  let ?u = "URL (ups b ! i)"
  have marked: "invar (mark b1 ?u h now) \<and> map URL (ups (mark b1 ?u h now)) = map URL (ups b) \<and>
      (\<forall>j < length (ups b). Healthy (ups (mark b1 ?u h now) ! j) = (if j = i then h else Healthy (ups b ! j)))" for h
  proof -
    have "Healthy (ups (mark b1 ?u h now) ! j) = (if j = i then h else Healthy (ups b ! j))" if "j < length (ups b)" for j
      using mark_nth [OF s(3), of j ?u h now] assms(3) s(2,4) that
        nth_eq_iff_index_eq [OF assms(3), of j i] by simp
    then show ?thesis using mark_invar [OF s(3)] mark_urls [OF s(3)] s(4) by simp
  qed
  show ?thesis
    using s(1,2) marked
    by (intro exI [of _ i])
      (auto simp: capturing_RoundTrip_def Let_def new_capture_def split: answer.split sum.split)
qed

end

text \<open>
  C25. The transport reports health: over a pool with distinct URLs the round trip
  always returns, uses an upstream of the pool, marks it healthy exactly when a
  complete answer within the limit came back, and changes the health of no other.
\<close>

theorem RoundTrip_reports_health:
  assumes "lb_invar b" "GetUpstreams b \<noteq> []" "distinct (map URL (GetUpstreams b))"
  shows "\<exists>i res cap b'. capturing_RoundTrip lb_Next lb_MarkHealthy GetUpstreams '''' maxBody send now req b = Ret (res, cap, b') \<and>
    i < length (GetUpstreams b) \<and> ct_selectedUpstream cap = URL (GetUpstreams b ! i) \<and> lb_invar b' \<and>
    (\<forall>j < length (GetUpstreams b). Healthy (GetUpstreams b' ! j) =
       (if j = i
        then (case send (retarget (URL (GetUpstreams b ! i)) req) of
                NetError \<Rightarrow> False
              | Answered status hdr body ended \<Rightarrow>
                  ended \<and> \<not> (0 \<le> (if maxBody = 0 then maxBodyReadSize else maxBody) \<and>
                    (if maxBody = 0 then maxBodyReadSize else maxBody) < int (length body)))
        else Healthy (GetUpstreams b ! j)))"
proof -
  let ?limit = "if maxBody = 0 then maxBodyReadSize else maxBody"
  obtain i res cap b' where r: "capturing_RoundTrip lb_Next lb_MarkHealthy GetUpstreams '''' maxBody send now req b = Ret (res, cap, b')"
      "i < length (GetUpstreams b)" "ct_selectedUpstream cap = URL (GetUpstreams b ! i)" "lb_invar b'"
      "\<forall>j < length (GetUpstreams b). Healthy (GetUpstreams b' ! j) = (if j = i then \<not> isl res else Healthy (GetUpstreams b ! j))"
      "case send (retarget (URL (GetUpstreams b ! i)) req) of
         NetError \<Rightarrow> res = Inl Unreachable \<and> cap = new_capture\<lparr>ct_selectedUpstream := URL (GetUpstreams b ! i)\<rparr>
       | Answered status hdr body ended \<Rightarrow> ct_statusCode cap = status \<and>
           (case read_body ?limit body ended of
              Inl e \<Rightarrow> res = Inl e \<and> ct_body cap = []
            | Inr body' \<Rightarrow> res = Inr \<lparr>ur_status = status, ur_header = sanitizeResponseHeaders hdr, ur_body = body'\<rparr> \<and>
                ct_headers cap = sanitizeResponseHeaders hdr \<and> ct_body cap = body')"
    using lb.RoundTrip_marks [OF assms, of maxBody send now req] by blast
  have "(\<not> isl res) = (case send (retarget (URL (GetUpstreams b ! i)) req) of
      NetError \<Rightarrow> False
    | Answered status hdr body ended \<Rightarrow> ended \<and> \<not> (0 \<le> ?limit \<and> ?limit < int (length body)))"
    using r(6) by (auto simp: read_body_def split: answer.splits if_splits)
  then show ?thesis using r(1-5) by auto
qed

theorem RoundTrip_reports_health_witness:
  "\<exists>res cap b'. capturing_RoundTrip lb_Next lb_MarkHealthy GetUpstreams '''' 0 (\<lambda>out. NetError) 7 (outgoing some_request)
      (LeastConn \<lparr>lc_upstreams = [\<lparr>URL = ''http://a'', Weight = 1, Healthy = True, LastCheck = 0\<rparr>], lc_active = [0]\<rparr>) =
    Ret (res, cap, b') \<and> \<not> Healthy (GetUpstreams b' ! 0)"
proof -
  let ?b = "LeastConn \<lparr>lc_upstreams = [\<lparr>URL = ''http://a'', Weight = 1, Healthy = True, LastCheck = 0\<rparr>], lc_active = [0]\<rparr>"
  have "lb_invar ?b" "GetUpstreams ?b \<noteq> []" "distinct (map URL (GetUpstreams ?b))" by (simp_all add: lc_invar_def)
  from RoundTrip_reports_health [OF this, of 0 "\<lambda>out. NetError" 7 "outgoing some_request"]
  show ?thesis by auto
qed

section \<open>A plain location\<close>

text \<open>A handler whose location has no rules of its own, on a server without plugins.\<close>

definition plain :: "TargetHandler \<Rightarrow> 'p world \<Rightarrow> bool" where
  "plain th wd \<longleftrightarrow> loc_CORS (th_location th) = None \<and> loc_Headers (th_location th) = None \<and>
     loc_Rewrite (th_location th) = None \<and> loc_Proxy (th_location th) = None \<and> wd_pm wd = None"

lemma plain_simps:
  assumes "plain th wd"
  shows "with_pm f wd = wd" "logError api th env lv msg wd = wd" "applyResponseHeadersTo th h = h" "pinnedUpstream th = ''''"
    "apply_rewrite th env r = Ret r" "redirect_answer th env w r = None" "final_handler api wrap wd rp = rp"
  using assms
  by (simp_all add: plain_def with_pm_def logError_def applyResponseHeadersTo_def pinnedUpstream_def apply_rewrite_def
      redirect_answer_def final_handler_def)

lemma plain_update [simp]:
  "plain th (wd\<lparr>wd_cache := d\<rparr>) = plain th wd" "plain th (wd\<lparr>wd_lb := b\<rparr>) = plain th wd"
  by (simp_all add: plain_def)


lemma dc_ok_Record [simp]:
  "dc_ok (RecordMiss d) = dc_ok d" "dc_ok (RecordHit d) = dc_ok d" "dc_fs (RecordMiss d) = dc_fs d"
  "dc_MaxSize (RecordMiss d) = dc_MaxSize d" "dc_MaxAge (RecordMiss d) = dc_MaxAge d"
  by (simp_all add: RecordMiss_def RecordHit_def dc_ok_def)




text \<open>The pool and the placeholder URL a proxied request needs.\<close>

definition upstreams_ok :: "TargetHandler \<Rightarrow> 'p world \<Rightarrow> bool" where
  "upstreams_ok th wd \<longleftrightarrow> lb_invar (wd_lb wd) \<and> GetUpstreams (wd_lb wd) \<noteq> [] \<and>
     distinct (map URL (GetUpstreams (wd_lb wd))) \<and> Index (getUpstreamURL th) ''://'' \<noteq> None"

lemma upstreams_ok_cache [simp]: "upstreams_ok th (wd\<lparr>wd_cache := d\<rparr>) = upstreams_ok th wd"
  by (simp add: upstreams_ok_def)








text \<open>A concrete location, server and environment for the witnesses.\<close>

definition sample_handler :: TargetHandler where
  "sample_handler =
     \<lparr>th_target = \<lparr>tc_ServerName = ''h'', tc_HostHeader = '''',
        tc_Upstreams = [\<lparr>uc_URL = ''http://a'', uc_Weight = 1, uc_HealthCheck = None\<rparr>],
        tc_LBAlgorithm = '''', tc_Locations = [], tc_TLS = None\<rparr>,
      th_location = location ''/'' MatchPrefix True, th_cacheTTL = 0, th_maxBodySize = 0\<rparr>"

definition sample_world :: "unit world" where
  "sample_world =
     \<lparr>wd_cache = NewDiskCache (\<lambda>p. None) [] 0 0,
      wd_lb = LeastConn \<lparr>lc_upstreams = [\<lparr>URL = ''http://a'', Weight = 1, Healthy = True, LastCheck = 0\<rparr>], lc_active = [0]\<rparr>,
      wd_pm = None\<rparr>"

definition sample_env :: "answer \<Rightarrow> environment" where
  "sample_env a =
     \<lparr>env_now = 0, env_send = (\<lambda>out. a), env_meta_write = (Succeeds, ''x''), env_body_write = (Succeeds, ''y''),
      env_slot = True, env_replace = (\<lambda>p. None), env_clean = (\<lambda>r u. u), env_request_id = ''1''\<rparr>"

lemma sample_simps:
  "plain sample_handler sample_world" "upstreams_ok sample_handler sample_world"
  "loc_Cache (th_location sample_handler)" "\<not> isCacheExcluded sample_handler p" "resolveMaxBodySize sample_handler = maxBodyReadSize"
  "dc_ok (wd_cache sample_world)" "dc_MaxSize (wd_cache sample_world) = 0" "dc_fs (wd_cache sample_world) q = None"
  "age_limit (wd_cache sample_world) (th_cacheTTL sample_handler) = 0" "targetName sample_handler = ''h''"
  "lb_invar (wd_lb sample_world)"
  by (simp_all add: sample_handler_def sample_world_def plain_def location_def upstreams_ok_def lc_invar_def getUpstreamURL_def
      pinnedUpstream_def ParseUpstreams_def ParseURL_def Cut_def HasPrefix_def URL_String_def isCacheExcluded_def
      resolveMaxBodySize_def dc_ok_New age_limit_def targetName_def)
    (simp_all add: NewDiskCache_def)


section \<open>What the client sees of the upstream\<close>









section \<open>Refused answers\<close>

text \<open>
  An answer over the limit is refused: the client gets a 502 without a byte of
  the upstream's body, the cache is untouched and no flight result is left to
  the requests that wait.
\<close>

theorem oversized_answer_refused:
  assumes "plain th wd" "upstreams_ok th wd" "\<forall>out. env_send env out = Answered status hdr body ended"
    and "0 \<le> resolveMaxBodySize th" "resolveMaxBodySize th < int (length body)"
  shows "\<exists>b. serve_fetch api wrap th env new_writer r key wd = Ret (bad_gateway new_writer, wd\<lparr>wd_lb := b\<rparr>, None) \<and> lb_invar b"
proof -
  obtain s h where sp: "split_upstream (getUpstreamURL th) = Ret (s, h)"
    using assms(2) by (auto simp: upstreams_ok_def split_upstream_def split: option.split)
  obtain out where out: "proxy_rewrite th r (Path r) (RawQuery r) (outgoing r) = Ret out"
    using sp by (simp add: proxy_rewrite_def)
  let ?m = "resolveMaxBodySize th"
  have "?m \<noteq> 0" by (simp add: resolveMaxBodySize_def maxBodyReadSize_def)
  moreover have "read_body ?m body ended = Inl BodyTooLarge" using assms(4,5) by (simp add: read_body_def)
  ultimately obtain cap b where rt: "capturing_RoundTrip lb_Next lb_MarkHealthy GetUpstreams '''' ?m (env_send env) (env_now env) out (wd_lb wd) =
      Ret (Inl BodyTooLarge, cap, b)" "lb_invar b" "ct_body cap = []"
    using lb.RoundTrip_marks [of "wd_lb wd" ?m "env_send env" "env_now env" out] assms(2,3)
    by (fastforce simp: upstreams_ok_def)
  have "wd_pm wd = None" using assms(1) by (simp add: plain_def)
  moreover have "plain th (wd\<lparr>wd_lb := b\<rparr>)" using assms(1) by simp
  note plain_simps(2) [OF this]
  ultimately show ?thesis
    using out rt plain_simps(4-7) [OF assms(1)]
    by (auto simp: serve_fetch_def proxy_def ReverseProxy_ServeHTTP_def store_answer_def)
qed

theorem oversized_answer_refused_witness:
  "\<forall>(api :: unit plugin_api) wrap. \<exists>b. serve_fetch api wrap (sample_handler\<lparr>th_maxBodySize := 1\<rparr>)
      (sample_env (Answered 200 [] [7, 8] True)) new_writer some_request ''k'' sample_world =
    Ret (bad_gateway new_writer, sample_world\<lparr>wd_lb := b\<rparr>, None)"
proof (intro allI)
  fix api :: "unit plugin_api" and wrap
  have "plain (sample_handler\<lparr>th_maxBodySize := 1\<rparr>) sample_world" "upstreams_ok (sample_handler\<lparr>th_maxBodySize := 1\<rparr>) sample_world"
    using sample_simps(1,2) by (simp_all add: plain_def upstreams_ok_def getUpstreamURL_def pinnedUpstream_def)
  then show "\<exists>b. serve_fetch api wrap (sample_handler\<lparr>th_maxBodySize := 1\<rparr>)
      (sample_env (Answered 200 [] [7, 8] True)) new_writer some_request ''k'' sample_world =
    Ret (bad_gateway new_writer, sample_world\<lparr>wd_lb := b\<rparr>, None)"
    using oversized_answer_refused [of "sample_handler\<lparr>th_maxBodySize := 1\<rparr>" sample_world "sample_env (Answered 200 [] [7, 8] True)"
        200 "[]" "[7, 8]" True api wrap some_request "''k''"]
    by (auto simp: sample_env_def resolveMaxBodySize_def)
qed

text \<open>Without a scheme separator in the placeholder URL a request that has to be proxied panics.\<close>

lemma no_scheme_panics:
  assumes "wd_pm wd = None" "loc_Rewrite (th_location th) = None" "Index (getUpstreamURL th) ''://'' = None"
  shows "serve_fetch api wrap th env w r key wd = Panic"
  using assms
  by (simp add: serve_fetch_def apply_rewrite_def redirect_answer_def final_handler_def proxy_def ReverseProxy_ServeHTTP_def
      proxy_rewrite_def split_upstream_def)

end
