(* ===== verification/Wiring.thy ===== *)
theory Wiring
  imports HandlerProps HealthCheck Router
begin

text \<open>
  How the proxy server is put together (\<open>internal/proxyserver\<close>, the files
  \<open>router_wiring.go\<close>, \<open>lifecycle.go\<close>, \<open>tls_listeners.go\<close> and \<open>server.go\<close>) when the
  targets come from files: compiling a target, building and reloading the
  router, the life of the health checkers, listeners, and a request on its way
  through the router to a location. Balancers and health checkers are shared by
  pointer in the code; here they live in two lists and a pointer is a position.
  Parsing a duration (\<open>time.ParseDuration\<close>) and compiling a regular expression are
  arguments.
\<close>

section \<open>Compiling a target\<close>

definition buildHealthCheckConfig :: "(string \<Rightarrow> duration option) \<Rightarrow> HealthCheckConf \<Rightarrow> health_config" where
  "buildHealthCheckConfig dur uc =
     (let parsed = (\<lambda>s def. if s \<noteq> '''' then (case dur s of Some d \<Rightarrow> d | None \<Rightarrow> def) else def) in
      \<lparr>hc_Path = hcc_Path uc, hc_Interval = parsed (hcc_Interval uc) (10 * 10 ^ 9),
       hc_Timeout = parsed (hcc_Timeout uc) (3 * 10 ^ 9),
       hc_ExpectedStatus = (if hcc_ExpectedStatus uc = 0 then 200 else hcc_ExpectedStatus uc),
       hc_Headers = hcc_Headers uc\<rparr>)"

text \<open>\<open>lo.SliceToMap\<close>: of two upstreams with one URL the later one is in the map.\<close>

definition ucByURL :: "UpstreamConfig list \<Rightarrow> string \<Rightarrow> UpstreamConfig option" where
  "ucByURL us = map_of (rev (map (\<lambda>uc. (uc_URL uc, uc)) us))"

definition lb_upstreams :: "UpstreamConfig list \<Rightarrow> url list \<Rightarrow> upstream list" where
  "lb_upstreams us urls =
     concat (map (\<lambda>u. case ucByURL us (URL_String u) of
                        Some uc \<Rightarrow> [\<lparr>URL = URL_String u, Weight = uc_Weight uc, Healthy = False, LastCheck = 0\<rparr>]
                      | None \<Rightarrow> []) urls)"

definition target_health_check :: "(string \<Rightarrow> duration option) \<Rightarrow> UpstreamConfig list \<Rightarrow> health_config option" where
  "target_health_check dur us =
     (case find (\<lambda>uc. case uc_HealthCheck uc of Some hc \<Rightarrow> hcc_Path hc \<noteq> '''' | None \<Rightarrow> False) us of
        Some uc \<Rightarrow> map_option (\<lambda>hc. NewHealthChecker (Some (buildHealthCheckConfig dur hc))) (uc_HealthCheck uc)
      | None \<Rightarrow> None)"

text \<open>The compiled locations with the first one at the root path.\<close>

fun build_handlers ::
  "(string \<Rightarrow> (string \<Rightarrow> string \<Rightarrow> string) option) \<Rightarrow> (string \<Rightarrow> duration option) \<Rightarrow> int \<Rightarrow> TargetConfig \<Rightarrow>
   LocationConfig list \<Rightarrow> TargetHandler list \<Rightarrow> TargetHandler option \<Rightarrow> (TargetHandler list \<times> TargetHandler option) go" where
  "build_handlers replace dur maxBody t [] hs def = Ret (hs, def)"
| "build_handlers replace dur maxBody t (loc # locs) hs def =
     go_bind (NewTargetHandler replace t loc (dur (loc_CacheTTL loc)) maxBody) (\<lambda>h.
       build_handlers replace dur maxBody t locs (hs @ [h]) (if loc_Path loc = ''/'' \<and> def = None then Some h else def))"

definition buildTargetConfigHandler ::
  "(string \<Rightarrow> (string \<Rightarrow> string \<Rightarrow> string) option) \<Rightarrow> (string \<Rightarrow> duration option) \<Rightarrow> int \<Rightarrow> TargetConfig \<Rightarrow>
   (config_error, TargetHandler TargetConfigHandler \<times> balancer \<times> health_config option) result go" where
  "buildTargetConfigHandler replace dur maxBody t =
     (case ParseUpstreams t of
        Inl e \<Rightarrow> Ret (Inl e)
      | Inr urls \<Rightarrow>
          go_bind (New (tc_LBAlgorithm t) (lb_upstreams (tc_Upstreams t) urls)) (\<lambda>lb.
            go_bind (build_handlers replace dur maxBody t (tc_Locations t) [] None) (\<lambda>(hs, def).
              Ret (Inr (\<lparr>tch_Target = t, tch_Handlers = hs, tch_DefaultLoc = def\<rparr>, lb,
                        target_health_check dur (tc_Upstreams t))))))"

definition targetHostKey :: "TargetConfig \<Rightarrow> string" where
  "targetHostKey t = tc_ServerName t"

section \<open>State\<close>

text \<open>A health checker: its goroutine runs once it is started and until it is stopped.\<close>

record checker =
  ck_config :: health_config
  ck_lb :: nat
  ck_started :: bool
  ck_stopped :: bool

definition hc_Start :: "checker \<Rightarrow> checker" where
  "hc_Start c = c\<lparr>ck_started := True\<rparr>"

text \<open>Closing the channel a second time panics.\<close>

definition hc_Stop :: "checker \<Rightarrow> checker go" where
  "hc_Stop c = (if ck_stopped c then Panic else Ret (c\<lparr>ck_stopped := True\<rparr>))"

definition running :: "checker \<Rightarrow> bool" where
  "running c \<longleftrightarrow> ck_started c \<and> \<not> ck_stopped c"

text \<open>What the router hands a request to: a compiled target or one of its locations, with its balancer.\<close>

datatype route = ToTarget "TargetHandler TargetConfigHandler" nat | ToLocation TargetHandler nat

record 'p proxyServer =
  ps_router :: "route HostRouter"
  ps_diskCache :: disk_cache
  ps_pluginMgr :: "'p PluginManager option"
  ps_proxyCfg :: ProxyConfig
  ps_maxBodySize :: int
  ps_targets :: "TargetConfig list"
  ps_healthCheckers :: "(string \<times> nat) list"
  ps_balancers :: "balancer list"
  ps_checkers :: "checker list"

section \<open>Building the router\<close>

record build =
  bd_targets :: "(string \<times> route) list"
  bd_default :: "route option"
  bd_health :: "(string \<times> nat) list"
  bd_balancers :: "balancer list"
  bd_checkers :: "checker list"

definition add_target ::
  "TargetConfig \<Rightarrow> TargetHandler TargetConfigHandler \<times> balancer \<times> health_config option \<Rightarrow> build \<Rightarrow> build" where
  "add_target t built b =
     (case built of (tch, lb, hc) \<Rightarrow>
        (let i = length (bd_balancers b); j = length (bd_checkers b);
             b1 = b\<lparr>bd_balancers := bd_balancers b @ [lb]\<rparr>;
             b2 = (case hc of
                     None \<Rightarrow> b1
                   | Some cfg \<Rightarrow> b1\<lparr>bd_health := AList.update (tc_ServerName t) j (bd_health b1),
                       bd_checkers := bd_checkers b1 @ [\<lparr>ck_config = cfg, ck_lb = i, ck_started = False, ck_stopped = False\<rparr>]\<rparr>);
             b3 = b2\<lparr>bd_targets := AList.update (targetHostKey t) (ToTarget tch i) (bd_targets b2)\<rparr>
         in case bd_default b3 of
              Some _ \<Rightarrow> b3
            | None \<Rightarrow> b3\<lparr>bd_default := map_option (\<lambda>h. ToLocation h i) (tch_DefaultLoc tch)\<rparr>))"

fun build_targets ::
  "(string \<Rightarrow> (string \<Rightarrow> string \<Rightarrow> string) option) \<Rightarrow> (string \<Rightarrow> duration option) \<Rightarrow> int \<Rightarrow> TargetConfig list \<Rightarrow> build \<Rightarrow> build go" where
  "build_targets replace dur maxBody [] b = Ret b"
| "build_targets replace dur maxBody (t # ts) b =
     go_bind (buildTargetConfigHandler replace dur maxBody t) (\<lambda>res.
       case res of
         Inl e \<Rightarrow> build_targets replace dur maxBody ts b
       | Inr built \<Rightarrow> build_targets replace dur maxBody ts (add_target t built b))"

text \<open>Stop the checkers whose name is gone, start those whose name is new.\<close>

fun stop_old :: "(string \<times> nat) list \<Rightarrow> (string \<times> nat) list \<Rightarrow> checker list \<Rightarrow> checker list go" where
  "stop_old new [] cks = Ret cks"
| "stop_old new ((name, i) # old) cks =
     (if map_of new name = None
      then go_bind (go_index cks i) (\<lambda>c. go_bind (hc_Stop c) (\<lambda>c'. stop_old new old (cks[i := c'])))
      else stop_old new old cks)"

fun start_new :: "(string \<times> nat) list \<Rightarrow> (string \<times> nat) list \<Rightarrow> checker list \<Rightarrow> checker list go" where
  "start_new old [] cks = Ret cks"
| "start_new old ((name, i) # new) cks =
     (if map_of old name = None
      then go_bind (go_index cks i) (\<lambda>c. start_new old new (cks[i := hc_Start c]))
      else start_new old new cks)"

definition buildHostRouter ::
  "(string \<Rightarrow> (string \<Rightarrow> string \<Rightarrow> string) option) \<Rightarrow> (string \<Rightarrow> duration option) \<Rightarrow> 'p proxyServer \<Rightarrow>
   (route HostRouter \<times> 'p proxyServer) go" where
  "buildHostRouter replace dur ps =
     go_bind (build_targets replace dur (ps_maxBodySize ps) (ps_targets ps)
       \<lparr>bd_targets = [], bd_default = None, bd_health = [], bd_balancers = ps_balancers ps, bd_checkers = ps_checkers ps\<rparr>) (\<lambda>b.
     go_bind (stop_old (bd_health b) (ps_healthCheckers ps) (bd_checkers b)) (\<lambda>cks1.
     go_bind (start_new (ps_healthCheckers ps) (bd_health b) cks1) (\<lambda>cks2.
       Ret (Reload NewHostRouter (bd_targets b) (bd_default b),
            ps\<lparr>ps_healthCheckers := bd_health b, ps_balancers := bd_balancers b, ps_checkers := cks2\<rparr>))))"

text \<open>
  \<open>reloadFrom\<close>; \<open>cfg\<close> and \<open>targets\<close> are the results of loading the files, None an
  error. Reopening plugin outputs and replacing certificates touch nothing of
  this state.
\<close>

definition reloadFrom ::
  "(string \<Rightarrow> (string \<Rightarrow> string \<Rightarrow> string) option) \<Rightarrow> (string \<Rightarrow> duration option) \<Rightarrow> ProxyConfig option \<Rightarrow>
   TargetConfig list option \<Rightarrow> 'p proxyServer \<Rightarrow> (bool \<times> 'p proxyServer) go" where
  "reloadFrom replace dur cfg targets ps =
     (case cfg of
        None \<Rightarrow> Ret (False, ps)
      | Some c \<Rightarrow>
          (case targets of
             None \<Rightarrow> Ret (False, ps)
           | Some ts \<Rightarrow>
               go_bind (buildHostRouter replace dur (ps\<lparr>ps_targets := ts, ps_proxyCfg := c\<rparr>)) (\<lambda>(hr, ps1).
                 Ret (True, ps1\<lparr>ps_router := Reload (ps_router ps1) (GetTargets hr) (GetDefaultHandler hr)\<rparr>))))"

text \<open>The part of \<open>start\<close> that builds the routes.\<close>

definition start_router ::
  "(string \<Rightarrow> (string \<Rightarrow> string \<Rightarrow> string) option) \<Rightarrow> (string \<Rightarrow> duration option) \<Rightarrow> 'p proxyServer \<Rightarrow> 'p proxyServer go" where
  "start_router replace dur ps =
     go_bind (buildHostRouter replace dur ps) (\<lambda>(hr, ps1). Ret (ps1\<lparr>ps_router := hr\<rparr>))"

text \<open>The checkers at \<open>shutdown\<close>.\<close>

fun stop_all :: "(string \<times> nat) list \<Rightarrow> checker list \<Rightarrow> checker list go" where
  "stop_all [] cks = Ret cks"
| "stop_all ((name, i) # hcs) cks =
     go_bind (go_index cks i) (\<lambda>c. go_bind (hc_Stop c) (\<lambda>c'. stop_all hcs (cks[i := c'])))"

section \<open>A request through the router\<close>

definition serve_location ::
  "'p plugin_api \<Rightarrow> ('p \<Rightarrow> ('p proxy_handler \<Rightarrow> 'p proxy_handler) option) \<Rightarrow> environment \<Rightarrow> TargetHandler \<Rightarrow> nat \<Rightarrow>
   response_writer \<Rightarrow> request \<Rightarrow> 'p proxyServer \<Rightarrow> (response_writer \<times> 'p proxyServer) go" where
  "serve_location api wrap env th i w r ps =
     go_bind (go_index (ps_balancers ps) i) (\<lambda>lb.
     go_bind (ServeHTTP api wrap th env \<lparr>wd_cache = ps_diskCache ps, wd_lb = lb, wd_pm = ps_pluginMgr ps\<rparr> w r) (\<lambda>(w', cached, wd, fl).
       Ret (w', ps\<lparr>ps_diskCache := wd_cache wd, ps_pluginMgr := wd_pm wd, ps_balancers := (ps_balancers ps)[i := wd_lb wd]\<rparr>)))"

definition router_ServeHTTP ::
  "(string \<Rightarrow> (string \<Rightarrow> bool) option) \<Rightarrow> 'p plugin_api \<Rightarrow> ('p \<Rightarrow> ('p proxy_handler \<Rightarrow> 'p proxy_handler) option) \<Rightarrow>
   environment \<Rightarrow> response_writer \<Rightarrow> request \<Rightarrow> 'p proxyServer \<Rightarrow> (response_writer \<times> 'p proxyServer) go" where
  "router_ServeHTTP re api wrap env w r ps =
     (case hr_route (ps_router ps) r of
        None \<Rightarrow> Ret (http_Error w ''No matching target for host'' 404, ps)
      | Some (ToLocation th i) \<Rightarrow> serve_location api wrap env th i w r ps
      | Some (ToTarget tch i) \<Rightarrow>
          go_bind (tch_route re th_location tch (Path r)) (\<lambda>best.
            case best of
              None \<Rightarrow> Ret (http_Error w ''No matching location'' 404, ps)
            | Some th \<Rightarrow> serve_location api wrap env th i w r ps))"

text \<open>The plugins that wrap the router, in their order: the last one is outermost.\<close>

definition buildFrontendHandler :: "('p \<Rightarrow> ('h \<Rightarrow> 'h) option) \<Rightarrow> 'p PluginManager option \<Rightarrow> 'h \<Rightarrow> 'h" where
  "buildFrontendHandler wrapRouter pm router =
     (case pm of
        None \<Rightarrow> router
      | Some m \<Rightarrow> foldl (\<lambda>h p. case wrapRouter p of Some f \<Rightarrow> f h | None \<Rightarrow> h) router (GetPlugins m))"

section \<open>Changed targets\<close>

text \<open>
  \<open>changedTargetNames\<close>; \<open>marshal\<close> is \<open>yaml.Marshal\<close>. The order of the deleted names is
  that of the map.
\<close>

definition serialize :: "(TargetConfig \<Rightarrow> string option) \<Rightarrow> TargetConfig list \<Rightarrow> (string \<times> string) list" where
  "serialize marshal ts =
     foldl (\<lambda>out t. case marshal t of Some d \<Rightarrow> AList.update (tc_ServerName t) d out | None \<Rightarrow> out) [] ts"

definition changedTargetNames ::
  "(TargetConfig \<Rightarrow> string option) \<Rightarrow> TargetConfig list \<Rightarrow> TargetConfig list \<Rightarrow> string list" where
  "changedTargetNames marshal prev next =
     (let prevByName = serialize marshal prev;
          looked = (\<lambda>name. case map_of prevByName name of Some d \<Rightarrow> d | None \<Rightarrow> '''')
      in concat (map (\<lambda>t. case marshal t of
                            Some d \<Rightarrow> if looked (tc_ServerName t) \<noteq> d then [tc_ServerName t] else []
                          | None \<Rightarrow> []) next) @
         concat (map (\<lambda>(name, _). if name \<in> set (map tc_ServerName next) then [] else [name @ '' (deleted)'']) prevByName))"

section \<open>Listeners\<close>

definition listenerSpecs :: "ProxyConfig \<Rightarrow> (config_error, ListenersSpec list) result" where
  "listenerSpecs cfg =
     (case ParseListeners cfg of
        Inl e \<Rightarrow> Inl e
      | Inr specs \<Rightarrow> Inr (if specs \<noteq> [] then specs else [\<lparr>ls_Addr = '':8081'', ls_SSL = False, ls_QUIC = False\<rparr>]))"

definition tlsRequested :: "'p proxyServer \<Rightarrow> bool" where
  "tlsRequested ps =
     (list_ex (\<lambda>sp. ls_SSL sp \<or> ls_QUIC sp) (case ParseListeners (ps_proxyCfg ps) of Inr specs \<Rightarrow> specs | Inl _ \<Rightarrow> []) \<or>
      pc_TLSCertFile (ps_proxyCfg ps) \<noteq> '''' \<or> pc_TLSKeyFile (ps_proxyCfg ps) \<noteq> '''' \<or>
      list_ex (\<lambda>t. case tc_TLS t of Some f \<Rightarrow> tls_CertFile f \<noteq> '''' \<or> tls_KeyFile f \<noteq> '''' | None \<Rightarrow> False) (ps_targets ps))"

text \<open>
  The certificates of the TLS configuration, None without one; \<open>load\<close> is
  \<open>tls.LoadX509KeyPair\<close>, \<open>self_signed\<close> a generated certificate.
\<close>

definition buildTLSConfig :: "(string \<Rightarrow> string \<Rightarrow> 'cert option) \<Rightarrow> 'cert option \<Rightarrow> 'p proxyServer \<Rightarrow> 'cert list option" where
  "buildTLSConfig load self_signed ps =
     (let pair = (\<lambda>cert key. if cert \<noteq> '''' \<and> key \<noteq> '''' then (case load cert key of Some c \<Rightarrow> [c] | None \<Rightarrow> []) else []);
          certs = concat (map (\<lambda>t. case tc_TLS t of Some f \<Rightarrow> pair (tls_CertFile f) (tls_KeyFile f) | None \<Rightarrow> []) (ps_targets ps)) @
            pair (pc_TLSCertFile (ps_proxyCfg ps)) (pc_TLSKeyFile (ps_proxyCfg ps))
      in if certs \<noteq> [] then Some certs
         else if tlsRequested ps then map_option (\<lambda>c. [c]) self_signed
         else None)"

text \<open>The sockets of a server, each with its address and whether it is open.\<close>

record sockets =
  sk_lns :: "(string \<times> bool) list"
  sk_h3Conns :: "(string \<times> bool) list"

definition closeListeners :: "sockets \<Rightarrow> sockets" where
  "closeListeners s =
     s\<lparr>sk_lns := map (\<lambda>(a, _). (a, False)) (sk_lns s), sk_h3Conns := map (\<lambda>(a, _). (a, False)) (sk_h3Conns s)\<rparr>"

datatype start_error = ReplayFailed | BadListeners config_error | NeedsCertificate string | ListenFailed string | QuicFailed string

text \<open>The two loops of \<open>start\<close> that bind; \<open>ok\<close> says whether an address can be bound.\<close>

fun bind_tcp :: "(string \<Rightarrow> bool) \<Rightarrow> ListenersSpec list \<Rightarrow> sockets \<Rightarrow> start_error option \<times> sockets" where
  "bind_tcp ok [] s = (None, s)"
| "bind_tcp ok (sp # specs) s =
     (if \<not> ls_SSL sp \<and> ls_QUIC sp then bind_tcp ok specs s
      else if ok (ls_Addr sp) then bind_tcp ok specs (s\<lparr>sk_lns := sk_lns s @ [(ls_Addr sp, True)]\<rparr>)
      else (Some (ListenFailed (ls_Addr sp)), closeListeners s))"

definition startQuicListener :: "(string \<Rightarrow> bool) \<Rightarrow> string \<Rightarrow> sockets \<Rightarrow> start_error option \<times> sockets" where
  "startQuicListener ok addr s =
     (if addr = '''' then (None, s)
      else if ok addr then (None, s\<lparr>sk_h3Conns := sk_h3Conns s @ [(addr, True)]\<rparr>)
      else (Some (QuicFailed addr), s))"

fun bind_quic :: "(string \<Rightarrow> bool) \<Rightarrow> ListenersSpec list \<Rightarrow> sockets \<Rightarrow> start_error option \<times> sockets" where
  "bind_quic ok [] s = (None, s)"
| "bind_quic ok (sp # specs) s =
     (if \<not> ls_QUIC sp then bind_quic ok specs s
      else
        (case startQuicListener ok (ls_Addr sp) s of
           (Some e, s1) \<Rightarrow> (Some e, closeListeners s1)
         | (None, s1) \<Rightarrow> bind_quic ok specs s1))"

text \<open>
  \<open>start\<close> from the resolved listeners to the bound sockets; \<open>certs\<close> is the TLS
  configuration. The serve loops that follow are the standard library's.
\<close>

definition start_listeners ::
  "(string \<Rightarrow> bool) \<Rightarrow> (string \<Rightarrow> bool) \<Rightarrow> 'cert list option \<Rightarrow> ProxyConfig \<Rightarrow> start_error option \<times> sockets" where
  "start_listeners tcp udp certs cfg =
     (let none = \<lparr>sk_lns = [], sk_h3Conns = []\<rparr> in
      case listenerSpecs cfg of
        Inl e \<Rightarrow> (Some (BadListeners e), none)
      | Inr specs \<Rightarrow>
          (case find (\<lambda>sp. ls_SSL sp \<and> certs = None) specs of
             Some sp \<Rightarrow> (Some (NeedsCertificate (ls_Addr sp)), none)
           | None \<Rightarrow>
               (case bind_tcp tcp specs none of
                  (Some e, s) \<Rightarrow> (Some e, s)
                | (None, s) \<Rightarrow> bind_quic udp specs s)))"

section \<open>Starting and stopping\<close>

text \<open>
  The gate before the routes are built: \<open>failed\<close> is a configuration stream that
  could not be opened, \<open>ready\<close> the time the replay takes if there is a stream, with
  None for one that never ends.
\<close>

definition waitForConfigReplay :: "bool \<Rightarrow> int option option \<Rightarrow> ProxyConfig \<Rightarrow> start_error option" where
  "waitForConfigReplay failed ready cfg =
     (if failed then Some ReplayFailed
      else
        (case ready of
           None \<Rightarrow> None
         | Some t \<Rightarrow>
             (let timeout = (case pc_Cluster cfg of
                               Some c \<Rightarrow> if cc_ReplayTimeout c > 0 then cc_ReplayTimeout c else DefaultReplayTimeout
                             | None \<Rightarrow> DefaultReplayTimeout)
              in case t of Some d \<Rightarrow> if d \<le> timeout then None else Some ReplayFailed | None \<Rightarrow> Some ReplayFailed)))"

definition maxWriteWorkers :: nat where
  "maxWriteWorkers = 8"

text \<open>The number of slots of the write pool, None for no limit.\<close>

definition buildWriteSem :: "int \<Rightarrow> nat option" where
  "buildWriteSem workers = (if workers < 0 then None else if workers = 0 then Some maxWriteWorkers else Some (nat workers))"

text \<open>
  \<open>shutdown\<close>: the checkers are stopped, then the servers and sockets; \<open>quic\<close>, \<open>conns\<close>
  and \<open>tcp\<close> are the errors of closing them (None for success), \<open>lsn\<close> is the listener
  of a server without TCP servers. The result is the joined errors.
\<close>

definition shutdown ::
  "string option list \<Rightarrow> string option list \<Rightarrow> string option list \<Rightarrow> string option option \<Rightarrow> 'p proxyServer \<Rightarrow>
   (string list \<times> 'p proxyServer) go" where
  "shutdown quic conns tcp lsn ps =
     go_bind (stop_all (ps_healthCheckers ps) (ps_checkers ps)) (\<lambda>cks.
       (let errs = List.map_filter id (quic @ conns) in
        Ret (if tcp \<noteq> [] then errs @ List.map_filter id tcp
             else (case lsn of Some e \<Rightarrow> (case e of Some m \<Rightarrow> [m] | None \<Rightarrow> []) | None \<Rightarrow> errs),
             ps\<lparr>ps_checkers := cks\<rparr>)))"

end
