(* ===== verification/Check.thy ===== *)
theory Check
  imports Wiring Purges
begin

text \<open>
  Loading the configuration files (\<open>internal/config/loader.go\<close>) and the checks of
  the command \<open>check\<close> (\<open>internal/proxyserver/check.go\<close>). Reading and decoding a YAML
  file is an argument, as are the parsers for sizes and durations.
\<close>

section \<open>Loading\<close>

datatype load_error = Unreadable string | NoTargetFiles

text \<open>The loop over the entries of a directory: name and whether it is a directory.\<close>

fun load_entries ::
  "(string \<Rightarrow> TargetConfig option) \<Rightarrow> (string \<times> bool) list \<Rightarrow> TargetConfig list \<Rightarrow> (load_error, TargetConfig list) result" where
  "load_entries load [] targets = (if targets = [] then Inl NoTargetFiles else Inr targets)"
| "load_entries load ((name, dir) # es) targets =
     (if dir \<or> filepath_Ext name \<noteq> ''.yaml'' \<and> filepath_Ext name \<noteq> ''.yml'' then load_entries load es targets
      else
        (case load name of
           None \<Rightarrow> Inl (Unreadable name)
         | Some t \<Rightarrow> load_entries load es (targets @ [t])))"

definition LoadTargets ::
  "(string \<Rightarrow> TargetConfig option) \<Rightarrow> (string \<times> bool) list option \<Rightarrow> (load_error, TargetConfig list) result" where
  "LoadTargets load entries =
     (case entries of None \<Rightarrow> Inl (Unreadable '''') | Some es \<Rightarrow> load_entries load es [])"

section \<open>Checks\<close>

datatype check_error =
    BadProxyConfig | BadMaxCacheSize | BadMaxCacheAge | BadMaxResponseBodySize | BadMaxWriteWorkers
  | BadListenersDirective config_error | BadRateLimit string | BadCluster string | BadTargets load_error
  | BadUpstreams string | BadCacheTTL string string | BadRule string string string

text \<open>Successive checks: the first one that fails ends.\<close>

definition andThen :: "'e option \<Rightarrow> 'e option \<Rightarrow> 'e option" where
  "andThen a b = (case a of Some e \<Rightarrow> Some e | None \<Rightarrow> b)"

definition check_globals :: "(string \<Rightarrow> int option) \<Rightarrow> (string \<Rightarrow> duration option) \<Rightarrow> ProxyConfig \<Rightarrow> check_error option" where
  "check_globals sz dur cfg =
     andThen (if pc_MaxCacheSize cfg \<noteq> '''' \<and> sz (pc_MaxCacheSize cfg) = None then Some BadMaxCacheSize else None) (
     andThen (if pc_MaxCacheAge cfg \<noteq> '''' \<and> dur (pc_MaxCacheAge cfg) = None then Some BadMaxCacheAge else None) (
     andThen (if pc_MaxResponseBodySize cfg \<noteq> '''' \<and> sz (pc_MaxResponseBodySize cfg) = None
              then Some BadMaxResponseBodySize else None) (
     andThen (if pc_MaxWriteWorkers cfg < -1 then Some BadMaxWriteWorkers else None)
       (case ParseListeners cfg of Inl e \<Rightarrow> Some (BadListenersDirective e) | Inr _ \<Rightarrow> None))))"

definition check_rate_limit :: "RateLimitConfig option \<Rightarrow> check_error option" where
  "check_rate_limit rl =
     (case rl of
        None \<Rightarrow> None
      | Some c \<Rightarrow>
          andThen (if rlc_RPS c < 0 then Some (BadRateLimit ''rps'') else None)
            (if rlc_Burst c < 0 then Some (BadRateLimit ''burst'') else None))"

definition check_cluster :: "ClusterConfig option \<Rightarrow> check_error option" where
  "check_cluster cl =
     (case cl of
        None \<Rightarrow> None
      | Some c \<Rightarrow>
          if \<not> cc_Enabled c then None
          else
            andThen (if cc_Lazy c \<and> cc_DataDir c = '''' then Some (BadCluster ''data_dir'') else None) (
            andThen (if cc_Lazy c \<and> cc_LRUSize c < 0 then Some (BadCluster ''lru_size'') else None) (
            andThen (if cc_NATSURI c \<noteq> '''' \<and> \<not> HasPrefix (cc_NATSURI c) ''nats://'' \<and> \<not> HasPrefix (cc_NATSURI c) ''tls://''
                     then Some (BadCluster ''nats_uri'') else None)
              (if cc_ReplayTimeout c < 0 then Some (BadCluster ''replay_timeout'') else None))))"

definition is_rate_limit :: "string \<Rightarrow> bool" where
  "is_rate_limit ty =
     (let ty' = ToLower (map (\<lambda>c. if c = CHR ''-'' then CHR ''_'' else c) ty)
      in ty' = ''rate_limit'' \<or> ty' = ''ratelimit'')"

fun check_rules :: "string \<Rightarrow> string \<Rightarrow> WAFRule list \<Rightarrow> check_error option" where
  "check_rules name path [] = None"
| "check_rules name path (r # rs) =
     andThen (if is_rate_limit (act_Type (wr_Action r))
              then andThen (if act_RPS (wr_Action r) < 0 then Some (BadRule name path (wr_ID r)) else None)
                     (if act_Burst (wr_Action r) < 0 then Some (BadRule name path (wr_ID r)) else None)
              else None)
       (check_rules name path rs)"

text \<open>\<open>ParseCacheTTL\<close> fails only for a duration that is there and is not one.\<close>

fun check_locations :: "(string \<Rightarrow> duration option) \<Rightarrow> string \<Rightarrow> LocationConfig list \<Rightarrow> check_error option" where
  "check_locations dur name [] = None"
| "check_locations dur name (l # ls) =
     andThen (if loc_CacheTTL l \<noteq> '''' \<and> dur (loc_CacheTTL l) = None then Some (BadCacheTTL name (loc_Path l)) else None) (
     andThen (case loc_WAF l of None \<Rightarrow> None | Some waf \<Rightarrow> check_rules name (loc_Path l) (wl_Rules waf))
       (check_locations dur name ls))"

fun check_targets :: "(string \<Rightarrow> duration option) \<Rightarrow> TargetConfig list \<Rightarrow> check_error option" where
  "check_targets dur [] = None"
| "check_targets dur (t # ts) =
     andThen (if tc_Upstreams t \<noteq> [] \<and> isl (ParseUpstreams t) then Some (BadUpstreams (tc_ServerName t)) else None) (
     andThen (check_locations dur (tc_ServerName t) (tc_Locations t))
       (check_targets dur ts))"

definition CheckConfig ::
  "(string \<Rightarrow> int option) \<Rightarrow> (string \<Rightarrow> duration option) \<Rightarrow> ProxyConfig option \<Rightarrow> (load_error, TargetConfig list) result \<Rightarrow>
   check_error option" where
  "CheckConfig sz dur cfg targets =
     (case cfg of
        None \<Rightarrow> Some BadProxyConfig
      | Some c \<Rightarrow>
          andThen (check_globals sz dur c) (
          andThen (check_rate_limit (pc_RateLimit c)) (
          andThen (check_cluster (pc_Cluster c))
            (case targets of Inl e \<Rightarrow> Some (BadTargets e) | Inr ts \<Rightarrow> check_targets dur ts))))"

end
