(* ===== verification/WiringProps.thy ===== *)
theory WiringProps
  imports Check
begin

text \<open>
  What the wiring promises: a target is compiled into a balancer over exactly its
  upstreams and one handler per location, the router sends a request to the
  target of its host, and a failed start leaves no socket open. And where it
  departs: a reload leaves the health checkers of a target it keeps behind, a
  second shutdown panics, and a configuration the checks accept can panic.
\<close>

section \<open>Compiled targets\<close>

lemma ParseURL_String: "ParseURL raw = Inr u \<Longrightarrow> URL_String u = raw"
  by (auto simp: ParseURL_def URL_String_def dest: Cut_Some split: option.splits)

lemma parse_upstreams_urls: "parse_upstreams us = Inr vs \<Longrightarrow> map URL_String vs = map uc_URL us"
  by (induction us arbitrary: vs) (auto dest: ParseURL_String split: sum.splits)

lemma lb_upstreams_nth:
  assumes "map URL_String urls = map uc_URL us"
  shows "map URL (lb_upstreams us urls) = map uc_URL us" "\<forall>u \<in> set (lb_upstreams us urls). \<not> Healthy u"
proof -
  have "map URL (lb_upstreams us vs) = map URL_String vs" if "URL_String ` set vs \<subseteq> uc_URL ` set us" for vs
    using that
  proof (induction vs)
    case (Cons v vs)
    then obtain uc where "uc \<in> set us" "URL_String v = uc_URL uc" by auto
    then have "ucByURL us (URL_String v) \<noteq> None" by (auto simp: ucByURL_def map_of_eq_None_iff image_image)
    then show ?case using Cons by (auto simp: lb_upstreams_def)
  qed (simp add: lb_upstreams_def)
  moreover have "URL_String ` set urls = uc_URL ` set us" using assms by (metis set_map)
  ultimately show "map URL (lb_upstreams us urls) = map uc_URL us" using assms by simp
  show "\<forall>u \<in> set (lb_upstreams us urls). \<not> Healthy u" by (auto simp: lb_upstreams_def split: option.splits)
qed

text \<open>The rewrite patterns of the locations compile.\<close>

definition rewrites_ok :: "(string \<Rightarrow> (string \<Rightarrow> string \<Rightarrow> string) option) \<Rightarrow> LocationConfig list \<Rightarrow> bool" where
  "rewrites_ok replace locs =
     list_all (\<lambda>l. case loc_Rewrite l of Some rw \<Rightarrow> rc_Pattern rw = '''' \<or> replace (rc_Pattern rw) \<noteq> None | None \<Rightarrow> True) locs"

lemma NewTargetHandler_ok:
  assumes "rewrites_ok replace [loc]"
  shows "\<exists>h. NewTargetHandler replace t loc ttl m = Ret h \<and> th_location h = loc \<and> th_target h = t \<and> th_maxBodySize h = m"
  using assms by (auto simp: NewTargetHandler_def rewrites_ok_def Let_def split: option.split)

lemma build_handlers_ok:
  assumes "rewrites_ok replace locs"
  shows "\<exists>hs' def'. build_handlers replace dur m t locs hs def = Ret (hs @ hs', def') \<and> map th_location hs' = locs \<and>
    (\<forall>h \<in> set hs'. th_target h = t) \<and>
    map_option th_location def' =
      (if def = None then find (\<lambda>l. loc_Path l = ''/'') locs else map_option th_location def)"
  using assms
proof (induction locs arbitrary: hs def)
  case (Cons loc locs)
  have "rewrites_ok replace [loc]" and rest: "rewrites_ok replace locs" using Cons.prems by (simp_all add: rewrites_ok_def)
  then obtain h where h: "NewTargetHandler replace t loc (dur (loc_CacheTTL loc)) m = Ret h" "th_location h = loc" "th_target h = t"
    using NewTargetHandler_ok by blast
  obtain hs' def' where "build_handlers replace dur m t locs (hs @ [h]) (if loc_Path loc = ''/'' \<and> def = None then Some h else def) =
      Ret ((hs @ [h]) @ hs', def')" "map th_location hs' = locs" "\<forall>h \<in> set hs'. th_target h = t"
      "map_option th_location def' = (if (if loc_Path loc = ''/'' \<and> def = None then Some h else def) = None
        then find (\<lambda>l. loc_Path l = ''/'') locs
        else map_option th_location (if loc_Path loc = ''/'' \<and> def = None then Some h else def))"
    using Cons.IH [OF rest] by blast
  then show ?case using h by (intro exI [of _ "h # hs'"] exI [of _ def']) (auto split: if_splits)
qed auto

text \<open>
  C21. Compiling a target: if its upstream URLs parse, its algorithm can be built and
  its rewrite patterns compile, the target becomes a balancer that has exactly
  its upstreams, in order and all healthy, one handler per location, in order,
  and the first location at the root path as its default.
\<close>

theorem target_compiles:
  assumes "ParseUpstreams t = Inr urls" "pool_ok (tc_LBAlgorithm t) (lb_upstreams (tc_Upstreams t) urls)"
    and "rewrites_ok replace (tc_Locations t)"
  shows "\<exists>tch lb hc. buildTargetConfigHandler replace dur m t = Ret (Inr (tch, lb, hc)) \<and> lb_invar lb \<and>
    map URL (GetUpstreams lb) = map uc_URL (tc_Upstreams t) \<and> list_all Healthy (GetUpstreams lb) \<and>
    tch_Target tch = t \<and> map th_location (tch_Handlers tch) = tc_Locations t \<and>
    map_option th_location (tch_DefaultLoc tch) = find (\<lambda>l. loc_Path l = ''/'') (tc_Locations t) \<and>
    (hc = None) = list_all (\<lambda>uc. case uc_HealthCheck uc of Some c \<Rightarrow> hcc_Path c = '''' | None \<Rightarrow> True) (tc_Upstreams t)"
proof -
  have "map URL_String urls = map uc_URL (tc_Upstreams t)"
    using assms(1) by (simp add: ParseUpstreams_def parse_upstreams_urls)
  then have urls: "map URL (lb_upstreams (tc_Upstreams t) urls) = map uc_URL (tc_Upstreams t)"
    by (rule lb_upstreams_nth)
  obtain lb where lb: "New (tc_LBAlgorithm t) (lb_upstreams (tc_Upstreams t) urls) = Ret lb" "lb_invar lb"
      "GetUpstreams lb = all_healthy (lb_upstreams (tc_Upstreams t) urls)"
    using New_ok [OF assms(2)] by blast
  obtain hs def where b: "build_handlers replace dur m t (tc_Locations t) [] None = Ret ([] @ hs, def)"
      "map th_location hs = tc_Locations t"
      "map_option th_location def = (if None = None then find (\<lambda>l. loc_Path l = ''/'') (tc_Locations t)
        else map_option th_location None)"
    using build_handlers_ok [OF assms(3), of dur m t "[]" None] by auto
  have "(target_health_check dur us = None) =
      list_all (\<lambda>uc. case uc_HealthCheck uc of Some c \<Rightarrow> hcc_Path c = '''' | None \<Rightarrow> True) us" for us
    by (induction us) (auto simp: target_health_check_def split: option.splits)
  then show ?thesis
    using lb b urls assms(1) by (auto simp: buildTargetConfigHandler_def all_healthy_def list_all_iff comp_def)
qed

theorem target_compiles_witness:
  "\<exists>tch lb hc. buildTargetConfigHandler (\<lambda>p. None) (\<lambda>s. None) 0
     \<lparr>tc_ServerName = ''h'', tc_HostHeader = '''',
      tc_Upstreams = [\<lparr>uc_URL = ''http://a'', uc_Weight = 1, uc_HealthCheck = None\<rparr>,
                      \<lparr>uc_URL = ''http://b'', uc_Weight = 2, uc_HealthCheck = None\<rparr>],
      tc_LBAlgorithm = ''least_conn'', tc_Locations = [location ''/'' MatchPrefix True], tc_TLS = None\<rparr> =
    Ret (Inr (tch, lb, hc)) \<and> map URL (GetUpstreams lb) = [''http://a'', ''http://b'']"
proof -
  let ?t = "\<lparr>tc_ServerName = ''h'', tc_HostHeader = '''',
      tc_Upstreams = [\<lparr>uc_URL = ''http://a'', uc_Weight = 1, uc_HealthCheck = None\<rparr>,
                      \<lparr>uc_URL = ''http://b'', uc_Weight = 2, uc_HealthCheck = None\<rparr>],
      tc_LBAlgorithm = ''least_conn'', tc_Locations = [location ''/'' MatchPrefix True], tc_TLS = None\<rparr>"
  have "ParseUpstreams ?t = Inr [\<lparr>Scheme = ''http'', url_Host = ''a''\<rparr>, \<lparr>Scheme = ''http'', url_Host = ''b''\<rparr>]"
    by (simp add: ParseUpstreams_def ParseURL_def Cut_def HasPrefix_def)
  from target_compiles [OF this, of "\<lambda>p. None" "\<lambda>s. None" 0] show ?thesis
    by (auto simp: pool_ok_def rewrites_ok_def location_def lb_upstreams_def URL_String_def ucByURL_def)
qed

section \<open>Health checkers over reloads\<close>

lemma set_update: "set (AList.update k v al) \<subseteq> insert (k, v) (set al)"
  by (induction al) auto

lemma distinct_snd_update:
  "distinct (map snd al) \<Longrightarrow> v \<notin> snd ` set al \<Longrightarrow> distinct (map snd (AList.update k v al))"
proof (induction al)
  case (Cons x al)
  have "snd x \<notin> snd ` set (AList.update k v al)" if "fst x \<noteq> k"
    using Cons.prems set_update [of k v al] by auto
  then show ?case using Cons by (cases x) auto
qed simp

text \<open>The table of checkers points to distinct checkers of the list.\<close>

definition table_ok :: "(string \<times> nat) list \<Rightarrow> checker list \<Rightarrow> bool" where
  "table_ok tbl cks \<longleftrightarrow> distinct (map fst tbl) \<and> distinct (map snd tbl) \<and> (\<forall>(n, i) \<in> set tbl. i < length cks)"

lemma table_okD:
  assumes "table_ok tbl cks"
  shows "(n, i) \<in> set tbl \<Longrightarrow> i < length cks" "(n, i) \<in> set tbl \<Longrightarrow> (m, i) \<in> set tbl \<Longrightarrow> n = m"
    "(n, i) \<in> set tbl \<Longrightarrow> map_of tbl n = Some i"
  using assms unfolding table_ok_def by (auto dest: map_of_is_SomeI) (metis (no_types) distinct_map inj_onD prod.inject snd_conv)

text \<open>What building the targets leaves in the lists: the old checkers, then new ones that are not started.\<close>

definition built_ok :: "checker list \<Rightarrow> build \<Rightarrow> bool" where
  "built_ok cks0 b \<longleftrightarrow> table_ok (bd_health b) (bd_checkers b) \<and> (\<forall>(n, i) \<in> set (bd_health b). length cks0 \<le> i) \<and>
     (\<exists>cks. bd_checkers b = cks0 @ cks \<and> list_all (\<lambda>c. \<not> ck_started c) cks)"

lemma add_target_built_ok:
  assumes "built_ok cks0 b"
  shows "built_ok cks0 (add_target t built b)"
proof -
  obtain tch lb hc where [simp]: "built = (tch, lb, hc)" by (cases built) auto
  obtain cks where cks: "bd_checkers b = cks0 @ cks" "list_all (\<lambda>c. \<not> ck_started c) cks"
    using assms by (auto simp: built_ok_def)
  have eqs: "bd_health (add_target t built b) = (case hc of None \<Rightarrow> bd_health b
        | Some cfg \<Rightarrow> AList.update (tc_ServerName t) (length (bd_checkers b)) (bd_health b))"
      "bd_checkers (add_target t built b) = (case hc of None \<Rightarrow> bd_checkers b
        | Some cfg \<Rightarrow> bd_checkers b @ [\<lparr>ck_config = cfg, ck_lb = length (bd_balancers b), ck_started = False, ck_stopped = False\<rparr>])"
    by (auto simp: add_target_def Let_def split: option.split)
  show ?thesis
  proof (cases hc)
    case None
    then show ?thesis using assms eqs by (simp add: built_ok_def)
  next
    case (Some cfg)
    have fresh: "length (bd_checkers b) \<notin> snd ` set (bd_health b)"
      using assms by (fastforce simp: built_ok_def table_ok_def)
    let ?u = "AList.update (tc_ServerName t) (length (bd_checkers b)) (bd_health b)"
    have "distinct (map fst ?u)" "distinct (map snd ?u)"
      using assms fresh distinct_snd_update by (auto simp: built_ok_def table_ok_def distinct_update)
    moreover have "length cks0 \<le> i \<and> i < Suc (length (bd_checkers b))" if "(n, i) \<in> set ?u" for n i
      using that set_update [of "tc_ServerName t" "length (bd_checkers b)" "bd_health b"] assms cks(1)
      by (fastforce simp: built_ok_def table_ok_def)
    ultimately show ?thesis using Some eqs cks by (auto simp: built_ok_def table_ok_def)
  qed
qed

lemma build_targets_built_ok:
  assumes "build_targets replace dur m ts b = Ret b'" "built_ok cks0 b"
  shows "built_ok cks0 b'"
  using assms
proof (induction ts arbitrary: b)
  case (Cons t ts)
  obtain res where res: "buildTargetConfigHandler replace dur m t = Ret res"
    using Cons.prems(1) by (auto simp: go_bind_Ret_iff)
  then show ?case
    using Cons.IH [of b] Cons.IH [OF _ add_target_built_ok [OF Cons.prems(2)]] Cons.prems by (cases res) auto
qed simp

lemma stop_old_effect:
  assumes "stop_old new old cks = Ret cks'"
  shows "length cks' = length cks \<and>
    (\<forall>i. cks' ! i = cks ! i \<or> (\<exists>n. (n, i) \<in> set old \<and> map_of new n = None))"
  using assms
proof (induction new old cks rule: stop_old.induct)
  case (2 new name j old cks)
  show ?case
  proof (cases "map_of new name = None")
    case True
    then obtain c where c: "go_index cks j = Ret c" "stop_old new old (cks[j := c\<lparr>ck_stopped := True\<rparr>]) = Ret cks'"
        "hc_Stop c = Ret (c\<lparr>ck_stopped := True\<rparr>)"
      using "2.prems" by (auto simp: go_bind_Ret_iff hc_Stop_def split: if_splits)
    then have IH: "length cks' = length cks"
        "cks' ! i = cks[j := c\<lparr>ck_stopped := True\<rparr>] ! i \<or> (\<exists>n. (n, i) \<in> set old \<and> map_of new n = None)" for i
      using "2.IH"(1) [OF True c(2)] by auto
    show ?thesis using IH(1) IH(2) True by (metis list.set_intros nth_list_update_neq)
  next
    case False
    then show ?thesis using "2.IH"(2) "2.prems" by fastforce
  qed
qed simp

lemma start_new_effect:
  assumes "start_new old new cks = Ret cks'"
  shows "length cks' = length cks \<and>
    (\<forall>i. cks' ! i = cks ! i \<or> (\<exists>n. (n, i) \<in> set new \<and> map_of old n = None))"
  using assms
proof (induction old new cks rule: start_new.induct)
  case (2 old name j new cks)
  show ?case
  proof (cases "map_of old name = None")
    case True
    then obtain c where c: "go_index cks j = Ret c" "start_new old new (cks[j := hc_Start c]) = Ret cks'"
      using "2.prems" by (auto simp: go_bind_Ret_iff)
    then have IH: "length cks' = length cks"
        "cks' ! i = cks[j := hc_Start c] ! i \<or> (\<exists>n. (n, i) \<in> set new \<and> map_of old n = None)" for i
      using "2.IH"(1) [OF True c(2)] by auto
    show ?thesis using IH(1) IH(2) True by (metis list.set_intros nth_list_update_neq)
  next
    case False
    then show ?thesis using "2.IH"(2) "2.prems" by fastforce
  qed
qed simp

text \<open>
  C36. A reload leaves the checkers of a target it keeps behind: if a name has a
  running checker and still has one after the reload, then the checker that was
  running goes on, on the balancer of the old configuration and out of reach of
  any later stop, while the checker of the new configuration is never started.
\<close>

theorem reload_orphans_checker:
  assumes "table_ok (ps_healthCheckers ps) (ps_checkers ps)"
    and "reloadFrom replace dur (Some cfg) (Some ts) ps = Ret (ok, ps')"
    and "map_of (ps_healthCheckers ps) name = Some i" "running (ps_checkers ps ! i)"
    and "map_of (ps_healthCheckers ps') name = Some j"
  shows "running (ps_checkers ps' ! i) \<and> i \<notin> snd ` set (ps_healthCheckers ps') \<and> \<not> running (ps_checkers ps' ! j)"
proof -
  obtain b cks1 cks2 where run: "build_targets replace dur (ps_maxBodySize ps) ts
        \<lparr>bd_targets = [], bd_default = None, bd_health = [], bd_balancers = ps_balancers ps, bd_checkers = ps_checkers ps\<rparr> = Ret b"
      "stop_old (bd_health b) (ps_healthCheckers ps) (bd_checkers b) = Ret cks1"
      "start_new (ps_healthCheckers ps) (bd_health b) cks1 = Ret cks2"
      "ps_checkers ps' = cks2" "ps_healthCheckers ps' = bd_health b"
    using assms(2) by (auto simp: reloadFrom_def buildHostRouter_def go_bind_Ret_iff)
  have b: "built_ok (ps_checkers ps) b"
    by (rule build_targets_built_ok [OF run(1)]) (simp add: built_ok_def table_ok_def)
  then obtain cks where cks: "bd_checkers b = ps_checkers ps @ cks" "list_all (\<lambda>c. \<not> ck_started c) cks"
    by (auto simp: built_ok_def)
  have i: "(name, i) \<in> set (ps_healthCheckers ps)" "i < length (ps_checkers ps)"
    using assms(1,3) table_okD(1) by (auto dest: map_of_SomeD)
  have j: "(name, j) \<in> set (bd_health b)" "length (ps_checkers ps) \<le> j" "j < length (bd_checkers b)"
    using assms(5) run(5) b by (auto simp: built_ok_def table_ok_def dest!: map_of_SomeD)
  have old: "n = name" if "(n, i) \<in> set (ps_healthCheckers ps)" for n using table_okD(2) [OF assms(1)] that i(1) by blast
  have new: "n = name" if "(n, j) \<in> set (bd_health b)" for n
    using table_okD(2) b that j(1) by (auto simp: built_ok_def)
  have ni: "(n, i) \<notin> set (bd_health b)" for n using b i(2) by (auto simp: built_ok_def)
  have nj: "(n, j) \<notin> set (ps_healthCheckers ps)" for n using table_okD(1) [OF assms(1)] j(2) by fastforce
  have "cks1 ! i = bd_checkers b ! i" "cks1 ! j = bd_checkers b ! j"
    using stop_old_effect [OF run(2)] old nj assms(5) run(5) by (metis option.distinct(1))+
  moreover have "cks2 ! i = cks1 ! i" "cks2 ! j = cks1 ! j"
    using start_new_effect [OF run(3)] ni new assms(3) by (metis option.distinct(1))+
  moreover have "\<not> ck_started (bd_checkers b ! j)"
    using cks j(2,3) by (simp add: nth_append list_all_length)
  ultimately show ?thesis
    using run(4,5) assms(4) cks(1) i(2) ni by (auto simp: running_def nth_append)
qed

text \<open>A server with one target that has an active health check.\<close>

definition sample_target :: TargetConfig where
  "sample_target =
     \<lparr>tc_ServerName = ''h'', tc_HostHeader = '''',
      tc_Upstreams = [\<lparr>uc_URL = ''http://a'', uc_Weight = 1,
        uc_HealthCheck = Some \<lparr>hcc_Path = ''/up'', hcc_Interval = '''', hcc_Timeout = '''', hcc_ExpectedStatus = 0, hcc_Headers = []\<rparr>\<rparr>],
      tc_LBAlgorithm = ''least_conn'', tc_Locations = [location ''/'' MatchPrefix True], tc_TLS = None\<rparr>"

definition sample_config :: ProxyConfig where
  "sample_config =
     \<lparr>pc_CacheDir = '''', pc_MaxCacheSize = '''', pc_MaxCacheAge = '''', pc_TLSCertFile = '''', pc_TLSKeyFile = '''',
      pc_MetricsAddr = '''', pc_Listeners = [], pc_MaxWriteWorkers = 0, pc_MaxResponseBodySize = '''', pc_JSONLog = None,
      pc_ErrorPage = None, pc_WAF = None, pc_RateLimit = None, pc_Cluster = None\<rparr>"

definition sample_checker :: checker where
  "sample_checker = \<lparr>ck_config = DefaultHealthCheckConfig, ck_lb = 0, ck_started = True, ck_stopped = False\<rparr>"

definition sample_server :: "unit proxyServer" where
  "sample_server =
     \<lparr>ps_router = NewHostRouter, ps_diskCache = NewDiskCache (\<lambda>p. None) [] 0 0, ps_pluginMgr = None, ps_proxyCfg = sample_config,
      ps_maxBodySize = 0, ps_targets = [sample_target], ps_healthCheckers = [(''h'', 0)],
      ps_balancers = [wd_lb sample_world], ps_checkers = [sample_checker]\<rparr>"

lemma sample_target_builds:
  "\<exists>tch lb hc. buildTargetConfigHandler replace dur m sample_target = Ret (Inr (tch, lb, Some hc))"
  by (simp add: sample_target_def buildTargetConfigHandler_def ParseUpstreams_def ParseURL_def Cut_def HasPrefix_def New_def
      NewTargetHandler_def location_def target_health_check_def)

theorem reload_orphans_checker_witness:
  "\<exists>ps'. reloadFrom (\<lambda>p. None) (\<lambda>s. None) (Some sample_config) (Some [sample_target]) sample_server = Ret (True, ps') \<and>
    running (ps_checkers ps' ! 0) \<and> \<not> running (ps_checkers ps' ! 1)"
proof -
  obtain tch lb hc where "buildTargetConfigHandler (\<lambda>p. None) (\<lambda>s. None) 0 sample_target = Ret (Inr (tch, lb, Some hc))"
    using sample_target_builds by blast
  moreover have "tc_ServerName sample_target = ''h''" by (simp add: sample_target_def)
  ultimately obtain ps' where ps': "reloadFrom (\<lambda>p. None) (\<lambda>s. None) (Some sample_config) (Some [sample_target]) sample_server =
      Ret (True, ps')" "ps_healthCheckers ps' = [(''h'', 1)]"
    by (simp add: reloadFrom_def buildHostRouter_def sample_server_def add_target_def Let_def)
  moreover have "table_ok (ps_healthCheckers sample_server) (ps_checkers sample_server)"
      "map_of (ps_healthCheckers sample_server) ''h'' = Some 0" "running (ps_checkers sample_server ! 0)"
    by (simp_all add: sample_server_def table_ok_def sample_checker_def running_def)
  ultimately show ?thesis
    using reload_orphans_checker [of sample_server "\<lambda>p. None" "\<lambda>s. None" sample_config "[sample_target]" True ps' "''h''" 0 1] by simp
qed

section \<open>Shutting down twice\<close>

lemma stop_all_effect:
  assumes "stop_all hcs cks = Ret cks'"
  shows "length cks' = length cks \<and> (\<forall>i < length cks. ck_stopped (cks ! i) \<longrightarrow> ck_stopped (cks' ! i)) \<and>
    (\<forall>(n, i) \<in> set hcs. i < length cks \<and> ck_stopped (cks' ! i))"
  using assms
proof (induction hcs cks rule: stop_all.induct)
  case (2 name j hcs cks)
  then obtain c where c: "j < length cks" "c = cks ! j" "stop_all hcs (cks[j := c\<lparr>ck_stopped := True\<rparr>]) = Ret cks'"
    by (auto simp: go_bind_Ret_iff hc_Stop_def go_index_def split: if_splits)
  then show ?case using "2.IH" [OF c(3)] by (auto simp: nth_list_update split: if_splits)
qed simp

text \<open>
  Shutting down a second time panics: a server that has a health checker and was
  shut down closes a closed channel when it is shut down again, which happens
  when a serve loop fails while the process is being terminated.
\<close>

theorem shutdown_twice_panics:
  assumes "ps_healthCheckers ps \<noteq> []" "shutdown quic conns tcp lsn ps = Ret (errs, ps')"
  shows "shutdown quic' conns' tcp' lsn' ps' = Panic"
proof -
  obtain cks where cks: "stop_all (ps_healthCheckers ps) (ps_checkers ps) = Ret cks" "ps' = ps\<lparr>ps_checkers := cks\<rparr>"
    using assms(2) by (auto simp: shutdown_def go_bind_Ret_iff Let_def)
  obtain name i hcs where h: "ps_healthCheckers ps = (name, i) # hcs" using assms(1) by (cases "ps_healthCheckers ps") auto
  then have "i < length cks" "ck_stopped (cks ! i)" using stop_all_effect [OF cks(1)] by auto
  then show ?thesis using h cks(2) by (simp add: shutdown_def hc_Stop_def go_index_def)
qed

theorem shutdown_twice_panics_witness:
  "\<exists>ps'. shutdown [] [] [None] None sample_server = Ret ([], ps') \<and> shutdown [] [] [None] None ps' = Panic"
proof -
  have "shutdown [] [] [None] None sample_server =
      Ret ([], sample_server\<lparr>ps_checkers := [sample_checker\<lparr>ck_stopped := True\<rparr>]\<rparr>)"
    by (simp add: shutdown_def sample_server_def sample_checker_def hc_Stop_def go_index_def List.map_filter_def)
  then show ?thesis using shutdown_twice_panics [of sample_server "[]" "[]" "[None]" None] by (auto simp: sample_server_def)
qed

section \<open>Listeners\<close>

lemma bind_tcp_cases:
  assumes "bind_tcp ok specs s = (e, s')" "list_all snd (sk_lns s)"
  shows "if e = None
    then list_all snd (sk_lns s') \<and> sk_h3Conns s' = sk_h3Conns s \<and>
      map fst (sk_lns s') = map fst (sk_lns s) @ map ls_Addr (filter (\<lambda>sp. \<not> (\<not> ls_SSL sp \<and> ls_QUIC sp)) specs)
    else list_all (\<lambda>x. \<not> snd x) (sk_lns s' @ sk_h3Conns s')"
  using assms
  by (induction ok specs s rule: bind_tcp.induct) (auto simp: closeListeners_def list_all_iff split: if_splits)

lemma bind_quic_cases:
  assumes "bind_quic ok specs s = (e, s')" "list_all snd (sk_h3Conns s)"
  shows "if e = None
    then list_all snd (sk_h3Conns s') \<and> sk_lns s' = sk_lns s \<and>
      map fst (sk_h3Conns s') = map fst (sk_h3Conns s) @ filter (\<lambda>a. a \<noteq> '''') (map ls_Addr (filter ls_QUIC specs))
    else list_all (\<lambda>x. \<not> snd x) (sk_lns s' @ sk_h3Conns s')"
  using assms
  by (induction ok specs s rule: bind_quic.induct)
    (auto simp: closeListeners_def startQuicListener_def list_all_iff split: if_splits prod.splits option.splits)

text \<open>
  C22. Starting is all or nothing: if it fails, no socket stays open; if it succeeds,
  every listener has its sockets open, a TCP socket unless it is for QUIC alone
  and a UDP socket if it is for QUIC.
\<close>

theorem start_all_or_nothing:
  "\<exists>e s. start_listeners tcp udp certs cfg = (e, s) \<and>
    (case e of
       Some _ \<Rightarrow> list_all (\<lambda>x. \<not> snd x) (sk_lns s @ sk_h3Conns s)
     | None \<Rightarrow> (\<exists>specs. listenerSpecs cfg = Inr specs \<and> list_all snd (sk_lns s @ sk_h3Conns s) \<and>
         map fst (sk_lns s) = map ls_Addr (filter (\<lambda>sp. \<not> (\<not> ls_SSL sp \<and> ls_QUIC sp)) specs) \<and>
         map fst (sk_h3Conns s) = filter (\<lambda>a. a \<noteq> '''') (map ls_Addr (filter ls_QUIC specs))))"
proof -
  let ?none = "\<lparr>sk_lns = [], sk_h3Conns = []\<rparr>"
  show ?thesis
  proof (cases "listenerSpecs cfg")
    case (Inr specs)
    show ?thesis
    proof (cases "find (\<lambda>sp. ls_SSL sp \<and> certs = None) specs")
      case None
      obtain e s where t: "bind_tcp tcp specs ?none = (e, s)" by fastforce
      obtain e' s' where q: "bind_quic udp specs s = (e', s')" by fastforce
      show ?thesis
        using Inr None t q bind_tcp_cases [OF t] bind_quic_cases [OF q]
        by (cases e; cases e') (auto simp: start_listeners_def)
    qed (simp add: start_listeners_def Inr)
  qed (simp add: start_listeners_def)
qed

section \<open>Routes of a started server\<close>

lemma build_all:
  "\<forall>t \<in> set ts. buildTargetConfigHandler replace dur m t = Ret (Inr (f t)) \<Longrightarrow>
   build_targets replace dur m ts b = Ret (foldl (\<lambda>b t. add_target t (f t) b) b ts)"
  by (induction ts arbitrary: b) simp_all

lemma add_target_simps:
  "bd_balancers (add_target t built b) = bd_balancers b @ [fst (snd built)]"
  "map_of (bd_targets (add_target t built b)) k =
     (if k = tc_ServerName t then Some (ToTarget (fst built) (length (bd_balancers b))) else map_of (bd_targets b) k)"
  "bd_default (add_target t built b) =
     (case bd_default b of Some d \<Rightarrow> Some d
      | None \<Rightarrow> map_option (\<lambda>h. ToLocation h (length (bd_balancers b))) (tch_DefaultLoc (fst built)))"
  by (auto simp: add_target_def Let_def targetHostKey_def AList.update_conv' split: prod.split option.split)

text \<open>The first root location of a list of compiled targets, numbered from \<open>n\<close>.\<close>

fun first_root :: "nat \<Rightarrow> TargetHandler TargetConfigHandler list \<Rightarrow> route option" where
  "first_root n [] = None"
| "first_root n (tch # tchs) =
     (case tch_DefaultLoc tch of Some h \<Rightarrow> Some (ToLocation h n) | None \<Rightarrow> first_root (Suc n) tchs)"

lemma add_targets_simps:
  assumes "b' = foldl (\<lambda>b t. add_target t (f t) b) b ts"
  shows "bd_balancers b' = bd_balancers b @ map (\<lambda>t. fst (snd (f t))) ts"
    "k \<notin> tc_ServerName ` set ts \<Longrightarrow> map_of (bd_targets b') k = map_of (bd_targets b) k"
    "bd_default b' = (case bd_default b of Some d \<Rightarrow> Some d
       | None \<Rightarrow> first_root (length (bd_balancers b)) (map (\<lambda>t. fst (f t)) ts))"
    "distinct (map tc_ServerName ts) \<Longrightarrow> i < length ts \<Longrightarrow>
     map_of (bd_targets b') (tc_ServerName (ts ! i)) = Some (ToTarget (fst (f (ts ! i))) (length (bd_balancers b) + i))"
proof -
  have other: "k \<notin> tc_ServerName ` set ts \<Longrightarrow>
      map_of (bd_targets (foldl (\<lambda>b t. add_target t (f t) b) b ts)) k = map_of (bd_targets b) k" for b ts k
    by (induction ts arbitrary: b) (simp_all add: add_target_simps)
  show "bd_balancers b' = bd_balancers b @ map (\<lambda>t. fst (snd (f t))) ts"
    unfolding assms by (induction ts arbitrary: b) (simp_all add: add_target_simps)
  show "k \<notin> tc_ServerName ` set ts \<Longrightarrow> map_of (bd_targets b') k = map_of (bd_targets b) k"
    unfolding assms by (rule other)
  show "bd_default b' = (case bd_default b of Some d \<Rightarrow> Some d
       | None \<Rightarrow> first_root (length (bd_balancers b)) (map (\<lambda>t. fst (f t)) ts))"
    unfolding assms by (induction ts arbitrary: b) (simp_all add: add_target_simps split: option.split)
  show "distinct (map tc_ServerName ts) \<Longrightarrow> i < length ts \<Longrightarrow>
     map_of (bd_targets b') (tc_ServerName (ts ! i)) = Some (ToTarget (fst (f (ts ! i))) (length (bd_balancers b) + i))"
    unfolding assms
  proof (induction ts arbitrary: b i)
    case (Cons t ts)
    then show ?case
      using Cons.IH [of "i - 1" "add_target t (f t) b"] other [of "tc_ServerName t" ts "add_target t (f t) b"]
      by (cases i) (simp_all add: add_target_simps)
  qed simp
qed

lemma start_new_total: "\<forall>(n, i) \<in> set new. i < length cks \<Longrightarrow> \<exists>cks'. start_new old new cks = Ret cks'"
  by (induction old new cks rule: start_new.induct) (auto simp: go_index_def)

text \<open>
  C6. Routes of a started server: when every target compiles and the names differ, a
  request goes to the target whose \<open>server_name\<close> is the normal form of its host,
  served by that target's own balancer. A host that is no \<open>server_name\<close> goes,
  without a target named \<open>_default\<close>, to the root location of the first target
  that has one. A name out of a comma-separated list is such a host.
\<close>

theorem started_server_routes:
  fixes ps :: "'p proxyServer"
  assumes "\<forall>t \<in> set (ps_targets ps). buildTargetConfigHandler replace dur (ps_maxBodySize ps) t = Ret (Inr (f t))"
    and "distinct (map tc_ServerName (ps_targets ps))" "ps_healthCheckers ps = []"
  shows "\<exists>ps'. start_router replace dur ps = Ret ps' \<and>
    (\<forall>i < length (ps_targets ps). ps_balancers ps' ! (length (ps_balancers ps) + i) = fst (snd (f (ps_targets ps ! i)))) \<and>
    (\<forall>i < length (ps_targets ps). NormalizeHost (Host r) = tc_ServerName (ps_targets ps ! i) \<longrightarrow>
       hr_route (ps_router ps') r = Some (ToTarget (fst (f (ps_targets ps ! i))) (length (ps_balancers ps) + i))) \<and>
    ({NormalizeHost (Host r), DefaultHostname} \<inter> tc_ServerName ` set (ps_targets ps) = {} \<longrightarrow>
       hr_route (ps_router ps') r = first_root (length (ps_balancers ps)) (map (\<lambda>t. fst (f t)) (ps_targets ps)))"
proof -
  let ?b0 = "\<lparr>bd_targets = [], bd_default = None, bd_health = [], bd_balancers = ps_balancers ps, bd_checkers = ps_checkers ps\<rparr>"
  define b where "b = foldl (\<lambda>b t. add_target t (f t) b) ?b0 (ps_targets ps)"
  have bt: "build_targets replace dur (ps_maxBodySize ps) (ps_targets ps) ?b0 = Ret b"
    using build_all [OF assms(1)] b_def by simp
  have "built_ok (ps_checkers ps) b"
    by (rule build_targets_built_ok [OF bt]) (simp add: built_ok_def table_ok_def)
  then obtain cks where cks: "start_new [] (bd_health b) (bd_checkers b) = Ret cks"
    using start_new_total [of "bd_health b" "bd_checkers b" "[]"] by (auto simp: built_ok_def table_ok_def)
  let ?ps = "ps\<lparr>ps_healthCheckers := bd_health b, ps_balancers := bd_balancers b, ps_checkers := cks,
      ps_router := Reload NewHostRouter (bd_targets b) (bd_default b)\<rparr>"
  have "start_router replace dur ps = Ret ?ps"
    using bt cks assms(3) by (simp add: start_router_def buildHostRouter_def)
  moreover have "hr_route (ps_router ?ps) r = Some (ToTarget (fst (f (ps_targets ps ! i))) (length (ps_balancers ps) + i))"
    if "i < length (ps_targets ps)" "NormalizeHost (Host r) = tc_ServerName (ps_targets ps ! i)" for i
    using add_targets_simps(4) [OF b_def assms(2) that(1)] that(2) by (simp add: hr_route_def hr_lookup_def Reload_def)
  moreover have "hr_route (ps_router ?ps) r = first_root (length (ps_balancers ps)) (map (\<lambda>t. fst (f t)) (ps_targets ps))"
    if "{NormalizeHost (Host r), DefaultHostname} \<inter> tc_ServerName ` set (ps_targets ps) = {}"
    using that add_targets_simps(2,3) [OF b_def] by (simp add: hr_route_def hr_lookup_def Reload_def NewHostRouter_def)
  moreover have "bd_balancers b ! (length (ps_balancers ps) + i) = fst (snd (f (ps_targets ps ! i)))"
    if "i < length (ps_targets ps)" for i
    using add_targets_simps(1) [OF b_def] that by (simp add: nth_append)
  ultimately show ?thesis by (intro exI [of _ ?ps]) simp
qed

theorem started_server_routes_witness:
  "\<exists>ps' tch. start_router (\<lambda>p. None) (\<lambda>s. None) (sample_server\<lparr>ps_healthCheckers := []\<rparr>) = Ret ps' \<and>
    hr_route (ps_router ps') some_request = Some (ToTarget tch 1)"
proof -
  obtain tch lb hc where "buildTargetConfigHandler (\<lambda>p. None) (\<lambda>s. None) 0 sample_target = Ret (Inr (tch, lb, Some hc))"
    using sample_target_builds by blast
  moreover have "NormalizeHost (Host some_request) = tc_ServerName sample_target"
    by (simp add: some_request_def sample_target_def) code_simp
  ultimately show ?thesis
    using started_server_routes [of "sample_server\<lparr>ps_healthCheckers := []\<rparr>" "\<lambda>p. None" "\<lambda>s. None" "\<lambda>t. (tch, lb, Some hc)" some_request]
    by (auto simp: sample_server_def)
qed

section \<open>A configuration that passes the checks and panics\<close>

text \<open>
  C35. A target without upstreams passes the checks and panics: the checks accept it,
  the server starts with it, and a request to its root location, which is
  neither cached nor gRPC, panics while it is proxied.
\<close>

theorem accepted_target_panics:
  fixes ps :: "'p proxyServer"
  assumes "tc_Upstreams t = []" "tc_Locations t = [location ''/'' MatchPrefix False]" "ps_targets ps = [t]"
    and "ps_pluginMgr ps = None" "ps_healthCheckers ps = []" "NormalizeHost (Host r) = tc_ServerName t" "\<not> isGRPCRequest r"
  shows "CheckConfig sz dur cfg (Inr [t]) = CheckConfig sz dur cfg (Inr []) \<and>
    (\<exists>ps'. start_router replace dur ps = Ret ps' \<and> router_ServeHTTP re api wrap env w r ps' = Panic)"
proof
  have "check_targets dur [t] = check_targets dur []"
    using assms(1,2) by (simp add: andThen_def location_def)
  then show "CheckConfig sz dur cfg (Inr [t]) = CheckConfig sz dur cfg (Inr [])"
    by (simp only: CheckConfig_def sum.case)
  let ?h = "\<lparr>th_target = t, th_location = location ''/'' MatchPrefix False, th_cacheTTL = 0, th_maxBodySize = ps_maxBodySize ps\<rparr>"
  let ?tch = "\<lparr>tch_Target = t, tch_Handlers = [?h], tch_DefaultLoc = Some ?h\<rparr>"
  obtain lb where "New (tc_LBAlgorithm t) [] = Ret lb" using New_ok [of "tc_LBAlgorithm t" "[]"] by (auto simp: pool_ok_def)
  then have "buildTargetConfigHandler replace dur (ps_maxBodySize ps) t = Ret (Inr (?tch, lb, None))"
    using assms(1,2) by (simp add: buildTargetConfigHandler_def ParseUpstreams_def lb_upstreams_def NewTargetHandler_def
        location_def target_health_check_def)
  then obtain ps' where ps': "start_router replace dur ps = Ret ps'" "ps_balancers ps' = ps_balancers ps @ [lb]" "ps_pluginMgr ps' = None"
      "ps_diskCache ps' = ps_diskCache ps"
      "ps_router ps' = \<lparr>hr_targets = [(tc_ServerName t, ToTarget ?tch (length (ps_balancers ps)))],
         hr_defaultHandler = Some (ToLocation ?h (length (ps_balancers ps))), hr_resolver = None\<rparr>"
    using assms(3-5) by (simp add: start_router_def buildHostRouter_def add_target_def Let_def targetHostKey_def Reload_def NewHostRouter_def)
  have route: "hr_route (ps_router ps') r = Some (ToTarget ?tch (length (ps_balancers ps)))"
    using assms(6) ps'(5) by (simp add: hr_route_def hr_lookup_def)
  have best: "tch_route re th_location ?tch (Path r) = Ret (Some ?h)"
    by (simp add: tch_route_def location_def Matches_def MatchPrefix_def MatchRegex_def MatchExact_def priority_def)
  let ?wd = "\<lparr>wd_cache = ps_diskCache ps, wd_lb = lb, wd_pm = None\<rparr>"
  have "serve_before api ?h env ?wd w r = Ret (Fetch w r (CacheKey (targetName ?h) (RequestURI r)) ?wd)"
    using assms(7) by (simp add: serve_before_def location_def isCacheExcluded_def)
  moreover have "Index (getUpstreamURL ?h) ''://'' = None"
    using assms(1) by (simp add: getUpstreamURL_def pinnedUpstream_def location_def ParseUpstreams_def)
  then have "serve_fetch api wrap ?h env w r key ?wd = Panic" for key
    by (intro no_scheme_panics) (simp_all add: location_def)
  ultimately have "ServeHTTP api wrap ?h env ?wd w r = Panic" by (simp add: ServeHTTP_def)
  then have "serve_location api wrap env ?h (length (ps_balancers ps)) w r ps' = Panic"
    using ps'(2-4) by (simp add: serve_location_def go_index_def)
  then show "\<exists>ps'. start_router replace dur ps = Ret ps' \<and> router_ServeHTTP re api wrap env w r ps' = Panic"
    using ps'(1) route best by (auto simp: router_ServeHTTP_def)
qed

theorem accepted_target_panics_witness:
  "\<forall>api wrap w. \<exists>ps'. start_router (\<lambda>p. None) (\<lambda>s. None)
      (sample_server\<lparr>ps_healthCheckers := [], ps_targets := [sample_target\<lparr>tc_Upstreams := [], tc_Locations := [location ''/'' MatchPrefix False]\<rparr>]\<rparr>) =
      Ret ps' \<and> router_ServeHTTP (\<lambda>p. None) api wrap (sample_env NetError) w some_request ps' = Panic"
proof (intro allI)
  fix api :: "unit plugin_api" and wrap w
  let ?t = "sample_target\<lparr>tc_Upstreams := [], tc_Locations := [location ''/'' MatchPrefix False]\<rparr>"
  have "NormalizeHost (Host some_request) = tc_ServerName ?t"
    by (simp add: some_request_def sample_target_def) code_simp
  moreover have "\<not> isGRPCRequest some_request"
    by (simp add: isGRPCRequest_def some_request_def Header_Get_def HasPrefix_def grpcContentTypePrefix_def)
  ultimately show "\<exists>ps'. start_router (\<lambda>p. None) (\<lambda>s. None) (sample_server\<lparr>ps_healthCheckers := [], ps_targets := [?t]\<rparr>) = Ret ps' \<and>
      router_ServeHTTP (\<lambda>p. None) api wrap (sample_env NetError) w some_request ps' = Panic"
    using accepted_target_panics [of ?t "sample_server\<lparr>ps_healthCheckers := [], ps_targets := [?t]\<rparr>" some_request]
    by (simp add: sample_server_def)
qed

end
