(* ===== verification/TargetStore.thy ===== *)
theory TargetStore
  imports Http "HOL-Library.List_Lexorder" "HOL-Library.Char_ord" "HOL-Library.AList"
begin

text \<open>
  The target store of an edge (\<open>internal/cluster/targetstore.go\<close>): configurations
  under their host names in a Pebble database. The database is a third-party
  package: its operations are the fields of a record the definitions take as an
  argument, and \<open>pebble_laws\<close> states what its documentation promises of them.
  The context arguments, which the code ignores, are left out.
\<close>

section \<open>The database\<close>

datatype db_read = DbFound "byte list" | DbNotFound | DbError

text \<open>
  A write returns whether it succeeded. An iterator is the function that gives,
  for a key to seek, the keys it visits; None is an error of \<open>NewIter\<close>.
\<close>

record 's pebble =
  db_Get :: "'s \<Rightarrow> string \<Rightarrow> db_read"
  db_Set :: "'s \<Rightarrow> string \<Rightarrow> byte list \<Rightarrow> bool \<times> 's"
  db_Delete :: "'s \<Rightarrow> string \<Rightarrow> bool \<times> 's"
  db_NewIter :: "'s \<Rightarrow> (string \<Rightarrow> string list) option"

text \<open>
  The documented behaviour over a view of the database as a map: a read fails or
  gives the value, a write fails without effect or takes effect, an iterator
  visits the keys from the one it seeks in byte order.
\<close>

definition pebble_laws :: "'s pebble \<Rightarrow> ('s \<Rightarrow> string \<Rightarrow> byte list option) \<Rightarrow> bool" where
  "pebble_laws db view \<longleftrightarrow>
     (\<forall>s k. db_Get db s k \<in> {DbError, case view s k of Some v \<Rightarrow> DbFound v | None \<Rightarrow> DbNotFound}) \<and>
     (\<forall>s k v. view (snd (db_Set db s k v)) = (if fst (db_Set db s k v) then (view s)(k \<mapsto> v) else view s)) \<and>
     (\<forall>s k. view (snd (db_Delete db s k)) = (if fst (db_Delete db s k) then (view s)(k := None) else view s)) \<and>
     (\<forall>s seek k. db_NewIter db s = Some seek \<longrightarrow>
        sorted (seek k) \<and> distinct (seek k) \<and> set (seek k) = {x \<in> dom (view s). k \<le> x})"

section \<open>The store\<close>

datatype store_error = StoreFailed

definition hostKeyPrefix :: string where
  "hostKeyPrefix = ''h/''"

definition globalKey :: string where
  "globalKey = ''g''"

definition store_get :: "'s pebble \<Rightarrow> 's \<Rightarrow> string \<Rightarrow> (store_error, byte list option) result" where
  "store_get db s key =
     (case db_Get db s key of
        DbNotFound \<Rightarrow> Inr None
      | DbError \<Rightarrow> Inl StoreFailed
      | DbFound v \<Rightarrow> Inr (Some v))"

definition PutGlobal :: "'s pebble \<Rightarrow> 's \<Rightarrow> byte list \<Rightarrow> bool \<times> 's" where
  "PutGlobal db s data = db_Set db s globalKey data"

definition GetGlobal :: "'s pebble \<Rightarrow> 's \<Rightarrow> (store_error, byte list option) result" where
  "GetGlobal db s = store_get db s globalKey"

definition PutTargetByHost :: "'s pebble \<Rightarrow> 's \<Rightarrow> string \<Rightarrow> byte list \<Rightarrow> bool \<times> 's" where
  "PutTargetByHost db s hostname data = db_Set db s (hostKeyPrefix @ hostname) data"

definition GetTargetByHost :: "'s pebble \<Rightarrow> 's \<Rightarrow> string \<Rightarrow> (store_error, byte list option) result" where
  "GetTargetByHost db s hostname = store_get db s (hostKeyPrefix @ hostname)"

definition HasTargetByHost :: "'s pebble \<Rightarrow> 's \<Rightarrow> string \<Rightarrow> (store_error, bool) result" where
  "HasTargetByHost db s hostname =
     (case db_Get db s (hostKeyPrefix @ hostname) of
        DbNotFound \<Rightarrow> Inr False
      | DbError \<Rightarrow> Inl StoreFailed
      | DbFound _ \<Rightarrow> Inr True)"

definition inHostPrefix :: "string \<Rightarrow> bool" where
  "inHostPrefix key = HasPrefix key hostKeyPrefix"

definition HasAnyTarget :: "'s pebble \<Rightarrow> 's \<Rightarrow> (store_error, bool) result" where
  "HasAnyTarget db s =
     (case db_NewIter db s of
        None \<Rightarrow> Inl StoreFailed
      | Some seek \<Rightarrow> Inr (case seek hostKeyPrefix of [] \<Rightarrow> False | k # _ \<Rightarrow> inHostPrefix k))"

definition DeleteTargetByHost :: "'s pebble \<Rightarrow> 's \<Rightarrow> string \<Rightarrow> bool \<times> 's" where
  "DeleteTargetByHost db s hostname = db_Delete db s (hostKeyPrefix @ hostname)"

text \<open>The loop of \<open>ListHosts\<close> ends at the first key outside the host names.\<close>

definition ListHosts :: "'s pebble \<Rightarrow> 's \<Rightarrow> (store_error, string list) result" where
  "ListHosts db s =
     (case db_NewIter db s of
        None \<Rightarrow> Inl StoreFailed
      | Some seek \<Rightarrow> Inr (map (\<lambda>k. TrimPrefix k hostKeyPrefix) (takeWhile inHostPrefix (seek hostKeyPrefix))))"

section \<open>The view of the hosts\<close>

definition rows :: "('s \<Rightarrow> string \<Rightarrow> byte list option) \<Rightarrow> 's \<Rightarrow> string \<Rightarrow> byte list option" where
  "rows view s = (\<lambda>host. view s (hostKeyPrefix @ host))"

lemma rows_Put:
  assumes "pebble_laws db view"
  shows "rows view (snd (PutTargetByHost db s host data)) =
    (if fst (PutTargetByHost db s host data) then (rows view s)(host \<mapsto> data) else rows view s)"
  using assms by (auto simp: pebble_laws_def rows_def PutTargetByHost_def)

lemma rows_Delete:
  assumes "pebble_laws db view"
  shows "rows view (snd (DeleteTargetByHost db s host)) =
    (if fst (DeleteTargetByHost db s host) then (rows view s)(host := None) else rows view s)"
  using assms by (auto simp: pebble_laws_def rows_def DeleteTargetByHost_def)

lemma reads_rows:
  assumes "pebble_laws db view"
  shows "GetTargetByHost db s host \<in> {Inl StoreFailed, Inr (rows view s host)}"
    "HasTargetByHost db s host \<in> {Inl StoreFailed, Inr (rows view s host \<noteq> None)}"
proof -
  have "db_Get db s (hostKeyPrefix @ host) \<in> {DbError, case rows view s host of Some v \<Rightarrow> DbFound v | None \<Rightarrow> DbNotFound}"
    using conjunct1 [OF assms [unfolded pebble_laws_def]] unfolding rows_def by (elim allE)
  then show "GetTargetByHost db s host \<in> {Inl StoreFailed, Inr (rows view s host)}"
    "HasTargetByHost db s host \<in> {Inl StoreFailed, Inr (rows view s host \<noteq> None)}"
    by (cases "rows view s host"; auto simp: GetTargetByHost_def HasTargetByHost_def store_get_def)+
qed

section \<open>Enumerating the hosts\<close>

text \<open>Between a string and its extensions, in byte order, there are only extensions.\<close>

lemma prefix_interval:
  fixes p :: "'a :: linorder list"
  shows "p \<le> y \<Longrightarrow> y \<le> p @ z \<Longrightarrow> \<exists>w. y = p @ w"
proof (induction p arbitrary: y)
  case (Cons a p)
  then obtain b y' where y: "y = b # y'" by (cases y) auto
  then have "a = b" using Cons.prems by (auto simp: Cons_le_Cons)
  then show ?case using Cons y by auto
qed simp

lemma le_append: "p \<le> p @ (z :: 'a :: linorder list)"
  by (induction p) (auto simp: Cons_le_Cons)

lemma inHostPrefix_iff: "inHostPrefix k \<longleftrightarrow> (\<exists>h. k = hostKeyPrefix @ h)"
  by (auto simp: inHostPrefix_def HasPrefix_iff)

lemma takeWhile_hosts:
  assumes "sorted ks" "\<forall>k \<in> set ks. hostKeyPrefix \<le> k"
  shows "takeWhile inHostPrefix ks = filter inHostPrefix ks"
  using assms
proof (induction ks)
  case (Cons k ks)
  have "inHostPrefix k" if "inHostPrefix x" "x \<in> set ks" for x
  proof -
    have "hostKeyPrefix \<le> k" "k \<le> x" using Cons.prems that(2) by auto
    then show ?thesis using that(1) prefix_interval unfolding inHostPrefix_iff by blast
  qed
  then have "filter inHostPrefix ks = []" if "\<not> inHostPrefix k"
    using that unfolding filter_empty_conv by blast
  then show ?case using Cons by simp
qed simp

text \<open>
  The store lists its hosts: over a database that keeps its promises,
  \<open>ListHosts\<close> returns every host that has a row, once, and \<open>HasAnyTarget\<close> says whether
  there is one. Neither sees the global configuration nor stops early.
\<close>

theorem ListHosts_exact:
  assumes "pebble_laws db view" "db_NewIter db s = Some seek"
  shows "\<exists>hosts. ListHosts db s = Inr hosts \<and> distinct hosts \<and> set hosts = dom (rows view s) \<and>
    HasAnyTarget db s = Inr (dom (rows view s) \<noteq> {})"
proof -
  let ?ks = "seek hostKeyPrefix"
  have ks: "sorted ?ks" "distinct ?ks" "set ?ks = {x \<in> dom (view s). hostKeyPrefix \<le> x}"
    using assms unfolding pebble_laws_def by blast+
  have tw: "takeWhile inHostPrefix ?ks = filter inHostPrefix ?ks" using ks by (intro takeWhile_hosts) auto
  have "hostKeyPrefix \<le> hostKeyPrefix @ h" for h by (rule le_append)
  then have "set (filter inHostPrefix ?ks) = (\<lambda>h. hostKeyPrefix @ h) ` dom (rows view s)"
    unfolding set_filter ks(3) inHostPrefix_iff rows_def by blast
  then have hosts: "set (map (\<lambda>k. TrimPrefix k hostKeyPrefix) (filter inHostPrefix ?ks)) = dom (rows view s)"
    by (simp add: image_image TrimPrefix_append)
  moreover have "distinct (map (\<lambda>k. TrimPrefix k hostKeyPrefix) (filter inHostPrefix ?ks))"
    using ks(2) by (auto simp: distinct_map inj_on_def inHostPrefix_iff TrimPrefix_append)
  moreover have "(case ?ks of [] \<Rightarrow> False | k # _ \<Rightarrow> inHostPrefix k) = (takeWhile inHostPrefix ?ks \<noteq> [])"
    by (cases ?ks) auto
  moreover have "(takeWhile inHostPrefix ?ks \<noteq> []) = (dom (rows view s) \<noteq> {})"
    unfolding tw hosts [symmetric] by (simp only: set_empty map_is_Nil_conv)
  ultimately show ?thesis using assms(2) tw by (simp only: ListHosts_def HasAnyTarget_def option.case) blast
qed

text \<open>A database that keeps the promises: a list of entries, sorted when it is iterated.\<close>

definition list_db :: "(string \<times> byte list) list pebble" where
  "list_db =
     \<lparr>db_Get = (\<lambda>s k. case map_of s k of Some v \<Rightarrow> DbFound v | None \<Rightarrow> DbNotFound),
      db_Set = (\<lambda>s k v. (True, AList.update k v s)), db_Delete = (\<lambda>s k. (True, AList.delete k s)),
      db_NewIter = (\<lambda>s. Some (\<lambda>k. sort (remdups (filter (\<lambda>x. k \<le> x) (map fst s)))))\<rparr>"

lemma list_db_laws: "pebble_laws list_db map_of"
  by (auto simp: pebble_laws_def list_db_def AList.update_conv' AList.delete_conv' dom_map_of_conv_image_fst)

theorem ListHosts_exact_witness:
  "\<exists>hosts. ListHosts list_db [(''h/b'', [1]), (''g'', [2]), (''h/a'', [3]), (''z'', [])] = Inr hosts \<and> set hosts = {''a'', ''b''} \<and>
    HasAnyTarget list_db [(''h/b'', [1]), (''g'', [2]), (''h/a'', [3]), (''z'', [])] = Inr True"
proof -
  let ?s = "[(''h/b'', [1]), (''g'', [2]), (''h/a'', [3]), (''z'', [])] :: (string \<times> byte list) list"
  have "dom (rows map_of ?s) = {''a'', ''b''}"
    by (auto simp: rows_def hostKeyPrefix_def split: if_splits)
  then show ?thesis
    using ListHosts_exact [OF list_db_laws, of ?s] by (auto simp: list_db_def)
qed

end
