(* ===== verification/Cluster.thy ===== *)
theory Cluster
  imports TargetStore Flights Check
begin

text \<open>
  Configuration over the cluster: the events of \<open>internal/cluster/nats_sync.go\<close>, the
  edge that applies them to its target store (\<open>internal/proxyserver/lazy_cluster.go\<close>
  and the part of \<open>server.go\<close> that sets it up), and the control plane that publishes
  a directory (\<open>internal/controlplane/controlplane.go\<close>). Third-party code is an
  argument: the database of \<open>TargetStore\<close>, the encoding of configurations and
  events, and the message consumer.
\<close>

section \<open>Events\<close>

text \<open>The timestamp of an event is informational and left out.\<close>

record TargetEvent =
  te_ServerName :: string
  te_Deleted :: bool
  te_Config :: "byte list"

definition SubjectTargetPrefix :: string where
  "SubjectTargetPrefix = ''config.target.''"

definition TargetSubject :: "string \<Rightarrow> string" where
  "TargetSubject serverName = SubjectTargetPrefix @ serverName"

datatype publish_error = EmptyServerName | NoConfig | EncodeFailed | PublishFailed

text \<open>\<open>send\<close> publishes data on a subject and says whether the stream took it.\<close>

definition PublishTarget ::
  "(TargetEvent \<Rightarrow> byte list option) \<Rightarrow> (string \<Rightarrow> byte list \<Rightarrow> bool) \<Rightarrow> TargetEvent \<Rightarrow> publish_error option" where
  "PublishTarget encode send event =
     (if te_ServerName event = '''' then Some EmptyServerName
      else if \<not> te_Deleted event \<and> te_Config event = [] then Some NoConfig
      else
        (case encode event of
           None \<Rightarrow> Some EncodeFailed
         | Some data \<Rightarrow> if send (TargetSubject (te_ServerName event)) data then None else Some PublishFailed))"

definition PublishTargetDelete ::
  "(TargetEvent \<Rightarrow> byte list option) \<Rightarrow> (string \<Rightarrow> byte list \<Rightarrow> bool) \<Rightarrow> string \<Rightarrow> publish_error option" where
  "PublishTargetDelete encode send serverName =
     PublishTarget encode send \<lparr>te_ServerName = serverName, te_Deleted = True, te_Config = []\<rparr>"

section \<open>Consumer names\<close>

definition maxConsumerNameLen :: nat where
  "maxConsumerNameLen = 200"

text \<open>On a string of single-byte characters, as host names and identifiers are.\<close>

definition sanitizeConsumerName :: "string \<Rightarrow> string" where
  "sanitizeConsumerName s =
     (let name = map (\<lambda>c. let n = of_char c :: nat in
            if (97 \<le> n \<and> n \<le> 122) \<or> (65 \<le> n \<and> n \<le> 90) \<or> (48 \<le> n \<and> n \<le> 57) \<or> c = CHR ''-'' \<or> c = CHR ''_''
            then c else CHR ''-'') s
      in if length name > maxConsumerNameLen then take maxConsumerNameLen name else name)"

definition ConsumerName :: "string \<Rightarrow> string \<Rightarrow> nat \<Rightarrow> string" where
  "ConsumerName edge_id hostname pid =
     (let id0 = (if edge_id = '''' then hostname else edge_id);
          id1 = (if id0 = '''' then ''edge-'' @ show_nat pid else id0)
      in ''edge-'' @ sanitizeConsumerName id1)"

section \<open>The consumer\<close>

datatype settlement = Ack | Nak | Term

text \<open>
  One message: \<open>decode\<close> reads the event, \<open>handle\<close> applies it to the state and says
  whether it failed.
\<close>

definition applyMessage ::
  "(byte list \<Rightarrow> TargetEvent option) \<Rightarrow> (TargetEvent \<Rightarrow> 'st \<Rightarrow> ('e option \<times> 'st) go) \<Rightarrow> byte list \<Rightarrow> 'st \<Rightarrow> (settlement \<times> 'st) go" where
  "applyMessage decode handle msg st =
     (case decode msg of
        None \<Rightarrow> Ret (Term, st)
      | Some event \<Rightarrow>
          go_bind (handle event st) (\<lambda>(err, st'). Ret (if err \<noteq> None then Nak else Ack, st')))"

definition catchUpBatchSize :: nat where
  "catchUpBatchSize = 256"

text \<open>
  The durable consumer of the message system: \<open>cs_Fetch\<close> asks for at most so many
  messages and gives those it got and whether the batch ended in an error, or
  None; \<open>cs_Settle\<close> acknowledges a message.
\<close>

record 'c consumer =
  cs_Fetch :: "'c \<Rightarrow> nat \<Rightarrow> (byte list list \<times> bool) option \<times> 'c"
  cs_Settle :: "'c \<Rightarrow> byte list \<Rightarrow> settlement \<Rightarrow> 'c"

fun apply_batch ::
  "'c consumer \<Rightarrow> (byte list \<Rightarrow> TargetEvent option) \<Rightarrow> (TargetEvent \<Rightarrow> 'st \<Rightarrow> ('e option \<times> 'st) go) \<Rightarrow>
   byte list list \<Rightarrow> 'c \<Rightarrow> 'st \<Rightarrow> ('c \<times> 'st) go" where
  "apply_batch js decode handle [] c st = Ret (c, st)"
| "apply_batch js decode handle (m # ms) c st =
     go_bind (applyMessage decode handle m st) (\<lambda>(how, st'). apply_batch js decode handle ms (cs_Settle js c m how) st')"

datatype sync_error = FetchFailed | Cancelled

definition fetchBatch ::
  "'c consumer \<Rightarrow> (byte list \<Rightarrow> TargetEvent option) \<Rightarrow> (TargetEvent \<Rightarrow> 'st \<Rightarrow> ('e option \<times> 'st) go) \<Rightarrow> 'c \<Rightarrow> 'st \<Rightarrow>
   ((sync_error, nat) result \<times> 'c \<times> 'st) go" where
  "fetchBatch js decode handle c st =
     (case cs_Fetch js c catchUpBatchSize of
        (None, c1) \<Rightarrow> Ret (Inl FetchFailed, c1, st)
      | (Some (msgs, failed), c1) \<Rightarrow>
          go_bind (apply_batch js decode handle msgs c1 st) (\<lambda>(c2, st2).
            Ret (if failed then Inl FetchFailed else Inr (length msgs), c2, st2)))"

text \<open>
  One turn of the loop of \<open>catchUp\<close>: its result, or the state to go on with;
  \<open>cancelled\<close> says whether the context is done. The loop need not end.
\<close>

definition catch_turn ::
  "'c consumer \<Rightarrow> (byte list \<Rightarrow> TargetEvent option) \<Rightarrow> (TargetEvent \<Rightarrow> 'st \<Rightarrow> ('e option \<times> 'st) go) \<Rightarrow> ('c \<Rightarrow> bool) \<Rightarrow>
   'c \<Rightarrow> 'st \<Rightarrow> (sync_error option \<times> 'c \<times> 'st) go + 'c \<times> 'st" where
  "catch_turn js decode handle cancelled c st =
     (case fetchBatch js decode handle c st of
        Panic \<Rightarrow> Inl Panic
      | Diverge \<Rightarrow> Inl Diverge
      | Ret (res, c', st') \<Rightarrow>
          (case res of
             Inl e \<Rightarrow> Inl (Ret (Some e, c', st'))
           | Inr applied \<Rightarrow>
               if applied = 0 then Inl (Ret (None, c', st'))
               else if cancelled c' then Inl (Ret (Some Cancelled, c', st'))
               else Inr (c', st')))"

partial_function (option) catchUp ::
  "'c consumer \<Rightarrow> (byte list \<Rightarrow> TargetEvent option) \<Rightarrow> (TargetEvent \<Rightarrow> 'st \<Rightarrow> ('e option \<times> 'st) go) \<Rightarrow> ('c \<Rightarrow> bool) \<Rightarrow>
   'c \<Rightarrow> 'st \<Rightarrow> (sync_error option \<times> 'c \<times> 'st) go option" where
  "catchUp js decode handle cancelled c st =
     (case catch_turn js decode handle cancelled c st of
        Inl res \<Rightarrow> Some res
      | Inr next \<Rightarrow> catchUp js decode handle cancelled (fst next) (snd next))"

section \<open>The edge\<close>

record ('s, 'c) edge =
  eg_targetStore :: "'s option"
  eg_lazyLRU :: 'c

datatype edge_error = StoreNotInitialized | NoServerName | MarshalFailed | PutFailed string | UnmarshalFailed | ProvisionFailed

text \<open>The loop over the host names of an update: write the row, then drop the compiled handler.\<close>

fun put_names ::
  "'s pebble \<Rightarrow> ('c \<Rightarrow> string \<Rightarrow> (bool \<times> 'c) go) \<Rightarrow> byte list \<Rightarrow> string list \<Rightarrow> 's \<Rightarrow> 'c \<Rightarrow>
   (edge_error option \<times> 's \<times> 'c) go" where
  "put_names db del data [] s c = Ret (None, s, c)"
| "put_names db del data (hostname # names) s c =
     (case PutTargetByHost db s hostname data of
        (ok, s') \<Rightarrow>
          if \<not> ok then Ret (Some (PutFailed hostname), s', c)
          else go_bind (del c hostname) (\<lambda>(_, c'). put_names db del data names s' c'))"

text \<open>The host names of an event: those of its configuration, or its own.\<close>

definition event_names :: "string \<Rightarrow> TargetConfig \<Rightarrow> string list" where
  "event_names serverName t =
     (let names = ParseServerNames (tc_ServerName t)
      in if names = [] then ParseServerNames serverName else names)"

definition applyTargetUpdate ::
  "'s pebble \<Rightarrow> ('c \<Rightarrow> string \<Rightarrow> (bool \<times> 'c) go) \<Rightarrow> (TargetConfig \<Rightarrow> byte list option) \<Rightarrow> string \<Rightarrow> TargetConfig \<Rightarrow>
   ('s, 'c) edge \<Rightarrow> (edge_error option \<times> ('s, 'c) edge) go" where
  "applyTargetUpdate db del yaml serverName t eg =
     (case eg_targetStore eg of
        None \<Rightarrow> Ret (Some StoreNotInitialized, eg)
      | Some s \<Rightarrow>
          if event_names serverName t = [] then Ret (Some NoServerName, eg)
          else
            (case yaml t of
               None \<Rightarrow> Ret (Some MarshalFailed, eg)
             | Some data \<Rightarrow>
                 go_bind (put_names db del data (event_names serverName t) s (eg_lazyLRU eg)) (\<lambda>(e, s', c').
                   Ret (e, eg\<lparr>eg_targetStore := Some s', eg_lazyLRU := c'\<rparr>))))"

text \<open>A failed delete is only logged.\<close>

definition applyTargetDelete ::
  "'s pebble \<Rightarrow> ('c \<Rightarrow> string \<Rightarrow> (bool \<times> 'c) go) \<Rightarrow> string \<Rightarrow> ('s, 'c) edge \<Rightarrow> ('s, 'c) edge go" where
  "applyTargetDelete db del name eg =
     (case eg_targetStore eg of
        None \<Rightarrow> Ret eg
      | Some s \<Rightarrow>
          go_bind (del (eg_lazyLRU eg) name) (\<lambda>(_, c).
            Ret (eg\<lparr>eg_targetStore := Some (snd (DeleteTargetByHost db s name)), eg_lazyLRU := c\<rparr>)))"

definition applyTargetEvent ::
  "'s pebble \<Rightarrow> ('c \<Rightarrow> string \<Rightarrow> (bool \<times> 'c) go) \<Rightarrow> (byte list \<Rightarrow> TargetConfig option) \<Rightarrow> (TargetConfig \<Rightarrow> byte list option) \<Rightarrow>
   TargetEvent \<Rightarrow> ('s, 'c) edge \<Rightarrow> (edge_error option \<times> ('s, 'c) edge) go" where
  "applyTargetEvent db del unjson yaml event eg =
     (if te_Deleted event then go_bind (applyTargetDelete db del (te_ServerName event) eg) (\<lambda>eg'. Ret (None, eg'))
      else
        (case unjson (te_Config event) of
           None \<Rightarrow> Ret (Some UnmarshalFailed, eg)
         | Some t \<Rightarrow> applyTargetUpdate db del yaml (te_ServerName event) t eg))"

text \<open>
  The load of a lazy handler: the compiled target with its balancer. The panic of
  a compilation is caught by \<open>runLoad\<close>; health checks are dropped.
\<close>

definition materializeTarget ::
  "'s pebble \<Rightarrow> (byte list \<Rightarrow> TargetConfig option) \<Rightarrow> (string \<Rightarrow> (string \<Rightarrow> string \<Rightarrow> string) option) \<Rightarrow> (string \<Rightarrow> duration option) \<Rightarrow>
   int \<Rightarrow> 's \<Rightarrow> string \<Rightarrow> (TargetHandler TargetConfigHandler \<times> balancer) load_result go" where
  "materializeTarget db unyaml replace dur maxBody s hostname =
     (case GetTargetByHost db s hostname of
        Inl _ \<Rightarrow> Ret LoadErr
      | Inr None \<Rightarrow> Ret LoadErr
      | Inr (Some data) \<Rightarrow>
          (case unyaml data of
             None \<Rightarrow> Ret LoadErr
           | Some t \<Rightarrow>
               (case buildTargetConfigHandler replace dur maxBody t of
                  Panic \<Rightarrow> Ret LoadPanics
                | Diverge \<Rightarrow> Diverge
                | Ret (Inl _) \<Rightarrow> Ret LoadErr
                | Ret (Inr (tch, lb, hc)) \<Rightarrow> Ret (LoadOk (Some (tch, lb))))))"

text \<open>
  The router of a lazy edge. Its resolver reads the store when it is called, so
  this is the router for the present store; a lazy handler is its host.
\<close>

definition lazy_resolver :: "'s pebble \<Rightarrow> 's \<Rightarrow> string \<Rightarrow> string option" where
  "lazy_resolver db s host =
     (case HasTargetByHost db s host of Inr True \<Rightarrow> Some host | _ \<Rightarrow> None)"

definition buildLazyHostRouter :: "'s pebble \<Rightarrow> 's \<Rightarrow> string HostRouter" where
  "buildLazyHostRouter db s = SetResolver (Reload NewHostRouter [] None) (Some (lazy_resolver db s))"

text \<open>Seeding an empty store from the local targets; a failed write is only logged.\<close>

definition seed_target :: "'s pebble \<Rightarrow> (TargetConfig \<Rightarrow> byte list option) \<Rightarrow> 's \<Rightarrow> TargetConfig \<Rightarrow> 's" where
  "seed_target db yaml s t =
     (case yaml t of
        None \<Rightarrow> s
      | Some data \<Rightarrow> foldl (\<lambda>s hostname. snd (PutTargetByHost db s hostname data)) s (ParseServerNames (tc_ServerName t)))"

definition ensureLazyStore ::
  "'s pebble \<Rightarrow> (TargetConfig \<Rightarrow> byte list option) \<Rightarrow> ProxyConfig \<Rightarrow> TargetConfig list \<Rightarrow> ('s, 'c) edge \<Rightarrow>
   edge_error option \<times> ('s, 'c) edge" where
  "ensureLazyStore db yaml cfg targets eg =
     (case eg_targetStore eg of
        None \<Rightarrow> (None, eg)
      | Some s \<Rightarrow>
          (case HasAnyTarget db s of
             Inl _ \<Rightarrow> (Some ProvisionFailed, eg)
           | Inr provisioned \<Rightarrow>
               if provisioned then (None, eg)
               else if (case pc_Cluster cfg of Some c \<Rightarrow> cc_NATSURI c \<noteq> '''' | None \<Rightarrow> False) then (None, eg)
               else (None, eg\<lparr>eg_targetStore := Some (foldl (seed_target db yaml) s targets)\<rparr>)))"

text \<open>
  The cluster part of \<open>newProxyServer\<close>: the path of the store (its components) and
  the store with its cache; \<open>openStore\<close> is \<open>OpenTargetStore\<close>, \<open>lru\<close> a new cache of a
  capacity.
\<close>

definition storeDir :: "ProxyConfig \<Rightarrow> ClusterConfig \<Rightarrow> string list" where
  "storeDir cfg cl =
     (if cc_DataDir cl \<noteq> '''' then [cc_DataDir cl]
      else if pc_CacheDir cfg \<noteq> '''' then [pc_CacheDir cfg, ''targetstore'']
      else [''.peretum'', ''targetstore''])"

definition new_edge :: "(string list \<Rightarrow> 's option) \<Rightarrow> (int \<Rightarrow> 'c) \<Rightarrow> ProxyConfig \<Rightarrow> ('s \<times> 'c) option" where
  "new_edge openStore lru cfg =
     (case pc_Cluster cfg of
        None \<Rightarrow> None
      | Some cl \<Rightarrow>
          if \<not> cc_Lazy cl then None
          else map_option (\<lambda>s. (s, lru (if cc_LRUSize cl \<le> 0 then 1000 else cc_LRUSize cl))) (openStore (storeDir cfg cl)))"

section \<open>The control plane\<close>

text \<open>The state to publish: every host name of a target with its encoded configuration.\<close>

fun sync_next :: "(TargetConfig \<Rightarrow> byte list option) \<Rightarrow> TargetConfig list \<Rightarrow> (string \<times> byte list) list \<Rightarrow> (string \<times> byte list) list option" where
  "sync_next json [] next = Some next"
| "sync_next json (t # ts) next =
     (case json t of
        None \<Rightarrow> None
      | Some data \<Rightarrow> sync_next json ts (foldl (\<lambda>m name. AList.update name data m) next (ParseServerNames (tc_ServerName t))))"

record configPublisher =
  pb_byName :: "(string \<times> byte list) list"

text \<open>\<open>publish\<close>, and a sequence of them up to the first that fails, with the events the stream took.\<close>

definition cp_publish :: "(TargetEvent \<Rightarrow> byte list option) \<Rightarrow> (string \<Rightarrow> byte list \<Rightarrow> bool) \<Rightarrow> TargetEvent \<Rightarrow> bool" where
  "cp_publish encode send event =
     (case encode event of None \<Rightarrow> False | Some data \<Rightarrow> send (TargetSubject (te_ServerName event)) data)"

fun publish_all :: "(TargetEvent \<Rightarrow> bool) \<Rightarrow> TargetEvent list \<Rightarrow> bool \<times> TargetEvent list" where
  "publish_all pub [] = (True, [])"
| "publish_all pub (e # es) =
     (if \<not> pub e then (False, []) else (case publish_all pub es of (ok, sent) \<Rightarrow> (ok, e # sent)))"

definition updates :: "(string \<times> byte list) list \<Rightarrow> (string \<times> byte list) list \<Rightarrow> TargetEvent list" where
  "updates prev next =
     map (\<lambda>(name, data). \<lparr>te_ServerName = name, te_Deleted = False, te_Config = data\<rparr>)
       (filter (\<lambda>(name, data). map_of prev name \<noteq> Some data) next)"

definition deletions :: "(string \<times> byte list) list \<Rightarrow> (string \<times> byte list) list \<Rightarrow> TargetEvent list" where
  "deletions prev next =
     map (\<lambda>(name, _). \<lparr>te_ServerName = name, te_Deleted = True, te_Config = []\<rparr>)
       (filter (\<lambda>(name, _). map_of next name = None) prev)"

text \<open>
  \<open>syncAll\<close>: whether it succeeded, the publisher and the events on the stream. The
  order of two loops over Go maps is that of the lists.
\<close>

definition syncAll ::
  "(TargetConfig \<Rightarrow> byte list option) \<Rightarrow> (TargetEvent \<Rightarrow> bool) \<Rightarrow> (load_error, TargetConfig list) result \<Rightarrow> configPublisher \<Rightarrow>
   bool \<times> configPublisher \<times> TargetEvent list" where
  "syncAll json pub targets p =
     (case targets of
        Inl _ \<Rightarrow> (False, p, [])
      | Inr ts \<Rightarrow>
          (case sync_next json ts [] of
             None \<Rightarrow> (False, p, [])
           | Some next \<Rightarrow>
               (case publish_all pub (updates (pb_byName p) next @ deletions (pb_byName p) next) of
                  (ok, sent) \<Rightarrow> (ok, if ok then p\<lparr>pb_byName := next\<rparr> else p, sent))))"

text \<open>
  The loop of \<open>watchConfigDir\<close>: a change of a configuration file restarts the timer,
  the timer reconciles if something changed. The result says whether to
  reconcile now.
\<close>

datatype watch_event = FileEvent string bool | WatchError | TimerFired

definition watch_step :: "watch_event \<Rightarrow> bool \<times> bool \<Rightarrow> bool \<times> (bool \<times> bool)" where
  "watch_step ev st =
     (case st of (dirty, armed) \<Rightarrow>
        (case ev of
           FileEvent name changes \<Rightarrow>
             if (filepath_Ext name = ''.yaml'' \<or> filepath_Ext name = ''.yml'') \<and> changes then (False, (True, True)) else (False, st)
         | WatchError \<Rightarrow> (False, st)
         | TimerFired \<Rightarrow> if \<not> dirty then (False, (False, False)) else (True, (False, False))))"

end
