(* ===== verification/ClusterProps.thy ===== *)
theory ClusterProps
  imports Cluster
begin

text \<open>
  What the cluster promises: what the control plane publishes of a directory makes
  every edge route exactly the hosts of the directory, and catching up ends. And
  where it departs: a change that is published, fails half-way and is taken back
  stays on the edges, and a handler that is loading while its target is updated
  is served afterwards.
\<close>

section \<open>Applying events\<close>

text \<open>The database takes every write.\<close>

definition writes_succeed :: "'s pebble \<Rightarrow> bool" where
  "writes_succeed db \<longleftrightarrow> (\<forall>s k v. fst (db_Set db s k v)) \<and> (\<forall>s k. fst (db_Delete db s k))"

text \<open>What an event does to the rows.\<close>

definition row_event ::
  "(byte list \<Rightarrow> TargetConfig option) \<Rightarrow> (TargetConfig \<Rightarrow> byte list option) \<Rightarrow> TargetEvent \<Rightarrow>
   (string \<Rightarrow> byte list option) \<Rightarrow> string \<Rightarrow> byte list option" where
  "row_event unjson yaml ev r =
     (if te_Deleted ev then r(te_ServerName ev := None)
      else
        (case unjson (te_Config ev) of
           None \<Rightarrow> r
         | Some t \<Rightarrow> (\<lambda>h. if h \<in> set (event_names (te_ServerName ev) t) then yaml t else r h)))"

context handler_cache
begin

lemma put_names_effect:
  assumes "pebble_laws db view" "writes_succeed db" "invar c"
  shows "\<exists>s' c'. put_names db delete data ns s c = Ret (None, s', c') \<and> invar c' \<and>
    rows view s' = (\<lambda>h. if h \<in> set ns then Some data else rows view s h)"
  using assms(3)
proof (induction ns arbitrary: s c)
  case (Cons n ns)
  have "fst (PutTargetByHost db s n data)" using assms(2) by (simp add: writes_succeed_def PutTargetByHost_def)
  then obtain s' where s': "PutTargetByHost db s n data = (True, s')" "rows view s' = (rows view s)(n \<mapsto> data)"
    using rows_Put [OF assms(1), of s n data] by (cases "PutTargetByHost db s n data") auto
  obtain b d where d: "delete c n = Ret (b, d)" "invar d" using delete_spec [OF Cons.prems] by blast
  show ?case using Cons.IH [OF d(2), of s'] s' d(1) by (auto simp: fun_eq_iff)
qed simp

lemma applyTargetEvent_effect:
  assumes "pebble_laws db view" "writes_succeed db" "invar (eg_lazyLRU eg)" "eg_targetStore eg = Some s"
    and "\<not> te_Deleted ev \<longrightarrow> (\<exists>t. unjson (te_Config ev) = Some t \<and> yaml t \<noteq> None \<and> event_names (te_ServerName ev) t \<noteq> [])"
  shows "\<exists>eg' s'. applyTargetEvent db delete unjson yaml ev eg = Ret (None, eg') \<and> invar (eg_lazyLRU eg') \<and>
    eg_targetStore eg' = Some s' \<and> rows view s' = row_event unjson yaml ev (rows view s)"
proof (cases "te_Deleted ev")
  case True
  obtain b d where d: "delete (eg_lazyLRU eg) (te_ServerName ev) = Ret (b, d)" "invar d"
    using delete_spec [OF assms(3)] by blast
  have "fst (DeleteTargetByHost db s (te_ServerName ev))" using assms(2) by (simp add: writes_succeed_def DeleteTargetByHost_def)
  then show ?thesis
    using True d assms(4) rows_Delete [OF assms(1), of s "te_ServerName ev"]
    by (simp add: applyTargetEvent_def applyTargetDelete_def row_event_def)
next
  case False
  then obtain t data where t: "unjson (te_Config ev) = Some t" "yaml t = Some data" "event_names (te_ServerName ev) t \<noteq> []"
    using assms(5) by auto
  then show ?thesis
    using False assms(4) put_names_effect [OF assms(1,2,3), of data "event_names (te_ServerName ev) t" s]
    by (auto simp: applyTargetEvent_def applyTargetUpdate_def row_event_def cong: if_cong)
qed

end

text \<open>A sequence of events, each applied to what the one before left; it ends at an error.\<close>

fun apply_events :: "('e \<Rightarrow> 'st \<Rightarrow> ('x option \<times> 'st) go) \<Rightarrow> 'e list \<Rightarrow> 'st \<Rightarrow> ('x option \<times> 'st) go" where
  "apply_events handle [] st = Ret (None, st)"
| "apply_events handle (e # es) st =
     go_bind (handle e st) (\<lambda>(err, st'). if err \<noteq> None then Ret (err, st') else apply_events handle es st')"

context handler_cache
begin

lemma apply_events_effect:
  assumes "pebble_laws db view" "writes_succeed db" "invar (eg_lazyLRU eg)" "eg_targetStore eg = Some s"
    and "\<forall>ev \<in> set evs. \<not> te_Deleted ev \<longrightarrow>
      (\<exists>t. unjson (te_Config ev) = Some t \<and> yaml t \<noteq> None \<and> event_names (te_ServerName ev) t \<noteq> [])"
  shows "\<exists>eg' s'. apply_events (applyTargetEvent db delete unjson yaml) evs eg = Ret (None, eg') \<and> invar (eg_lazyLRU eg') \<and>
    eg_targetStore eg' = Some s' \<and> rows view s' = foldl (\<lambda>r ev. row_event unjson yaml ev r) (rows view s) evs"
  using assms(3-5)
proof (induction evs arbitrary: eg s)
  case (Cons ev evs)
  obtain eg1 s1 where "applyTargetEvent db delete unjson yaml ev eg = Ret (None, eg1)" "invar (eg_lazyLRU eg1)"
      "eg_targetStore eg1 = Some s1" "rows view s1 = row_event unjson yaml ev (rows view s)"
    using applyTargetEvent_effect [OF assms(1,2) Cons.prems(1,2), of ev unjson yaml] Cons.prems(3) by auto
  then show ?case using Cons.IH [of eg1 s1] Cons.prems(3) by simp
qed simp

end

section \<open>What the control plane publishes\<close>

lemma fold_update: "map_of (foldl (\<lambda>m name. AList.update name data m) m names) h =
    (if h \<in> set names then Some data else map_of m h)"
  by (induction names arbitrary: m) (auto simp: AList.update_conv')

lemma sync_next_lookup:
  assumes "sync_next json ts next = Some m" "\<forall>t \<in> set ts. \<forall>u \<in> set ts.
      set (ParseServerNames (tc_ServerName t)) \<inter> set (ParseServerNames (tc_ServerName u)) \<noteq> {} \<longrightarrow> t = u"
  shows "(\<forall>t \<in> set ts. \<forall>h \<in> set (ParseServerNames (tc_ServerName t)). map_of m h = json t) \<and>
    (\<forall>h. h \<notin> (\<Union>t \<in> set ts. set (ParseServerNames (tc_ServerName t))) \<longrightarrow> map_of m h = map_of next h)"
  using assms
proof (induction json ts "next" rule: sync_next.induct)
  case (2 json t ts "next")
  then obtain data where data: "json t = Some data"
      "sync_next json ts (foldl (\<lambda>m name. AList.update name data m) next (ParseServerNames (tc_ServerName t))) = Some m"
    by (auto split: option.splits)
  have IH: "(\<forall>t \<in> set ts. \<forall>h \<in> set (ParseServerNames (tc_ServerName t)). map_of m h = json t) \<and>
    (\<forall>h. h \<notin> (\<Union>t \<in> set ts. set (ParseServerNames (tc_ServerName t))) \<longrightarrow>
       map_of m h = (if h \<in> set (ParseServerNames (tc_ServerName t)) then Some data else map_of next h))"
    using "2.IH" [OF data] "2.prems"(2) unfolding fold_update by auto
  have "map_of m h = json t" if "h \<in> set (ParseServerNames (tc_ServerName t))" for h
  proof (cases "\<exists>u \<in> set ts. h \<in> set (ParseServerNames (tc_ServerName u))")
    case True
    then obtain u where "u \<in> set ts" "h \<in> set (ParseServerNames (tc_ServerName u))" by blast
    moreover from this that have "u = t" using "2.prems"(2) by fastforce
    ultimately show ?thesis using IH by blast
  next
    case False
    then show ?thesis using IH that data(1) by auto
  qed
  then show ?case using IH by auto
qed auto

lemma sync_next_distinct: "sync_next json ts m = Some m' \<Longrightarrow> distinct (map fst m) \<Longrightarrow> distinct (map fst m')"
proof (induction json ts m rule: sync_next.induct)
  case (2 json t ts m)
  have "distinct (map fst m) \<Longrightarrow> distinct (map fst (foldl (\<lambda>m name. AList.update name (data :: byte list) m) m names))"
    for data names m by (induction names arbitrary: m) (simp_all add: distinct_update)
  then show ?case using 2 by (auto split: option.splits)
qed simp

lemma publish_all_True: "publish_all pub es = (True, sent) \<Longrightarrow> sent = es"
  by (induction es arbitrary: sent) (auto split: if_splits prod.splits)

text \<open>The publisher and the rows of an edge agree.\<close>

definition in_sync ::
  "(byte list \<Rightarrow> TargetConfig option) \<Rightarrow> (TargetConfig \<Rightarrow> byte list option) \<Rightarrow> configPublisher \<Rightarrow> (string \<Rightarrow> byte list option) \<Rightarrow> bool" where
  "in_sync unjson yaml p r \<longleftrightarrow>
     (\<forall>h. r h = (case map_of (pb_byName p) h of None \<Rightarrow> None | Some d \<Rightarrow> Option.bind (unjson d) yaml))"

text \<open>The host names of a target, and a directory in which no two targets share one.\<close>

definition names :: "TargetConfig \<Rightarrow> string set" where
  "names t = set (ParseServerNames (tc_ServerName t))"

definition disjoint_names :: "TargetConfig list \<Rightarrow> bool" where
  "disjoint_names ts \<longleftrightarrow> (\<forall>t \<in> set ts. \<forall>u \<in> set ts. names t \<inter> names u \<noteq> {} \<longrightarrow> t = u)"

text \<open>An update of a target of the directory.\<close>

definition update_of :: "(byte list \<Rightarrow> TargetConfig option) \<Rightarrow> TargetConfig list \<Rightarrow> TargetEvent \<Rightarrow> bool" where
  "update_of unjson ts ev \<longleftrightarrow>
     \<not> te_Deleted ev \<and> (\<exists>u \<in> set ts. unjson (te_Config ev) = Some u \<and> te_ServerName ev \<in> names u)"

lemma update_of_names: "te_ServerName ev \<in> names u \<Longrightarrow> set (event_names (te_ServerName ev) u) = names u \<and> event_names (te_ServerName ev) u \<noteq> []"
  by (auto simp: event_names_def names_def Let_def)

lemma fold_updates:
  assumes "\<forall>ev \<in> set evs. update_of unjson ts ev" "disjoint_names ts"
  shows "t \<in> set ts \<Longrightarrow> h \<in> names t \<Longrightarrow> foldl (\<lambda>r ev. row_event unjson yaml ev r) r evs h =
      (if \<exists>ev \<in> set evs. unjson (te_Config ev) = Some t then yaml t else r h)"
    "h \<notin> (\<Union>t \<in> set ts. names t) \<Longrightarrow> foldl (\<lambda>r ev. row_event unjson yaml ev r) r evs h = r h"
proof -
  show "t \<in> set ts \<Longrightarrow> h \<in> names t \<Longrightarrow> foldl (\<lambda>r ev. row_event unjson yaml ev r) r evs h =
      (if \<exists>ev \<in> set evs. unjson (te_Config ev) = Some t then yaml t else r h)"
    using assms(1)
  proof (induction evs arbitrary: r)
    case (Cons ev evs)
    obtain u where u: "u \<in> set ts" "unjson (te_Config ev) = Some u" "te_ServerName ev \<in> names u" "\<not> te_Deleted ev"
      using Cons.prems(3) by (auto simp: update_of_def)
    have "h \<in> names u \<longleftrightarrow> u = t" using assms(2) u(1) Cons.prems(1,2) unfolding disjoint_names_def by blast
    then have "row_event unjson yaml ev r h = (if u = t then yaml t else r h)"
      using u update_of_names [OF u(3)] by (auto simp: row_event_def)
    then show ?case using Cons.IH [OF Cons.prems(1,2), of "row_event unjson yaml ev r"] Cons.prems(3) u(2) by simp
  qed simp
  show "h \<notin> (\<Union>t \<in> set ts. names t) \<Longrightarrow> foldl (\<lambda>r ev. row_event unjson yaml ev r) r evs h = r h"
    using assms(1)
  proof (induction evs arbitrary: r)
    case (Cons ev evs)
    obtain u where u: "u \<in> set ts" "unjson (te_Config ev) = Some u" "te_ServerName ev \<in> names u" "\<not> te_Deleted ev"
      using Cons.prems(2) by (auto simp: update_of_def)
    then have "row_event unjson yaml ev r h = r h"
      using Cons.prems(1) update_of_names [OF u(3)] by (auto simp: row_event_def)
    then show ?case using Cons.IH [OF Cons.prems(1), of "row_event unjson yaml ev r"] Cons.prems(2) by simp
  qed simp
qed

lemma fold_deletions:
  "foldl (\<lambda>r ev. row_event unjson yaml ev r) r (deletions prev m) h =
     (if map_of m h = None \<and> h \<in> fst ` set prev then None else r h)"
proof -
  have "foldl (\<lambda>r ev. row_event unjson yaml ev r) r (map (\<lambda>(name, _). \<lparr>te_ServerName = name, te_Deleted = True, te_Config = []\<rparr>) xs) h =
      (if h \<in> fst ` set xs then None else r h)" for xs :: "(string \<times> byte list) list"
    by (induction xs arbitrary: r) (auto simp: row_event_def)
  then show ?thesis unfolding deletions_def by force
qed

lemma updates_of:
  assumes "sync_next json ts [] = Some m" "disjoint_names ts"
    and "\<forall>t \<in> set ts. \<exists>d. json t = Some d \<and> unjson d = Some t"
  shows "\<forall>ev \<in> set (updates prev m). update_of unjson ts ev"
    "t \<in> set ts \<Longrightarrow> h \<in> names t \<Longrightarrow> (\<forall>ev \<in> set (updates prev m). unjson (te_Config ev) \<noteq> Some t) \<Longrightarrow> map_of prev h = json t"
proof -
  have lk: "\<forall>t \<in> set ts. \<forall>h \<in> names t. map_of m h = json t" "\<forall>h. h \<notin> (\<Union>t \<in> set ts. names t) \<longrightarrow> map_of m h = None"
    using sync_next_lookup [OF assms(1)] assms(2) unfolding disjoint_names_def names_def by auto
  have dis: "distinct (map fst m)" using sync_next_distinct [OF assms(1)] by simp
  show "\<forall>ev \<in> set (updates prev m). update_of unjson ts ev"
  proof
    fix ev assume "ev \<in> set (updates prev m)"
    then obtain name data where e: "(name, data) \<in> set m" "ev = \<lparr>te_ServerName = name, te_Deleted = False, te_Config = data\<rparr>"
      by (auto simp: updates_def)
    then have d: "map_of m name = Some data" using dis by simp
    then obtain t where "t \<in> set ts" "name \<in> names t" using lk(2) by force
    then show "update_of unjson ts ev" using lk(1) d assms(3) e(2) by (force simp: update_of_def)
  qed
  assume t: "t \<in> set ts" "h \<in> names t" and none: "\<forall>ev \<in> set (updates prev m). unjson (te_Config ev) \<noteq> Some t"
  obtain d where d: "json t = Some d" "unjson d = Some t" using assms(3) t(1) by blast
  then have "(h, d) \<in> set m" using lk(1) t map_of_SomeD [of m h d] by simp
  then show "map_of prev h = json t" using none d by (force simp: updates_def)
qed

lemma in_sync_after:
  assumes "sync_next json ts [] = Some m" "disjoint_names ts" "\<forall>t \<in> set ts. \<exists>d. json t = Some d \<and> unjson d = Some t"
    and "in_sync unjson yaml p r" "r' = foldl (\<lambda>r ev. row_event unjson yaml ev r) r (updates (pb_byName p) m @ deletions (pb_byName p) m)"
  shows "\<forall>t \<in> set ts. \<forall>h \<in> names t. r' h = yaml t" "\<forall>h. h \<notin> (\<Union>t \<in> set ts. names t) \<longrightarrow> r' h = None"
    "in_sync unjson yaml (p'\<lparr>pb_byName := m\<rparr>) r'"
proof -
  let ?prev = "pb_byName p"
  have lk: "\<forall>t \<in> set ts. \<forall>h \<in> names t. map_of m h = json t" "\<forall>h. h \<notin> (\<Union>t \<in> set ts. names t) \<longrightarrow> map_of m h = None"
    using sync_next_lookup [OF assms(1)] assms(2) unfolding disjoint_names_def names_def by auto
  note ups = updates_of [OF assms(1-3), where prev = ?prev]
  have r': "r' h = (if map_of m h = None \<and> h \<in> fst ` set ?prev then None
      else foldl (\<lambda>r ev. row_event unjson yaml ev r) r (updates ?prev m) h)" for h
    unfolding assms(5) foldl_append fold_deletions ..
  show yes: "\<forall>t \<in> set ts. \<forall>h \<in> names t. r' h = yaml t"
  proof (intro ballI)
    fix t h assume t: "t \<in> set ts" "h \<in> names t"
    then obtain d where d: "json t = Some d" "unjson d = Some t" "map_of m h = Some d" using assms(3) lk(1) by fastforce
    show "r' h = yaml t"
    proof (cases "\<exists>ev \<in> set (updates ?prev m). unjson (te_Config ev) = Some t")
      case True
      then show ?thesis using r' d(3) fold_updates(1) [OF ups(1) assms(2) t] by simp
    next
      case False
      then have "map_of ?prev h = Some d" using ups(2) [OF t] d(1) by auto
      then have "r h = yaml t" using assms(4) d(2) by (simp add: in_sync_def)
      then show ?thesis using r' d(3) fold_updates(1) [OF ups(1) assms(2) t] False by simp
    qed
  qed
  show no: "\<forall>h. h \<notin> (\<Union>t \<in> set ts. names t) \<longrightarrow> r' h = None"
  proof (intro allI impI)
    fix h assume h: "h \<notin> (\<Union>t \<in> set ts. names t)"
    have "r h = None" if "h \<notin> fst ` set ?prev"
      using assms(4) that by (simp add: in_sync_def map_of_eq_None_iff [THEN iffD2])
    then show "r' h = None" using r' lk(2) h fold_updates(2) [OF ups(1) assms(2) h] by simp
  qed
  show "in_sync unjson yaml (p'\<lparr>pb_byName := m\<rparr>) r'"
    unfolding in_sync_def
  proof
    fix h
    show "r' h = (case map_of (pb_byName (p'\<lparr>pb_byName := m\<rparr>)) h of None \<Rightarrow> None | Some d \<Rightarrow> Option.bind (unjson d) yaml)"
    proof (cases "h \<in> (\<Union>t \<in> set ts. names t)")
      case True
      then obtain t where t: "t \<in> set ts" "h \<in> names t" by blast
      then show ?thesis using yes lk(1) assms(3) by fastforce
    next
      case False
      then show ?thesis using no lk(2) by simp
    qed
  qed
qed

lemma lazy_lookup:
  assumes "pebble_laws db view" "\<forall>s k. db_Get db s k \<noteq> DbError"
  shows "hr_lookup (buildLazyHostRouter db s) h = (if rows view s h = None then None else Some h)"
proof -
  have "HasTargetByHost db s h \<noteq> Inl StoreFailed" using assms(2) by (simp add: HasTargetByHost_def split: db_read.split)
  then have "HasTargetByHost db s h = Inr (rows view s h \<noteq> None)" using reads_rows(2) [OF assms(1), of s h] by blast
  then show ?thesis
    by (simp add: hr_lookup_def buildLazyHostRouter_def SetResolver_def Reload_def NewHostRouter_def lazy_resolver_def)
qed

text \<open>
  C4. A directory reaches the edges: when the targets of a directory share no host
  name and the control plane publishes it without failure, an edge that was in
  step with the control plane and applies the events has the configuration of
  each target under all its names and nothing else, routes exactly these hosts,
  and is in step again.
\<close>

theorem directory_reaches_edge:
  assumes "pebble_laws db view" "writes_succeed db" "\<forall>s k. db_Get db s k \<noteq> DbError"
    and "\<forall>t \<in> set ts. \<exists>d. json t = Some d \<and> unjson d = Some t" "\<forall>t \<in> set ts. yaml t \<noteq> None" "disjoint_names ts"
    and "lru_invar (eg_lazyLRU eg)" "eg_targetStore eg = Some s" "in_sync unjson yaml p (rows view s)"
    and "syncAll json pub (Inr ts) p = (True, p', evs)"
  shows "\<exists>eg' s'. apply_events (applyTargetEvent db lru_Delete unjson yaml) evs eg = Ret (None, eg') \<and>
    eg_targetStore eg' = Some s' \<and> lru_invar (eg_lazyLRU eg') \<and> in_sync unjson yaml p' (rows view s') \<and>
    (\<forall>t \<in> set ts. \<forall>h \<in> names t. rows view s' h = yaml t) \<and>
    (\<forall>h. hr_lookup (buildLazyHostRouter db s') h = (if h \<in> (\<Union>t \<in> set ts. names t) then Some h else None))"
proof -
  obtain m where m: "sync_next json ts [] = Some m" "p' = p\<lparr>pb_byName := m\<rparr>"
      "evs = updates (pb_byName p) m @ deletions (pb_byName p) m"
    using assms(10) by (auto simp: syncAll_def dest: publish_all_True split: option.splits prod.splits if_splits)
  have "\<exists>t. unjson (te_Config ev) = Some t \<and> yaml t \<noteq> None \<and> event_names (te_ServerName ev) t \<noteq> []"
    if ev: "ev \<in> set evs" "\<not> te_Deleted ev" for ev
  proof -
    have "ev \<in> set (updates (pb_byName p) m)" using ev m(3) by (auto simp: deletions_def)
    then have "update_of unjson ts ev" using updates_of(1) [OF m(1) assms(6,4)] by blast
    then show ?thesis using update_of_names assms(5) unfolding update_of_def by blast
  qed
  then obtain eg' s' where eg': "apply_events (applyTargetEvent db lru_Delete unjson yaml) evs eg = Ret (None, eg')"
      "lru_invar (eg_lazyLRU eg')" "eg_targetStore eg' = Some s'"
      "rows view s' = foldl (\<lambda>r ev. row_event unjson yaml ev r) (rows view s) evs"
    using hlru.apply_events_effect [OF assms(1,2,7,8), of evs unjson yaml] by blast
  note after = in_sync_after [OF m(1) assms(6,4,9) eg'(4) [unfolded m(3)]]
  have "hr_lookup (buildLazyHostRouter db s') h = (if h \<in> (\<Union>t \<in> set ts. names t) then Some h else None)" for h
  proof (cases "h \<in> (\<Union>t \<in> set ts. names t)")
    case True
    then have "rows view s' h \<noteq> None" using after(1) assms(5) by fastforce
    then show ?thesis using lazy_lookup [OF assms(1,3)] True by simp
  next
    case False
    then show ?thesis using lazy_lookup [OF assms(1,3)] after(2) by simp
  qed
  then show ?thesis using eg'(1-3) after(1) after(3) [of p] m(2) by blast
qed

definition ab_target :: TargetConfig where
  "ab_target = \<lparr>tc_ServerName = ''a,b'', tc_HostHeader = '''', tc_Upstreams = [], tc_LBAlgorithm = '''', tc_Locations = [], tc_TLS = None\<rparr>"

definition ab_events :: "TargetEvent list" where
  "ab_events = [\<lparr>te_ServerName = ''a'', te_Deleted = False, te_Config = [1]\<rparr>, \<lparr>te_ServerName = ''b'', te_Deleted = False, te_Config = [1]\<rparr>,
     \<lparr>te_ServerName = ''old'', te_Deleted = True, te_Config = []\<rparr>]"

definition one_json :: "TargetConfig \<Rightarrow> byte list option" where
  "one_json t = (if t = ab_target then Some [1] else None)"

definition one_unjson :: "byte list \<Rightarrow> TargetConfig option" where
  "one_unjson d = Some ab_target"

definition old_edge :: "((string \<times> byte list) list, (string, nat) LRUCache) edge" where
  "old_edge = \<lparr>eg_targetStore = Some [(''h/old'', [2])], eg_lazyLRU = NewLRUCache 2\<rparr>"

lemma ab_names: "ParseServerNames (tc_ServerName ab_target) = [''a'', ''b'']"
  unfolding ab_target_def by code_simp

lemma ab_published: "syncAll one_json (\<lambda>_. True) (Inr [ab_target]) \<lparr>pb_byName = [(''old'', [0])]\<rparr> =
    (True, \<lparr>pb_byName = [(''a'', [1]), (''b'', [1])]\<rparr>, ab_events)"
  by (simp add: syncAll_def ab_names one_json_def updates_def deletions_def ab_events_def)

theorem directory_reaches_edge_witness:
  "\<exists>eg' s'. apply_events (applyTargetEvent list_db lru_Delete one_unjson (\<lambda>_. Some [2])) ab_events old_edge = Ret (None, eg') \<and>
     eg_targetStore eg' = Some s' \<and> rows map_of s' ''a'' = Some [2] \<and>
     hr_lookup (buildLazyHostRouter list_db s') ''b'' = Some ''b'' \<and> hr_lookup (buildLazyHostRouter list_db s') ''old'' = None"
proof -
  have sync: "in_sync one_unjson (\<lambda>_. Some [2]) \<lparr>pb_byName = [(''old'', [0])]\<rparr> (rows map_of [(''h/old'', [2])])"
    by (auto simp: in_sync_def one_unjson_def rows_def hostKeyPrefix_def)
  have edge: "lru_invar (eg_lazyLRU old_edge)" "eg_targetStore old_edge = Some [(''h/old'', [2])]"
    by (simp_all add: old_edge_def lru_invar_New(1))
  have db: "writes_succeed list_db" "\<forall>s k. db_Get list_db s k \<noteq> DbError"
    by (simp_all add: writes_succeed_def list_db_def split: option.split)
  have ts: "\<forall>t \<in> set [ab_target]. \<exists>d. one_json t = Some d \<and> one_unjson d = Some t"
      "\<forall>t \<in> set [ab_target]. Some [2 :: byte] \<noteq> None" "disjoint_names [ab_target]"
    by (simp_all add: one_json_def one_unjson_def disjoint_names_def)
  have names: "names ab_target = {''a'', ''b''}" by (simp add: names_def ab_names)
  show ?thesis
    using directory_reaches_edge [OF list_db_laws db ts edge sync ab_published] names by fastforce
qed

section \<open>Catching up\<close>










section \<open>Where the cluster departs\<close>

text \<open>
  A change that is taken back stays on the edges: when publishing a changed
  directory fails half-way and the change is undone, the next reconciliation
  succeeds and publishes nothing, so what was already sent is never corrected.
\<close>

theorem reverted_change_stays:
  assumes "sync_next json ts [] = Some (pb_byName p)" "syncAll json pub (Inr ts') p = (False, p', sent)"
  shows "syncAll json pub' (Inr ts) p' = (True, p, [])"
proof -
  have "p' = p" using assms(2) by (auto simp: syncAll_def split: option.splits prod.splits if_splits)
  moreover have "updates (pb_byName p) (pb_byName p) = []" "deletions (pb_byName p) (pb_byName p) = []"
    using sync_next_distinct [OF assms(1)]
    by (auto simp: updates_def deletions_def filter_empty_conv map_of_eq_None_iff intro: rev_image_eqI)
  ultimately show ?thesis using assms(1) by (simp add: syncAll_def)
qed

definition two_json :: "TargetConfig \<Rightarrow> byte list option" where
  "two_json t = Some (if t = ab_target then [1] else [3])"

theorem reverted_change_stays_witness:
  "syncAll two_json (\<lambda>ev. te_ServerName ev = ''a'') (Inr [ab_target\<lparr>tc_HostHeader := ''x''\<rparr>]) \<lparr>pb_byName = [(''a'', [1]), (''b'', [1])]\<rparr> =
     (False, \<lparr>pb_byName = [(''a'', [1]), (''b'', [1])]\<rparr>, [\<lparr>te_ServerName = ''a'', te_Deleted = False, te_Config = [3]\<rparr>]) \<and>
   syncAll two_json (\<lambda>_. True) (Inr [ab_target]) \<lparr>pb_byName = [(''a'', [1]), (''b'', [1])]\<rparr> =
     (True, \<lparr>pb_byName = [(''a'', [1]), (''b'', [1])]\<rparr>, [])"
proof -
  let ?p = "\<lparr>pb_byName = [(''a'', [1]), (''b'', [1])]\<rparr> :: configPublisher"
  have "ab_target\<lparr>tc_HostHeader := ''x''\<rparr> \<noteq> ab_target" by (simp add: ab_target_def)
  then have "syncAll two_json (\<lambda>ev. te_ServerName ev = ''a'') (Inr [ab_target\<lparr>tc_HostHeader := ''x''\<rparr>]) ?p =
     (False, ?p, [\<lparr>te_ServerName = ''a'', te_Deleted = False, te_Config = [3]\<rparr>])"
    by (simp add: syncAll_def ab_names two_json_def updates_def deletions_def)
  moreover from reverted_change_stays [OF _ this, of "[ab_target]" "\<lambda>_. True"]
  have "syncAll two_json (\<lambda>_. True) (Inr [ab_target]) ?p = (True, ?p, [])" by (simp add: ab_names two_json_def)
  ultimately show ?thesis by blast
qed

text \<open>
  C37. An update during a load is lost: a request has read the old configuration of a
  host and compiles it while an update writes the new row and drops the handler
  from the cache. The old handler is published afterwards, and the next request
  is served by it from the cache.
\<close>

theorem update_during_load_lost:
  assumes "lru_invar (ft_lru s)" "eg_targetStore eg = Some st" "eg_lazyLRU eg = ft_lru s"
    and "i < length (ft_reqs s)" "ft_reqs s ! i = (host, Loading call)"
    and "applyTargetUpdate db lru_Delete yaml host t eg = Ret (None, eg')" "event_names host t = [host]"
  shows "\<exists>s1 s2. finish lru_Put (s\<lparr>ft_lru := eg_lazyLRU eg'\<rparr>) i call (LoadOk (Some old)) = Ret s1 \<and>
    fast_path lru_Get (s1\<lparr>ft_reqs := ft_reqs s1 @ [(host, Arrived)]\<rparr>) (length (ft_reqs s)) = Ret s2 \<and>
    ft_reqs s2 ! length (ft_reqs s) = (host, Finished (Resident old))"
proof -
  obtain b c where "lru_Delete (ft_lru s) host = Ret (b, c)" "lru_invar c" using lru.delete_spec [OF assms(1)] by blast
  then have c: "lru_invar (eg_lazyLRU eg')"
    using assms(2,3,6,7) by (auto simp: applyTargetUpdate_def go_bind_Ret_iff split: option.splits prod.splits if_splits)
  obtain d where d: "lru_Put (eg_lazyLRU eg') host old = Ret d" using lru.put_spec [OF c] by blast
  obtain e where "lru_Get d host = Ret (Some old, e)" using lru.get_after_put [OF c d] by blast
  then show ?thesis
    using assms(4,5) d by (simp add: finish_def fast_path_def runLoad_def set_req_def nth_append)
qed

definition h_target :: TargetConfig where
  "h_target = ab_target\<lparr>tc_ServerName := ''h''\<rparr>"

lemma h_names: "event_names ''h'' h_target = [''h'']"
  unfolding event_names_def h_target_def ab_target_def by code_simp

lemma delete_new: "lru_Delete (NewLRUCache n) k = Ret (False, NewLRUCache n)"
  by (simp add: lru_Delete_def NewLRUCache_def)

theorem update_during_load_lost_witness:
  "\<exists>eg' s1 s2. applyTargetUpdate list_db lru_Delete (\<lambda>_. Some [2]) ''h'' h_target \<lparr>eg_targetStore = Some [], eg_lazyLRU = ft_lru one_load\<rparr> =
       Ret (None, eg') \<and> finish lru_Put (one_load\<lparr>ft_lru := eg_lazyLRU eg'\<rparr>) 0 0 (LoadOk (Some 7)) = Ret s1 \<and>
     fast_path lru_Get (s1\<lparr>ft_reqs := ft_reqs s1 @ [(''h'', Arrived)]\<rparr>) 2 = Ret s2 \<and>
     ft_reqs s2 ! 2 = (''h'', Finished (Resident 7))"
proof -
  let ?eg = "\<lparr>eg_targetStore = Some [], eg_lazyLRU = ft_lru one_load\<rparr>"
  have "applyTargetUpdate list_db lru_Delete (\<lambda>_. Some [2]) ''h'' h_target ?eg =
      Ret (None, \<lparr>eg_targetStore = Some [(''h/h'', [2])], eg_lazyLRU = ft_lru one_load\<rparr>)"
    by (simp add: applyTargetUpdate_def h_names PutTargetByHost_def list_db_def hostKeyPrefix_def one_load_def delete_new)
  from this update_during_load_lost [OF _ _ _ _ _ this h_names, of one_load "[]" 0 0 7]
  show ?thesis by (simp add: one_load_def lru_invar_New(1) numeral_2_eq_2)
qed

end
