(* ===== verification/Net.thy ===== *)
theory Net
  imports Config
begin

text \<open>
  The parts of Go's \<open>net\<close>, \<open>net/netip\<close> and \<open>net/url\<close> that the plugins use: IP addresses
  and networks in text form, membership in a network, and the first value of a
  query parameter. An address is its list of bytes, four or sixteen.
\<close>

section \<open>Addresses\<close>

type_synonym ip = "byte list"

text \<open>A field of a dotted address: decimal, at most 255, no leading zero.\<close>

definition ipv4_field :: "string \<Rightarrow> byte option" where
  "ipv4_field s =
     (if s = '''' \<or> (1 < length s \<and> hd s = CHR ''0'') then None
      else (case digits_val s 0 of Some n \<Rightarrow> if n \<le> 255 then Some (of_nat n) else None | None \<Rightarrow> None))"

definition parseIPv4 :: "string \<Rightarrow> byte list option" where
  "parseIPv4 s =
     (let fields = map ipv4_field (SplitByte s (CHR ''.''))
      in if length fields = 4 \<and> None \<notin> set fields then Some (map the fields) else None)"

definition hex_val :: "char \<Rightarrow> nat option" where
  "hex_val c =
     (let n = of_char c :: nat in
      if 48 \<le> n \<and> n \<le> 57 then Some (n - 48)
      else if 97 \<le> n \<and> n \<le> 102 then Some (n - 87)
      else if 65 \<le> n \<and> n \<le> 70 then Some (n - 55)
      else None)"

text \<open>The leading hexadecimal digits: their value, their number and what follows.\<close>

fun hex_digits :: "string \<Rightarrow> nat \<Rightarrow> nat \<Rightarrow> nat \<times> nat \<times> string" where
  "hex_digits [] acc n = (acc, n, [])"
| "hex_digits (c # s) acc n =
     (case hex_val c of Some d \<Rightarrow> hex_digits s (16 * acc + d) (Suc n) | None \<Rightarrow> (acc, n, c # s))"

text \<open>
  The groups of an IPv6 address from byte position \<open>i\<close>: the bytes read so far, where
  the ellipsis was, and whether the whole text was used. \<open>k\<close> counts the groups
  left, of which there are at most eight.
\<close>

fun ipv6_groups :: "nat \<Rightarrow> string \<Rightarrow> byte list \<Rightarrow> nat option \<Rightarrow> (byte list \<times> nat option) option" where
  "ipv6_groups 0 s bs ell = (if s = [] then Some (bs, ell) else None)"
| "ipv6_groups (Suc k) s bs ell =
     (case hex_digits s 0 0 of (acc, n, rest) \<Rightarrow>
        if n = 0 \<or> 4 < n then None
        else if HasPrefix rest ''.'' then
          (if (ell = None \<and> length bs \<noteq> 12) \<or> 16 < length bs + 4 then None
           else (case parseIPv4 s of Some v4 \<Rightarrow> Some (bs @ v4, ell) | None \<Rightarrow> None))
        else
          (let bs' = bs @ [of_nat (acc div 256), of_nat acc] in
           case rest of
             [] \<Rightarrow> Some (bs', ell)
           | c # t \<Rightarrow>
               if c \<noteq> CHR '':'' \<or> t = [] then None
               else if hd t = CHR '':'' then
                 (if ell \<noteq> None then None
                  else if tl t = [] then Some (bs', Some (length bs'))
                  else ipv6_groups k (tl t) bs' (Some (length bs')))
               else ipv6_groups k t bs' ell))"

text \<open>\<open>parseIPv6\<close> without a zone, which \<open>ParseIP\<close> refuses.\<close>

definition parseIPv6 :: "string \<Rightarrow> byte list option" where
  "parseIPv6 s =
     (if CHR ''%'' \<in> set s then None
      else if s = ''::'' then Some (replicate 16 0)
      else
        (case (if HasPrefix s ''::'' then ipv6_groups 8 (drop 2 s) [] (Some 0) else ipv6_groups 8 s [] None) of
           None \<Rightarrow> None
         | Some (bs, None) \<Rightarrow> if length bs = 16 then Some bs else None
         | Some (bs, Some e) \<Rightarrow>
             if length bs < 16 then Some (take e bs @ replicate (16 - length bs) 0 @ drop e bs) else None))"

definition v4_prefix :: "byte list" where
  "v4_prefix = replicate 10 0 @ [255, 255]"

text \<open>\<open>netip.ParseAddr\<close>: the first dot or colon decides which form it is.\<close>

definition parseAddr :: "string \<Rightarrow> byte list option" where
  "parseAddr s =
     (case find (\<lambda>c. c = CHR ''.'' \<or> c = CHR '':'' \<or> c = CHR ''%'') s of
        None \<Rightarrow> None
      | Some c \<Rightarrow> if c = CHR ''.'' then parseIPv4 s else if c = CHR '':'' then parseIPv6 s else None)"

definition As16 :: "byte list \<Rightarrow> ip" where
  "As16 a = (if length a = 4 then v4_prefix @ a else a)"

definition ParseIP :: "string \<Rightarrow> ip option" where
  "ParseIP s = map_option As16 (parseAddr s)"

definition To4 :: "ip \<Rightarrow> ip option" where
  "To4 a =
     (if length a = 4 then Some a
      else if length a = 16 \<and> take 12 a = v4_prefix then Some (drop 12 a)
      else None)"

section \<open>Networks\<close>

record IPNet =
  net_IP :: ip
  net_Mask :: "byte list"

text \<open>A mask of \<open>ones\<close> leading bits out of \<open>bits\<close>.\<close>

definition CIDRMask :: "nat \<Rightarrow> nat \<Rightarrow> byte list" where
  "CIDRMask ones bits =
     map (\<lambda>i. if 8 * Suc i \<le> ones then 255 else if ones \<le> 8 * i then 0 else of_nat (256 - 2 ^ (8 * Suc i - ones))) [0..<bits div 8]"

text \<open>
  \<open>ParseCIDR\<close>: the number of bits is decimal and at most the length of the address.
  The network keeps its address in sixteen bytes, cut down by \<open>IP.Mask\<close> to the
  four of a short mask.
\<close>

definition and_bytes :: "byte list \<Rightarrow> byte list \<Rightarrow> byte list" where
  "and_bytes a m = map (\<lambda>(x, y). and x y) (zip a m)"

definition ParseCIDR :: "string \<Rightarrow> IPNet option" where
  "ParseCIDR s =
     (case Cut s ''/'' of
        None \<Rightarrow> None
      | Some (addr, bits) \<Rightarrow>
          (case parseAddr addr of
             None \<Rightarrow> None
           | Some a \<Rightarrow>
               (case (if bits = '''' then None else digits_val bits 0) of
                  None \<Rightarrow> None
                | Some n \<Rightarrow>
                    if 8 * length a < n then None
                    else Some \<lparr>net_IP = and_bytes a (CIDRMask n (8 * length a)), net_Mask = CIDRMask n (8 * length a)\<rparr>)))"

text \<open>\<open>networkNumberAndMask\<close>, with None for its nil results, and \<open>IPNet.Contains\<close>.\<close>

definition networkNumberAndMask :: "IPNet \<Rightarrow> (ip \<times> byte list) option" where
  "networkNumberAndMask n =
     (case (case To4 (net_IP n) of Some a \<Rightarrow> Some a | None \<Rightarrow> if length (net_IP n) = 16 then Some (net_IP n) else None) of
        None \<Rightarrow> None
      | Some a \<Rightarrow>
          if length (net_Mask n) = 4 then (if length a = 4 then Some (a, net_Mask n) else None)
          else if length (net_Mask n) = 16 then Some (a, if length a = 4 then drop 12 (net_Mask n) else net_Mask n)
          else None)"

definition net_Contains :: "IPNet \<Rightarrow> ip \<Rightarrow> bool" where
  "net_Contains n a0 =
     (let a = (case To4 a0 of Some x \<Rightarrow> x | None \<Rightarrow> a0) in
      case networkNumberAndMask n of
        None \<Rightarrow> a = []
      | Some (nn, m) \<Rightarrow> length a = length nn \<and> and_bytes nn m = and_bytes a m)"

section \<open>Queries\<close>

text \<open>\<open>url.QueryUnescape\<close>; None is a malformed escape.\<close>

fun QueryUnescape :: "string \<Rightarrow> string option" where
  "QueryUnescape [] = Some []"
| "QueryUnescape (c # s) =
     (if c = CHR ''%'' then
        (case s of
           a # b # t \<Rightarrow>
             (case (hex_val a, hex_val b) of
                (Some x, Some y) \<Rightarrow> map_option ((#) (char_of (16 * x + y))) (QueryUnescape t)
              | _ \<Rightarrow> None)
         | _ \<Rightarrow> None)
      else map_option ((#) (if c = CHR ''+'' then CHR '' '' else c)) (QueryUnescape s))"

text \<open>One item of a query; an item with a semicolon, an empty one and a malformed one are dropped.\<close>

definition query_item :: "string \<Rightarrow> (string \<times> string) option" where
  "query_item item =
     (if CHR '';'' \<in> set item \<or> item = '''' then None
      else
        (case (case Cut item ''='' of Some kv \<Rightarrow> kv | None \<Rightarrow> (item, '''')) of
           (k, v) \<Rightarrow>
             (case (QueryUnescape k, QueryUnescape v) of (Some k', Some v') \<Rightarrow> Some (k', v') | _ \<Rightarrow> None)))"

definition Query :: "string \<Rightarrow> (string \<times> string) list" where
  "Query raw = List.map_filter query_item (SplitByte raw (CHR ''&''))"

text \<open>\<open>URL.Query().Get\<close>: the first value, or the empty string.\<close>

definition Query_Get :: "string \<Rightarrow> string \<Rightarrow> string" where
  "Query_Get raw name = (case map_of (Query raw) name of Some v \<Rightarrow> v | None \<Rightarrow> '''')"

end
