(* ===== verification/RateLimit.thy ===== *)
theory RateLimit
  imports Plugins "HOL-Library.AList"
begin

text \<open>
  The shared token-bucket store and the rate limit plugin
  (\<open>plugins/ratelimit/store.go\<close>, \<open>plugins/ratelimit/ratelimit.go\<close>). The bucket itself
  is \<open>golang.org/x/time/rate\<close>, an argument here; the three maps of the store are
  association lists. The lemmas show that the store gives every key a bucket of
  its own that forgets nothing while it is in use, and that a key used with two
  different limits in turn is never limited.
\<close>

section \<open>The store\<close>

record 'l rate_limiter =
  NewLimiter :: "real \<Rightarrow> int \<Rightarrow> 'l"
  lim_Allow :: "'l \<Rightarrow> int \<Rightarrow> bool \<times> 'l"

type_synonym bucketParams = "real \<times> int"

record 'l Store =
  st_limiters :: "(string \<times> 'l) list"
  st_params :: "(string \<times> bucketParams) list"
  st_lastSeen :: "(string \<times> int) list"
  st_ttl :: duration

definition NewStore :: "'l Store" where
  "NewStore = \<lparr>st_limiters = [], st_params = [], st_lastSeen = [], st_ttl = 5 * 60 * 1000000000\<rparr>"

text \<open>The limits that \<open>Allow\<close> works with.\<close>

definition bucket_params :: "real \<Rightarrow> int \<Rightarrow> bucketParams" where
  "bucket_params rps burst = (if rps \<le> 0 then 100 else rps, if burst \<le> 0 then 200 else burst)"

definition store_sweep :: "int \<Rightarrow> 'l Store \<Rightarrow> 'l Store" where
  "store_sweep now s =
     (let stale = map fst (filter (\<lambda>(k, t). now - t > st_ttl s) (st_lastSeen s));
          keep = filter (\<lambda>(k, _). k \<notin> set stale)
      in s\<lparr>st_limiters := filter (\<lambda>(k, _). k \<notin> set stale) (st_limiters s),
           st_params := filter (\<lambda>(k, _). k \<notin> set stale) (st_params s), st_lastSeen := keep (st_lastSeen s)\<rparr>)"

definition Allow :: "'l rate_limiter \<Rightarrow> string \<Rightarrow> real \<Rightarrow> int \<Rightarrow> int \<Rightarrow> 'l Store \<Rightarrow> bool \<times> 'l Store" where
  "Allow lm key rps burst now s =
     (let p = bucket_params rps burst;
          l = (case map_of (st_limiters s) key of
                 None \<Rightarrow> NewLimiter lm (fst p) (snd p)
               | Some l \<Rightarrow> if map_of (st_params s) key \<noteq> Some p then NewLimiter lm (fst p) (snd p) else l)
      in case lim_Allow lm l now of
           (allowed, l') \<Rightarrow>
             (let s' = s\<lparr>st_limiters := AList.update key l' (st_limiters s), st_params := AList.update key p (st_params s),
                         st_lastSeen := AList.update key now (st_lastSeen s)\<rparr>
              in (allowed, if length (st_limiters s') mod 1024 = 0 then store_sweep now s' else s')))"

section \<open>The plugin\<close>

record 'l RateLimitPlugin =
  rl_store :: "'l Store"
  rl_rps :: real
  rl_burst :: int
  rl_enabled :: bool

definition NewRateLimitPlugin :: "'l RateLimitPlugin" where
  "NewRateLimitPlugin = \<lparr>rl_store = NewStore, rl_rps = 100, rl_burst = 200, rl_enabled = False\<rparr>"

definition rl_Init :: "'l RateLimitPlugin \<Rightarrow> config \<Rightarrow> 'l RateLimitPlugin" where
  "rl_Init p cfg =
     (let rps1 = (case map_of cfg ''rps'' of Some (AFloat v) \<Rightarrow> if v > 0 then v else rl_rps p | _ \<Rightarrow> rl_rps p);
          rps2 = (case map_of cfg ''requests_per_second'' of Some (AFloat v) \<Rightarrow> if v > 0 then v else rps1 | _ \<Rightarrow> rps1);
          burst = (case map_of cfg ''burst'' of
                     Some (AInt v) \<Rightarrow> if v > 0 then v else rl_burst p
                   | Some (AFloat v) \<Rightarrow> if v > 0 then trunc v else rl_burst p
                   | _ \<Rightarrow> rl_burst p)
      in p\<lparr>rl_enabled := GetBool cfg ''enabled'', rl_rps := rps2, rl_burst := burst\<rparr>)"

definition rl_key :: "request \<Rightarrow> string \<Rightarrow> string" where
  "rl_key r target = target @ ''|'' @ (case SplitHostPort (RemoteAddr r) of Some (host, _) \<Rightarrow> host | None \<Rightarrow> RemoteAddr r)"

definition rl_BeforeProxy ::
  "'l rate_limiter \<Rightarrow> int \<Rightarrow> 'l RateLimitPlugin \<Rightarrow> response_writer \<Rightarrow> request \<Rightarrow> string \<Rightarrow>
   error option \<times> response_writer \<times> 'l RateLimitPlugin" where
  "rl_BeforeProxy lm now p w r target =
     (if \<not> rl_enabled p then (None, w, p)
      else
        (case Allow lm (rl_key r target) (rl_rps p) (rl_burst p) now (rl_store p) of
           (allowed, s) \<Rightarrow>
             if allowed then (None, w, p\<lparr>rl_store := s\<rparr>)
             else (Some ''ratelimit_exceeded'',
                   http_Error (w\<lparr>rw_header := Header_Set (rw_header w) ''Retry-After'' ''1''\<rparr>) ''Too Many Requests'' 429,
                   p\<lparr>rl_store := s\<rparr>)))"

section \<open>One bucket per key\<close>

text \<open>A sequence of calls, with its answers, and one bucket on its own.\<close>

type_synonym allow_event = "string \<times> real \<times> int \<times> int"

fun allow_all :: "'l rate_limiter \<Rightarrow> allow_event list \<Rightarrow> 'l Store \<Rightarrow> (string \<times> bool) list" where
  "allow_all lm [] s = []"
| "allow_all lm ((key, rps, burst, now) # es) s =
     (case Allow lm key rps burst now s of (ok, s') \<Rightarrow> (key, ok) # allow_all lm es s')"

fun lone :: "'l rate_limiter \<Rightarrow> 'l \<Rightarrow> int list \<Rightarrow> bool list" where
  "lone lm l [] = []"
| "lone lm l (t # ts) = (case lim_Allow lm l t of (ok, l') \<Rightarrow> ok # lone lm l' ts)"

definition times_of :: "string \<Rightarrow> allow_event list \<Rightarrow> int list" where
  "times_of k es = map (\<lambda>(_, _, _, now). now) (filter (\<lambda>(key, _). key = k) es)"

definition answers_of :: "string \<Rightarrow> (string \<times> bool) list \<Rightarrow> bool list" where
  "answers_of k as = map snd (filter (\<lambda>(key, _). key = k) as)"

text \<open>The bucket of a key in the store.\<close>

definition holds_bucket :: "'l Store \<Rightarrow> string \<Rightarrow> 'l \<Rightarrow> bucketParams \<Rightarrow> int \<Rightarrow> bool" where
  "holds_bucket s k l p t \<longleftrightarrow> map_of (st_limiters s) k = Some l \<and> map_of (st_params s) k = Some p \<and>
     distinct (map fst (st_lastSeen s)) \<and> map_of (st_lastSeen s) k = Some t \<and> st_ttl s = st_ttl (NewStore :: 'l Store)"

lemma filter_map_of: "map_of (filter (\<lambda>(k, _). P k) xs) k = (if P k then map_of xs k else None)"
  by (induction xs) auto

lemma store_sweep_keeps:
  assumes "holds_bucket s k l p t" "now - t \<le> st_ttl s"
  shows "holds_bucket (store_sweep now s) k l p t"
proof -
  have "k \<notin> fst ` set (filter (\<lambda>(k, t). now - t > st_ttl s) (st_lastSeen s))"
    using assms by (auto simp: holds_bucket_def dest: map_of_is_SomeI)
  then show ?thesis
    using assms(1) by (auto simp: holds_bucket_def store_sweep_def Let_def filter_map_of distinct_map_filter)
qed

lemma Allow_other:
  assumes "holds_bucket s k l p t" "key \<noteq> k" "now - t \<le> st_ttl s" "Allow lm key rps burst now s = (ok, s')"
  shows "holds_bucket s' k l p t"
proof -
  let ?u = "\<lambda>l'. s\<lparr>st_limiters := AList.update key l' (st_limiters s), st_params := AList.update key (bucket_params rps burst) (st_params s),
      st_lastSeen := AList.update key now (st_lastSeen s)\<rparr>"
  have "holds_bucket (?u l') k l p t" for l'
    using assms(1,2) by (simp add: holds_bucket_def AList.update_conv' distinct_update)
  moreover from store_sweep_keeps [OF this] have "holds_bucket (store_sweep now (?u l')) k l p t" for l'
    using assms(3) by simp
  ultimately show ?thesis using assms(4) by (auto simp: Allow_def Let_def split: prod.splits if_splits)
qed

lemma Allow_same:
  assumes "holds_bucket s k l (bucket_params rps burst) t" "lim_Allow lm l now = (ok, l')"
  shows "\<exists>s'. Allow lm k rps burst now s = (ok, s') \<and> holds_bucket s' k l' (bucket_params rps burst) now"
proof -
  let ?s = "s\<lparr>st_limiters := AList.update k l' (st_limiters s), st_params := AList.update k (bucket_params rps burst) (st_params s),
      st_lastSeen := AList.update k now (st_lastSeen s)\<rparr>"
  have "holds_bucket ?s k l' (bucket_params rps burst) now"
    using assms(1) by (simp add: holds_bucket_def AList.update_conv' distinct_update)
  moreover from store_sweep_keeps [OF this] have "holds_bucket (store_sweep now ?s) k l' (bucket_params rps burst) now"
    using assms(1) by (simp add: holds_bucket_def NewStore_def)
  ultimately show ?thesis using assms by (auto simp: Allow_def Let_def holds_bucket_def)
qed

lemma Allow_new:
  assumes "map_of (st_limiters s) k = None \<or> map_of (st_params s) k \<noteq> Some (bucket_params rps burst)"
    and "distinct (map fst (st_lastSeen s))" "st_ttl s = st_ttl (NewStore :: 'l Store)"
    and "lim_Allow lm (NewLimiter lm (fst (bucket_params rps burst)) (snd (bucket_params rps burst))) now = (ok, l')"
  shows "\<exists>s'. Allow lm k rps burst now (s :: 'l Store) = (ok, s') \<and> holds_bucket s' k l' (bucket_params rps burst) now"
proof -
  let ?s = "s\<lparr>st_limiters := AList.update k l' (st_limiters s), st_params := AList.update k (bucket_params rps burst) (st_params s),
      st_lastSeen := AList.update k now (st_lastSeen s)\<rparr>"
  have "holds_bucket ?s k l' (bucket_params rps burst) now"
    using assms(2,3) by (simp add: holds_bucket_def AList.update_conv' distinct_update)
  moreover from store_sweep_keeps [OF this] have "holds_bucket (store_sweep now ?s) k l' (bucket_params rps burst) now"
    using assms(3) by (simp add: NewStore_def)
  ultimately show ?thesis using assms(1,4) by (auto simp: Allow_def Let_def split: option.split)
qed

lemma answers_none: "times_of k es = [] \<Longrightarrow> answers_of k (allow_all lm es s) = []"
  by (induction lm es s rule: allow_all.induct) (auto simp: times_of_def answers_of_def split: prod.splits if_splits)

lemma times_of_subset: "set (times_of k es) \<subseteq> set (map (\<lambda>(_, _, _, now). now) es)"
  unfolding times_of_def set_map set_filter by (rule image_mono) blast

lemma allow_all_Cons:
  assumes "Allow lm key rps burst now s = (ok, s')"
  shows "answers_of k (allow_all lm ((key, rps, burst, now) # es) s) =
    (if key = k then ok # answers_of k (allow_all lm es s') else answers_of k (allow_all lm es s'))"
  using assms by (simp add: answers_of_def)

lemma times_of_Cons: "times_of k ((key, rps, burst, now) # es) = (if key = k then now # times_of k es else times_of k es)"
  by (simp add: times_of_def)

lemma allow_all_bucket:
  assumes "holds_bucket s k l p t" "sorted (t # map (\<lambda>(_, _, _, now). now) es)"
    and "successively (\<lambda>a b. b - a \<le> st_ttl (NewStore :: 'l Store)) (t # times_of k es)"
    and "\<forall>(key, rps, burst, now) \<in> set es. key = k \<longrightarrow> bucket_params rps burst = p"
  shows "answers_of k (allow_all lm es (s :: 'l Store)) = lone lm l (times_of k es)"
  using assms
proof (induction es arbitrary: s l t)
  case Nil
  then show ?case by (simp add: times_of_def answers_of_def)
next
  case (Cons e es)
  obtain key rps burst now where e: "e = (key, rps, burst, now)" by (cases e)
  obtain ok s' where a: "Allow lm key rps burst now s = (ok, s')" by fastforce
  show ?case
  proof (cases "key = k")
    case True
    obtain ok' l' where l': "lim_Allow lm l now = (ok', l')" by fastforce
    then have "ok = ok'" "holds_bucket s' k l' p now"
      using Allow_same [of s k l rps burst t lm now] Cons.prems(1,4) a e True by auto
    moreover have "answers_of k (allow_all lm es s') = lone lm l' (times_of k es)"
      by (rule Cons.IH) (use calculation Cons.prems(2-4) True in \<open>auto simp: e times_of_Cons\<close>)
    ultimately show ?thesis using allow_all_Cons [OF a, of k es] True l' by (simp add: e times_of_Cons)
  next
    case False
    show ?thesis
    proof (cases "times_of k es = []")
      case True
      then show ?thesis
        using answers_none [OF True] allow_all_Cons [OF a, of k es] False by (simp add: e times_of_Cons)
    next
      case nonempty: False
      then obtain t' ts where t': "times_of k es = t' # ts" by (cases "times_of k es") auto
      then have "t' \<in> set (map (\<lambda>(_, _, _, now). now) es)" using times_of_subset [of k es] by simp
      then have "now \<le> t'" using Cons.prems(2) by (auto simp: e)
      moreover have "t' - t \<le> st_ttl (NewStore :: 'l Store)" using Cons.prems(3) t' False by (simp add: e times_of_Cons)
      ultimately have "now - t \<le> st_ttl s" using Cons.prems(1) by (simp add: holds_bucket_def)
      then have "holds_bucket s' k l p t" using Allow_other [OF Cons.prems(1) False _ a] by blast
      then have "answers_of k (allow_all lm es s') = lone lm l (times_of k es)"
        by (rule Cons.IH) (use Cons.prems(2-4) False in \<open>auto simp: e times_of_Cons\<close>)
      then show ?thesis using allow_all_Cons [OF a, of k es] False by (simp add: e times_of_Cons)
    qed
  qed
qed

text \<open>Before a key is used the store has no bucket for it.\<close>

definition no_bucket :: "'l Store \<Rightarrow> string \<Rightarrow> bool" where
  "no_bucket s k \<longleftrightarrow> map_of (st_limiters s) k = None \<and> distinct (map fst (st_lastSeen s)) \<and> st_ttl s = st_ttl (NewStore :: 'l Store)"

lemma Allow_no_bucket: "no_bucket s k \<Longrightarrow> key \<noteq> k \<Longrightarrow> Allow lm key rps burst now s = (ok, s') \<Longrightarrow> no_bucket s' k"
  by (auto simp: no_bucket_def Allow_def store_sweep_def Let_def AList.update_conv' distinct_update filter_map_of distinct_map_filter
      split: prod.splits if_splits)

lemma allow_all_fresh:
  assumes "no_bucket s k" "sorted (map (\<lambda>(_, _, _, now). now) es)"
    and "successively (\<lambda>a b. b - a \<le> st_ttl (NewStore :: 'l Store)) (times_of k es)"
    and "\<forall>(key, rps, burst, now) \<in> set es. key = k \<longrightarrow> bucket_params rps burst = p"
  shows "answers_of k (allow_all lm es (s :: 'l Store)) = lone lm (NewLimiter lm (fst p) (snd p)) (times_of k es)"
  using assms
proof (induction es arbitrary: s)
  case Nil
  then show ?case by (simp add: times_of_def answers_of_def)
next
  case (Cons e es)
  obtain key rps burst now where e: "e = (key, rps, burst, now)" by (cases e)
  obtain ok s' where a: "Allow lm key rps burst now s = (ok, s')" by fastforce
  show ?case
  proof (cases "key = k")
    case True
    obtain ok' l' where l': "lim_Allow lm (NewLimiter lm (fst p) (snd p)) now = (ok', l')" by fastforce
    moreover have "p = bucket_params rps burst" using Cons.prems(4) True by (simp add: e)
    ultimately have s': "ok = ok'" "holds_bucket s' k l' p now"
      using Allow_new [of s k rps burst lm now ok' l'] Cons.prems(1) a True by (auto simp: no_bucket_def)
    have "answers_of k (allow_all lm es s') = lone lm l' (times_of k es)"
      by (rule allow_all_bucket [OF s'(2)]) (use Cons.prems(2-4) True in \<open>auto simp: e times_of_Cons\<close>)
    then show ?thesis using allow_all_Cons [OF a, of k es] True l' s'(1) by (simp add: e times_of_Cons)
  next
    case False
    have "answers_of k (allow_all lm es s') = lone lm (NewLimiter lm (fst p) (snd p)) (times_of k es)"
      by (rule Cons.IH [OF Allow_no_bucket [OF Cons.prems(1) False a]]) (use Cons.prems(2-4) False in \<open>auto simp: e times_of_Cons\<close>)
    then show ?thesis using allow_all_Cons [OF a, of k es] False by (simp add: e times_of_Cons)
  qed
qed

text \<open>
  C13. Every client has its own bucket: however calls for other keys interleave, with
  whatever limits, the answers to a key that is always used with the same limits
  and is not silent for longer than five minutes are those of one token bucket
  that sees the calls for that key alone.
\<close>

theorem own_bucket:
  assumes "sorted (map (\<lambda>(_, _, _, now). now) es)"
    and "successively (\<lambda>a b. b - a \<le> 5 * 60 * 1000000000) (times_of k es)"
    and "\<forall>(key, rps, burst, now) \<in> set es. key = k \<longrightarrow> bucket_params rps burst = p"
  shows "answers_of k (allow_all lm es NewStore) = lone lm (NewLimiter lm (fst p) (snd p)) (times_of k es)"
  by (rule allow_all_fresh) (use assms in \<open>simp_all add: no_bucket_def NewStore_def\<close>)

text \<open>A bucket that is never refilled.\<close>

definition count_limiter :: "int rate_limiter" where
  "count_limiter = \<lparr>NewLimiter = (\<lambda>_ burst. burst), lim_Allow = (\<lambda>n _. (0 < n, n - 1))\<rparr>"

theorem own_bucket_witness:
  "answers_of ''a'' (allow_all count_limiter [(''a'', 5, 1, 0), (''b'', 1, 9, 1), (''a'', 5, 1, 2), (''b'', 3, 3, 4)] NewStore) = [True, False]"
proof -
  have "times_of ''a'' [(''a'', 5, 1, 0), (''b'', 1, 9, 1), (''a'', 5, 1, 2), (''b'', 3, 3, 4)] = [0, 2]" by (simp add: times_of_def)
  then show ?thesis
    using own_bucket [of "[(''a'', 5, 1, 0), (''b'', 1, 9, 1), (''a'', 5, 1, 2), (''b'', 3, 3, 4)]" "''a''" "(5, 1)" count_limiter]
    by (simp add: bucket_params_def count_limiter_def)
qed

text \<open>
  Conflicting limits cancel each other: when one key is used with two limits in
  turn, as two rules with the same identifier do, every call gets a new bucket
  and none is ever refused.
\<close>

theorem conflicting_limits_never_refuse:
  assumes "\<forall>rps burst now. 0 < rps \<longrightarrow> 0 < burst \<longrightarrow> fst (lim_Allow lm (NewLimiter lm rps burst) now)"
    and "successively (\<lambda>(_, r, b, _) (_, r', b', _). bucket_params r b \<noteq> bucket_params r' b') es" "\<forall>(key, _) \<in> set es. key = k"
  shows "set (answers_of k (allow_all lm es NewStore)) \<subseteq> {True}"
proof -
  have "set (answers_of k (allow_all lm es s)) \<subseteq> {True}"
    if "distinct (map fst (st_lastSeen s))" "st_ttl s = st_ttl (NewStore :: 'a Store)" "\<forall>(key, _) \<in> set es. key = k"
      "successively (\<lambda>(_, r, b, _) (_, r', b', _). bucket_params r b \<noteq> bucket_params r' b') es"
      "es \<noteq> [] \<longrightarrow> map_of (st_params s) k \<noteq> Some (bucket_params (fst (snd (hd es))) (fst (snd (snd (hd es)))))" for es s
    using that
  proof (induction es arbitrary: s)
    case (Cons e es)
    obtain rps burst now where e: "e = (k, rps, burst, now)" using Cons.prems(3) by (cases e) auto
    obtain ok l' where l': "lim_Allow lm (NewLimiter lm (fst (bucket_params rps burst)) (snd (bucket_params rps burst))) now = (ok, l')"
      by fastforce
    have "0 < fst (bucket_params rps burst)" "0 < snd (bucket_params rps burst)" by (simp_all add: bucket_params_def)
    then have ok: "ok" using assms(1) [rule_format, of "fst (bucket_params rps burst)" "snd (bucket_params rps burst)" now] l' by simp
    obtain s' where s': "Allow lm k rps burst now s = (ok, s')" "holds_bucket s' k l' (bucket_params rps burst) now"
      using Allow_new [OF _ Cons.prems(1,2) l'] Cons.prems(5) by (auto simp: e)
    have "set (answers_of k (allow_all lm es s')) \<subseteq> {True}"
    proof (rule Cons.IH)
      show "es \<noteq> [] \<longrightarrow> map_of (st_params s') k \<noteq> Some (bucket_params (fst (snd (hd es))) (fst (snd (snd (hd es)))))"
        using Cons.prems(4) s'(2) by (cases es) (auto simp: e holds_bucket_def)
      show "successively (\<lambda>(_, r, b, _) (_, r', b', _). bucket_params r b \<noteq> bucket_params r' b') es"
        using Cons.prems(4) by (cases es) simp_all
    qed (use Cons.prems(3) s'(2) in \<open>simp_all add: holds_bucket_def\<close>)
    then show ?case using allow_all_Cons [OF s'(1), of k es] ok by (simp add: e)
  qed (simp add: answers_of_def)
  from this [of NewStore es] show ?thesis using assms(2,3) by (simp add: NewStore_def)
qed

theorem conflicting_limits_never_refuse_witness:
  "set (answers_of ''a'' (allow_all count_limiter [(''a'', 5, 1, 0), (''a'', 7, 1, 0), (''a'', 5, 1, 0), (''a'', 7, 1, 0)] NewStore)) \<subseteq> {True}"
  by (rule conflicting_limits_never_refuse) (simp_all add: count_limiter_def bucket_params_def)

end
