(* ===== verification/Waf.thy ===== *)
theory Waf
  imports Net RateLimit
begin

text \<open>
  The web application firewall (\<open>plugins/waf\<close>): compiling a policy into one index per
  request parameter, evaluating a request against the indexes, and the plugin.
  Regular expressions, the Aho-Corasick automaton, floating-point parsing and
  the GeoLite databases are arguments. The body of the request is a stream that
  is consumed by reading it.
\<close>

section \<open>Environment\<close>

text \<open>
  \<open>we_find\<close> is \<open>FindAllOverlapping\<close> of the automaton built from some patterns: the pattern
  numbers of the matches in a text, in order. A number that \<open>we_float\<close> reads is real;
  a text of no number, or of none that compares, gives None; infinite numbers are left out.
\<close>

record waf_env =
  we_re :: "string \<Rightarrow> (string \<Rightarrow> bool) option"
  we_find :: "string list \<Rightarrow> string \<Rightarrow> nat list"
  we_float :: "string \<Rightarrow> real option"

text \<open>A request body: its bytes, and whether reading past them fails.\<close>

record body_stream =
  bs_data :: "byte list"
  bs_err :: bool

definition getFloat :: "config \<Rightarrow> string \<Rightarrow> real" where
  "getFloat m k = (case map_of m k of Some (AFloat v) \<Rightarrow> v | Some (AInt v) \<Rightarrow> of_int v | _ \<Rightarrow> 0)"

definition parseCIDR :: "string \<Rightarrow> IPNet option" where
  "parseCIDR s0 =
     (let s = TrimSpace s0 in
      if \<not> Contains s ''/'' then
        (case ParseIP s of
           None \<Rightarrow> None
         | Some a \<Rightarrow> (let bits = (if To4 a = None then 128 else 32) in Some \<lparr>net_IP = a, net_Mask = CIDRMask bits bits\<rparr>))
      else ParseCIDR s)"

definition parseIPNets :: "string \<Rightarrow> IPNet list" where
  "parseIPNets value = List.map_filter parseCIDR (SplitByte value (CHR '',''))"

section \<open>Geographic data\<close>

record geodb =
  geo_country :: "(ip \<Rightarrow> (string \<times> string) option) option"
  geo_asn :: "(ip \<Rightarrow> (nat \<times> string) option) option"
  geo_city :: "(ip \<Rightarrow> (string \<times> string) list option) option"

text \<open>
  \<open>openGeodb\<close>; the arguments open the three databases of a directory. Only the country
  database is required.
\<close>

record mmdb =
  md_country :: "string \<Rightarrow> (ip \<Rightarrow> (string \<times> string) option) option"
  md_asn :: "string \<Rightarrow> (ip \<Rightarrow> (nat \<times> string) option) option"
  md_city :: "string \<Rightarrow> (ip \<Rightarrow> (string \<times> string) list option) option"

definition openGeodb :: "mmdb \<Rightarrow> string \<Rightarrow> geodb option" where
  "openGeodb md dir =
     (if dir = '''' then Some \<lparr>geo_country = None, geo_asn = None, geo_city = None\<rparr>
      else
        (case md_country md dir of
           None \<Rightarrow> None
         | Some c \<Rightarrow> Some \<lparr>geo_country = Some c, geo_asn = md_asn md dir, geo_city = md_city md dir\<rparr>))"

definition geo_lookup :: "geodb \<Rightarrow> ip \<Rightarrow> string \<times> nat \<times> string \<times> string" where
  "geo_lookup g a =
     (let country = (case geo_country g of
            Some f \<Rightarrow> (case f a of Some (code, registered) \<Rightarrow> if code = '''' then registered else code | None \<Rightarrow> '''') | None \<Rightarrow> '''');
          (asn, org) = (case geo_asn g of Some f \<Rightarrow> (case f a of Some x \<Rightarrow> x | None \<Rightarrow> (0, '''')) | None \<Rightarrow> (0, ''''));
          city = (case geo_city g of
            Some f \<Rightarrow> (case f a of Some names \<Rightarrow> (case map_of names ''en'' of Some v \<Rightarrow> v | None \<Rightarrow> '''') | None \<Rightarrow> '''') | None \<Rightarrow> '''')
      in (country, asn, org, city))"

section \<open>The request\<close>

definition clientIP :: "request \<Rightarrow> string" where
  "clientIP r =
     (let x = Header_Get (Header r) ''X-Real-IP''; xff = Header_Get (Header r) ''X-Forwarded-For'' in
      if x \<noteq> '''' then TrimSpace x
      else if xff \<noteq> '''' then
        (case Index xff '','' of
           Some i \<Rightarrow> TrimSpace (if 0 < i then take i xff else xff)
         | None \<Rightarrow> TrimSpace xff)
      else (case SplitHostPort (RemoteAddr r) of Some (host, _) \<Rightarrow> host | None \<Rightarrow> RemoteAddr r))"

record requestCtx =
  cx_r :: request
  cx_gs :: "geodb option"
  cx_ip :: string
  cx_geoDone :: bool
  cx_country :: string
  cx_asn :: nat
  cx_asnOrg :: string
  cx_city :: string
  cx_bodyDone :: bool
  cx_body :: string
  cx_maxBodySize :: int
  cx_stream :: "body_stream option"

definition newRequestCtx :: "request \<Rightarrow> body_stream option \<Rightarrow> geodb option \<Rightarrow> int \<Rightarrow> requestCtx" where
  "newRequestCtx r stream gs maxBodySize =
     \<lparr>cx_r = r, cx_gs = gs, cx_ip = clientIP r, cx_geoDone = False, cx_country = '''', cx_asn = 0, cx_asnOrg = '''',
      cx_city = '''', cx_bodyDone = False, cx_body = '''', cx_maxBodySize = maxBodySize, cx_stream = stream\<rparr>"

definition ensureGeo :: "requestCtx \<Rightarrow> requestCtx" where
  "ensureGeo c =
     (if cx_geoDone c then c
      else
        (let c1 = c\<lparr>cx_geoDone := True\<rparr> in
         case cx_gs c of
           None \<Rightarrow> c1
         | Some g \<Rightarrow>
             (case ParseIP (TrimSpace (cx_ip c)) of
                None \<Rightarrow> c1
              | Some a \<Rightarrow>
                  (case geo_lookup g a of (country, asn, org, city) \<Rightarrow>
                     c1\<lparr>cx_country := country, cx_asn := asn, cx_asnOrg := org, cx_city := city\<rparr>))))"

text \<open>
  \<open>ensureBody\<close> reads one byte more than the limit; a longer body is returned but not
  remembered.
\<close>

definition body_limit :: "requestCtx \<Rightarrow> nat" where
  "body_limit c = (if cx_maxBodySize c \<le> 0 then 1048576 else nat (cx_maxBodySize c))"

definition ensureBody :: "requestCtx \<Rightarrow> string \<times> requestCtx" where
  "ensureBody c =
     (if cx_bodyDone c then (cx_body c, c)
      else
        (let c1 = c\<lparr>cx_bodyDone := True\<rparr> in
         case cx_stream c of
           None \<Rightarrow> ('''', c1)
         | Some s \<Rightarrow>
             (let n = Suc (body_limit c); b = take n (bs_data s);
                  c2 = c1\<lparr>cx_stream := Some (s\<lparr>bs_data := drop n (bs_data s)\<rparr>)\<rparr>
              in if length (bs_data s) < n \<and> bs_err s then ('''', c2)
                 else if body_limit c < length b then (string_of (take (body_limit c) b) @ ''... [truncated]'', c2)
                 else (string_of b, c2\<lparr>cx_body := string_of b\<rparr>))))"

text \<open>The parameters that are read from the request alone, and those of the geographic databases.\<close>

definition plain_value :: "requestCtx \<Rightarrow> string \<Rightarrow> string \<Rightarrow> string \<times> bool" where
  "plain_value c param name =
     (let r = cx_r c; opt = (\<lambda>v. (v, v \<noteq> '''')) in
      if param = ''host'' then opt (Host r)
      else if param = ''user_agent'' then opt (Header_Get (Header r) ''User-Agent'')
      else if param = ''referer'' then opt (Header_Get (Header r) ''Referer'')
      else if param = ''cookie'' then opt (Header_Get (Header r) ''Cookie'')
      else if param = ''url'' then (RequestURI r, True)
      else if param = ''path'' then (Path r, True)
      else if param = ''query'' then (RawQuery r, True)
      else if param = ''method'' then (Method r, True)
      else if param = ''ip'' then opt (cx_ip c)
      else if param = ''arg'' then opt (Query_Get (RawQuery r) name)
      else if param = ''header'' then opt (Header_Get (Header r) name)
      else ('''', False))"

definition geo_params :: "string list" where
  "geo_params = [''country'', ''asn'', ''asn_org'', ''city'']"

definition geo_value :: "requestCtx \<Rightarrow> string \<Rightarrow> string \<times> bool" where
  "geo_value c param =
     (if param = ''country'' then (cx_country c, cx_country c \<noteq> '''')
      else if param = ''asn'' then (if cx_asn c = 0 then ('''', False) else (show_nat (cx_asn c), True))
      else if param = ''asn_org'' then (cx_asnOrg c, cx_asnOrg c \<noteq> '''')
      else (cx_city c, cx_city c \<noteq> ''''))"

text \<open>
  \<open>get\<close>. The operands of the \<open>return\<close> for the body are evaluated call first, as the
  compiler does.
\<close>

definition cx_get :: "requestCtx \<Rightarrow> string \<Rightarrow> string \<Rightarrow> (string \<times> bool) \<times> requestCtx" where
  "cx_get c param name =
     (if param \<in> set geo_params then (let c' = ensureGeo c in (geo_value c' param, c'))
      else if param = ''body'' then (case ensureBody c of (v, c') \<Rightarrow> ((v, cx_body c' \<noteq> ''''), c'))
      else (plain_value c param name, c))"

section \<open>Rule sets\<close>

definition actionDeny :: string where
  "actionDeny = ''deny''"

definition actionAllow :: string where
  "actionAllow = ''allow''"

definition actionLog :: string where
  "actionLog = ''log''"

definition actionRateLimit :: string where
  "actionRateLimit = ''ratelimit''"

record compiledRule =
  cr_id :: string
  cr_name :: string
  cr_enabled :: bool
  cr_action :: string
  cr_code :: int
  cr_message :: string
  cr_rps :: real
  cr_burst :: int
  cr_groups :: "nat list list"

record ahoMatcher =
  am_patterns :: "string list"
  am_condMap :: "nat list list"

record paramIndex =
  pi_name :: string
  pi_contains :: "(string \<times> nat) list"
  pi_aho :: "ahoMatcher option"
  pi_equals :: "(string \<times> nat) list"
  pi_prefixes :: "(string \<times> nat) list"
  pi_suffixes :: "(string \<times> nat) list"
  pi_regexes :: "((string \<Rightarrow> bool) \<times> nat) list"
  pi_ins :: "(string list \<times> bool \<times> nat) list"
  pi_numGt :: "(real \<times> nat) list"
  pi_numLt :: "(real \<times> nat) list"
  pi_ipNets :: "(IPNet list \<times> bool \<times> nat) list"
  pi_exists :: "nat list"
  pi_notExists :: "nat list"

definition new_index :: paramIndex where
  "new_index = \<lparr>pi_name = '''', pi_contains = [], pi_aho = None, pi_equals = [], pi_prefixes = [], pi_suffixes = [], pi_regexes = [],
     pi_ins = [], pi_numGt = [], pi_numLt = [], pi_ipNets = [], pi_exists = [], pi_notExists = []\<rparr>"

record ruleSet =
  rs_params :: "(string \<times> paramIndex) list"
  rs_rules :: "compiledRule list"
  rs_condCount :: nat
  rs_maxBodySize :: int

text \<open>The cases of the switch over the operator, in lower case; any other is ignored.\<close>

datatype operator = OpContains | OpEquals | OpStartsWith | OpEndsWith | OpMatches | OpIn | OpNotIn | OpGt | OpLt | OpExists | OpNotExists

definition operator_of :: "string \<Rightarrow> operator option" where
  "operator_of op =
     map_of [(''contains'', OpContains), (''equals'', OpEquals), (''startswith'', OpStartsWith), (''endswith'', OpEndsWith),
       (''matches'', OpMatches), (''in'', OpIn), (''not_in'', OpNotIn), (''gt'', OpGt), (''lt'', OpLt), (''exists'', OpExists),
       (''not_exists'', OpNotExists)] (ToLower op)"

definition isIPOperator :: "string \<Rightarrow> bool" where
  "isIPOperator op = (ToLower op \<in> {''equals'', ''in'', ''not_in'', ''in_ip'', ''not_in_ip''})"

definition addIPCond :: "paramIndex \<Rightarrow> string \<Rightarrow> bool \<Rightarrow> nat \<Rightarrow> paramIndex" where
  "addIPCond idx value negate condID =
     (let nets = parseIPNets value in
      if nets = [] then idx else idx\<lparr>pi_ipNets := pi_ipNets idx @ [(nets, negate, condID)]\<rparr>)"

definition in_values :: "string \<Rightarrow> string list" where
  "in_values value = filter (\<lambda>v. v \<noteq> '''') (map TrimSpace (SplitByte value (CHR '','')))"

definition compileCondition :: "waf_env \<Rightarrow> paramIndex \<Rightarrow> string \<Rightarrow> string \<Rightarrow> nat \<Rightarrow> paramIndex" where
  "compileCondition env idx op value condID =
     (case operator_of op of
        None \<Rightarrow> idx
      | Some OpContains \<Rightarrow> idx\<lparr>pi_contains := pi_contains idx @ [(ToLower value, condID)]\<rparr>
      | Some OpEquals \<Rightarrow> idx\<lparr>pi_equals := AList.update value condID (pi_equals idx)\<rparr>
      | Some OpStartsWith \<Rightarrow> idx\<lparr>pi_prefixes := pi_prefixes idx @ [(value, condID)]\<rparr>
      | Some OpEndsWith \<Rightarrow> idx\<lparr>pi_suffixes := pi_suffixes idx @ [(value, condID)]\<rparr>
      | Some OpMatches \<Rightarrow>
          (case we_re env value of None \<Rightarrow> idx | Some m \<Rightarrow> idx\<lparr>pi_regexes := pi_regexes idx @ [(m, condID)]\<rparr>)
      | Some OpIn \<Rightarrow> idx\<lparr>pi_ins := pi_ins idx @ [(in_values value, False, condID)]\<rparr>
      | Some OpNotIn \<Rightarrow> idx\<lparr>pi_ins := pi_ins idx @ [(in_values value, True, condID)]\<rparr>
      | Some OpGt \<Rightarrow>
          (case we_float env (TrimSpace value) of None \<Rightarrow> idx | Some th \<Rightarrow> idx\<lparr>pi_numGt := pi_numGt idx @ [(th, condID)]\<rparr>)
      | Some OpLt \<Rightarrow>
          (case we_float env (TrimSpace value) of None \<Rightarrow> idx | Some th \<Rightarrow> idx\<lparr>pi_numLt := pi_numLt idx @ [(th, condID)]\<rparr>)
      | Some OpExists \<Rightarrow> idx\<lparr>pi_exists := pi_exists idx @ [condID]\<rparr>
      | Some OpNotExists \<Rightarrow> idx\<lparr>pi_notExists := pi_notExists idx @ [condID]\<rparr>)"

text \<open>One condition of a group: the number it gets, or None if it is skipped.\<close>

definition add_condition :: "waf_env \<Rightarrow> config \<Rightarrow> ruleSet \<Rightarrow> nat option \<times> ruleSet" where
  "add_condition env cm rs =
     (let param = GetString cm ''param''; op0 = GetString cm ''operator''; value = GetString cm ''value'';
          op = (if op0 = ''in'' then ''In'' else op0); n = rs_condCount rs in
      if param = '''' then (None, rs)
      else
        (let idx0 = (case map_of (rs_params rs) param of Some idx \<Rightarrow> idx | None \<Rightarrow> new_index);
             name = GetString cm ''param_name'';
             idx1 = (if name \<noteq> '''' then idx0\<lparr>pi_name := name\<rparr> else idx0);
             idx2 = (if param = ''ip'' \<and> isIPOperator op
                     then addIPCond idx1 value (ToLower op = ''not_in'' \<or> ToLower op = ''not_in_ip'') n
                     else compileCondition env idx1 op value n)
         in (Some n, rs\<lparr>rs_params := AList.update param idx2 (rs_params rs), rs_condCount := Suc n\<rparr>)))"

fun add_group :: "waf_env \<Rightarrow> any list \<Rightarrow> ruleSet \<Rightarrow> nat list \<times> ruleSet" where
  "add_group env [] rs = ([], rs)"
| "add_group env (x # xs) rs =
     (case x of
        AMap cm \<Rightarrow>
          (case add_condition env cm rs of
             (None, rs1) \<Rightarrow> add_group env xs rs1
           | (Some n, rs1) \<Rightarrow> (case add_group env xs rs1 of (ns, rs2) \<Rightarrow> (n # ns, rs2)))
      | _ \<Rightarrow> add_group env xs rs)"

fun add_groups :: "waf_env \<Rightarrow> any list \<Rightarrow> ruleSet \<Rightarrow> nat list list \<times> ruleSet" where
  "add_groups env [] rs = ([], rs)"
| "add_groups env (x # xs) rs =
     (case x of
        AList conds \<Rightarrow>
          (case add_group env conds rs of
             (g, rs1) \<Rightarrow> (case add_groups env xs rs1 of (gs, rs2) \<Rightarrow> (if g = [] then gs else g # gs, rs2)))
      | _ \<Rightarrow> add_groups env xs rs)"

text \<open>The fields of a rule, without its groups.\<close>

definition rule_action :: "config \<Rightarrow> string" where
  "rule_action am =
     (let t = GetString am ''type'';
          a = ToLower (map (\<lambda>c. if c = CHR ''-'' then CHR ''_'' else c) (if t = '''' then actionDeny else t))
      in if a = ''rate_limit'' then actionRateLimit else a)"

definition rule_header :: "config \<Rightarrow> compiledRule" where
  "rule_header rm =
     (let rule = \<lparr>cr_id = GetString rm ''id'', cr_name = GetString rm ''name'',
                  cr_enabled = (case map_of rm ''enabled'' of Some (ABool e) \<Rightarrow> e | _ \<Rightarrow> True), cr_action = actionDeny,
                  cr_code = 0, cr_message = '''', cr_rps = 0, cr_burst = 0, cr_groups = []\<rparr>
      in case map_of rm ''action'' of
           Some (AMap am) \<Rightarrow>
             rule\<lparr>cr_action := rule_action am, cr_code := GetInt am ''code'', cr_message := GetString am ''message'',
                  cr_rps := (if getFloat am ''rps'' = 0 then getFloat am ''requests_per_second'' else getFloat am ''rps''),
                  cr_burst := GetInt am ''burst''\<rparr>
         | _ \<Rightarrow> rule)"

fun add_rules :: "waf_env \<Rightarrow> any list \<Rightarrow> ruleSet \<Rightarrow> ruleSet" where
  "add_rules env [] rs = rs"
| "add_rules env (x # xs) rs =
     (case x of
        AMap rm \<Rightarrow>
          (case add_groups env (case map_of rm ''conditions'' of Some (AList gs) \<Rightarrow> gs | _ \<Rightarrow> []) rs of
             (gs, rs1) \<Rightarrow>
               add_rules env xs
                 (if gs = [] then rs1 else rs1\<lparr>rs_rules := rs_rules rs1 @ [(rule_header rm)\<lparr>cr_groups := gs\<rparr>]\<rparr>))
      | _ \<Rightarrow> add_rules env xs rs)"

text \<open>
  The automaton of a parameter: the patterns in the order of their first use, each
  with the conditions that have it.
\<close>

definition buildAhoMatcher :: "(string \<times> nat list) list \<Rightarrow> ahoMatcher option" where
  "buildAhoMatcher pats =
     (let nonEmpty = filter (\<lambda>(p, _). p \<noteq> '''') pats in
      if nonEmpty = [] then None else Some \<lparr>am_patterns = map fst nonEmpty, am_condMap = map snd nonEmpty\<rparr>)"

fun add_pattern :: "(string \<times> nat list) list \<Rightarrow> string \<times> nat \<Rightarrow> (string \<times> nat list) list" where
  "add_pattern acc (p, c) = AList.update p ((case map_of acc p of Some cs \<Rightarrow> cs | None \<Rightarrow> []) @ [c]) acc"

definition group_patterns :: "(string \<times> nat) list \<Rightarrow> (string \<times> nat list) list" where
  "group_patterns pcs = foldl add_pattern [] pcs"

definition finalize_index :: "paramIndex \<Rightarrow> paramIndex" where
  "finalize_index idx = (if pi_contains idx = [] then idx else idx\<lparr>pi_aho := buildAhoMatcher (group_patterns (pi_contains idx))\<rparr>)"

definition finalizeIndexes :: "ruleSet \<Rightarrow> ruleSet" where
  "finalizeIndexes rs = rs\<lparr>rs_params := map (\<lambda>(p, idx). (p, finalize_index idx)) (rs_params rs)\<rparr>"

text \<open>\<open>buildRuleSet\<close>: None for a policy that is off, the left side for rules that are not a list.\<close>

definition buildRuleSet :: "waf_env \<Rightarrow> config \<Rightarrow> int \<Rightarrow> (error, ruleSet option) result" where
  "buildRuleSet env cfg maxBodySize =
     (let rs = \<lparr>rs_params = [], rs_rules = [], rs_condCount = 0, rs_maxBodySize = maxBodySize\<rparr> in
      if \<not> GetBool cfg ''enabled'' then Inr None
      else
        (case map_of cfg ''rules'' of
           None \<Rightarrow> Inr (Some rs)
         | Some (AList rules) \<Rightarrow> Inr (Some (finalizeIndexes (add_rules env rules rs)))
         | Some _ \<Rightarrow> Inl ''waf: rules must be a list''))"

section \<open>Evaluation\<close>

text \<open>The conditions of the patterns found, each pattern once.\<close>

fun match_conds :: "nat list list \<Rightarrow> nat list \<Rightarrow> nat list \<Rightarrow> nat list go" where
  "match_conds condMap seen [] = Ret []"
| "match_conds condMap seen (i # is) =
     (if i \<in> set seen then match_conds condMap seen is
      else go_bind (go_index condMap i) (\<lambda>cs. go_bind (match_conds condMap (i # seen) is) (\<lambda>rest. Ret (cs @ rest))))"

definition am_match :: "waf_env \<Rightarrow> ahoMatcher option \<Rightarrow> string \<Rightarrow> nat list go" where
  "am_match env m text =
     (case m of
        None \<Rightarrow> Ret []
      | Some a \<Rightarrow> if text = '''' then Ret [] else match_conds (am_condMap a) [] (we_find env (am_patterns a) text))"

text \<open>Setting the entries of \<open>hits\<close>: Go panics out of range.\<close>

fun mark :: "bool list \<Rightarrow> nat list \<Rightarrow> bool list go" where
  "mark hits [] = Ret hits"
| "mark hits (c # cs) = (if c < length hits then mark (hits[c := True]) cs else Panic)"

text \<open>The conditions of a present value, apart from the automaton's.\<close>

definition value_hits :: "waf_env \<Rightarrow> paramIndex \<Rightarrow> string \<Rightarrow> nat list" where
  "value_hits env idx value =
     (case map_of (pi_equals idx) value of Some c \<Rightarrow> [c] | None \<Rightarrow> []) @
     map snd (filter (\<lambda>(p, _). HasPrefix value p) (pi_prefixes idx)) @
     map snd (filter (\<lambda>(p, _). HasSuffix value p) (pi_suffixes idx)) @
     map snd (filter (\<lambda>(m, _). m value) (pi_regexes idx)) @
     map (\<lambda>(_, _, c). c) (filter (\<lambda>(vals, negate, _). (value \<in> set vals) \<noteq> negate) (pi_ins idx)) @
     (case ParseIP (TrimSpace value) of
        None \<Rightarrow> []
      | Some a \<Rightarrow> map (\<lambda>(_, _, c). c) (filter (\<lambda>(nets, negate, _). list_ex (\<lambda>n. net_Contains n a) nets \<noteq> negate) (pi_ipNets idx))) @
     (case we_float env (TrimSpace value) of
        None \<Rightarrow> []
      | Some num \<Rightarrow> map snd (filter (\<lambda>(th, _). num > th) (pi_numGt idx)) @ map snd (filter (\<lambda>(th, _). num < th) (pi_numLt idx)))"

definition applyIndex :: "waf_env \<Rightarrow> paramIndex \<Rightarrow> bool list \<Rightarrow> string \<Rightarrow> bool \<Rightarrow> bool list go" where
  "applyIndex env idx hits value present =
     go_bind (mark hits (if present then pi_exists idx else pi_notExists idx)) (\<lambda>hits1.
       if \<not> present then Ret hits1
       else go_bind (am_match env (pi_aho idx) (ToLower value)) (\<lambda>cs. mark hits1 (cs @ value_hits env idx value)))"

definition ruleMatches :: "compiledRule \<Rightarrow> bool list \<Rightarrow> bool" where
  "ruleMatches rule hits = list_ex (\<lambda>group. list_all (\<lambda>cid. cid < length hits \<and> hits ! cid) group) (cr_groups rule)"

fun apply_params :: "waf_env \<Rightarrow> (string \<times> paramIndex) list \<Rightarrow> bool list \<Rightarrow> requestCtx \<Rightarrow> (bool list \<times> requestCtx) go" where
  "apply_params env [] hits c = Ret (hits, c)"
| "apply_params env ((param, idx) # params) hits c =
     (case cx_get c param (pi_name idx) of
        ((value, present), c') \<Rightarrow> go_bind (applyIndex env idx hits value present) (\<lambda>hits'. apply_params env params hits' c'))"

datatype ruleSetAction = RuleSetAllow | RuleSetBlock

fun first_rule :: "compiledRule list \<Rightarrow> bool list \<Rightarrow> ruleSetAction \<times> compiledRule option" where
  "first_rule [] hits = (RuleSetAllow, None)"
| "first_rule (rule # rules) hits =
     (if \<not> cr_enabled rule \<or> \<not> ruleMatches rule hits then first_rule rules hits
      else if cr_action rule = actionAllow then (RuleSetAllow, Some rule)
      else if cr_action rule = actionDeny \<or> cr_action rule = actionRateLimit then (RuleSetBlock, Some rule)
      else first_rule rules hits)"

text \<open>\<open>evaluate\<close>: the decision, the rule, and what is left of the body.\<close>

definition evaluate ::
  "waf_env \<Rightarrow> ruleSet \<Rightarrow> request \<Rightarrow> body_stream option \<Rightarrow> geodb option \<Rightarrow>
   (ruleSetAction \<times> compiledRule option \<times> body_stream option) go" where
  "evaluate env rs r stream gs =
     go_bind (apply_params env (rs_params rs) (replicate (rs_condCount rs) False) (newRequestCtx r stream gs (rs_maxBodySize rs)))
       (\<lambda>(hits, c). case first_rule (rs_rules rs) hits of (action, rule) \<Rightarrow> Ret (action, rule, cx_stream c))"

section \<open>The plugin\<close>

record 'l WAFPlugin =
  wp_enabled :: bool
  wp_geodir :: string
  wp_rs :: "(string \<times> ruleSet) list"
  wp_gs :: "geodb option"
  wp_maxBodySize :: int
  wp_limiter :: "'l Store"

definition NewWAFPlugin :: "'l WAFPlugin" where
  "NewWAFPlugin = \<lparr>wp_enabled = False, wp_geodir = '''', wp_rs = [], wp_gs = None, wp_maxBodySize = 0, wp_limiter = NewStore\<rparr>"

definition rs_key :: "string \<Rightarrow> string \<Rightarrow> string" where
  "rs_key target loc = target @ ''|'' @ loc"

fun init_locations :: "waf_env \<Rightarrow> int \<Rightarrow> any list \<Rightarrow> (string \<times> ruleSet) list \<Rightarrow> (string \<times> ruleSet) list" where
  "init_locations env maxBody [] rss = rss"
| "init_locations env maxBody (x # xs) rss =
     (case x of
        AMap loc \<Rightarrow>
          (case map_of loc ''waf'' of
             Some (AMap wafCfg) \<Rightarrow>
               (case buildRuleSet env wafCfg maxBody of
                  Inr (Some rs) \<Rightarrow>
                    init_locations env maxBody xs (AList.update (rs_key (GetString loc ''target'') (GetString loc ''location'')) rs rss)
                | _ \<Rightarrow> init_locations env maxBody xs rss)
           | _ \<Rightarrow> init_locations env maxBody xs rss)
      | _ \<Rightarrow> init_locations env maxBody xs rss)"

definition waf_Init :: "waf_env \<Rightarrow> 'l WAFPlugin \<Rightarrow> config \<Rightarrow> 'l WAFPlugin" where
  "waf_Init env p cfg =
     (let size0 = GetInt64 cfg ''max_body_size''; maxBody = (if size0 = 0 then 1048576 else size0)
      in p\<lparr>wp_enabled := GetBool cfg ''enabled'', wp_geodir := GetString cfg ''geolite_dir'', wp_maxBodySize := maxBody,
           wp_rs := init_locations env maxBody (case map_of cfg ''locations'' of Some (AList locs) \<Rightarrow> locs | _ \<Rightarrow> []) []\<rparr>)"

definition waf_Start :: "mmdb \<Rightarrow> 'l WAFPlugin \<Rightarrow> error option \<times> 'l WAFPlugin" where
  "waf_Start md p =
     (if \<not> wp_enabled p then (None, p)
      else (case openGeodb md (wp_geodir p) of None \<Rightarrow> (Some ''open'', p) | Some gs \<Rightarrow> (None, p\<lparr>wp_gs := Some gs\<rparr>)))"

definition waf_Stop :: "'l WAFPlugin \<Rightarrow> 'l WAFPlugin" where
  "waf_Stop p = p\<lparr>wp_gs := None\<rparr>"

definition blockConfig :: "compiledRule option \<Rightarrow> int \<times> string" where
  "blockConfig rule =
     (case rule of
        None \<Rightarrow> (403, ''Request blocked by WAF'')
      | Some r \<Rightarrow> (if cr_code r \<noteq> 0 then cr_code r else 403, if cr_message r \<noteq> '''' then cr_message r else ''Request blocked by WAF''))"

definition writeBlock :: "response_writer \<Rightarrow> int \<Rightarrow> string \<Rightarrow> response_writer" where
  "writeBlock w status0 message0 =
     (let status = (if status0 = 0 then 403 else status0);
          message = (if message0 = '''' then ''Request blocked by WAF'' else message0);
          h = Header_Set (Header_Set (rw_header w) ''Content-Type'' ''text/plain; charset=utf-8'') ''X-WAF-Block'' ''true''
      in Write (WriteHeader (w\<lparr>rw_header := h\<rparr>) status) (bytes_of message))"

definition errWAFBlocked :: error where
  "errWAFBlocked = ''waf: request blocked''"

definition waf_BeforeProxy ::
  "waf_env \<Rightarrow> 'l rate_limiter \<Rightarrow> int \<Rightarrow> 'l WAFPlugin \<Rightarrow> response_writer \<Rightarrow> request \<Rightarrow> body_stream option \<Rightarrow> string \<Rightarrow> string \<Rightarrow>
   (error option \<times> response_writer \<times> body_stream option \<times> 'l WAFPlugin) go" where
  "waf_BeforeProxy env lm now p w r stream target loc =
     (if \<not> wp_enabled p then Ret (None, w, stream, p)
      else
        (case map_of (wp_rs p) (rs_key target loc) of
           None \<Rightarrow> Ret (None, w, stream, p)
         | Some rs \<Rightarrow>
             go_bind (evaluate env rs r stream (wp_gs p)) (\<lambda>(action, rule, stream').
               case action of
                 RuleSetAllow \<Rightarrow> Ret (None, w, stream', p)
               | RuleSetBlock \<Rightarrow>
                   (case blockConfig rule of (status, message) \<Rightarrow>
                      (case rule of
                         Some ru \<Rightarrow>
                           if cr_action ru = actionRateLimit then
                             (case Allow lm (cr_id ru @ ''|'' @ clientIP r) (cr_rps ru) (cr_burst ru) now (wp_limiter p) of
                                (allowed, s) \<Rightarrow>
                                  if allowed then Ret (None, w, stream', p\<lparr>wp_limiter := s\<rparr>)
                                  else
                                    Ret (Some errWAFBlocked,
                                      writeBlock (w\<lparr>rw_header := Header_Set (rw_header w) ''Retry-After'' ''1''\<rparr>)
                                        (if status = 403 then 429 else status)
                                        (if message = ''Request blocked by WAF'' then ''Too Many Requests'' else message),
                                      stream', p\<lparr>wp_limiter := s\<rparr>))
                           else Ret (Some errWAFBlocked, writeBlock w status message, stream', p)
                       | None \<Rightarrow> Ret (Some errWAFBlocked, writeBlock w status message, stream', p))))))"

end
