(* ===== verification/PluginConfig.thy ===== *)
theory PluginConfig
  imports Plugins "HOL-Library.AList"
begin

text \<open>
  From the configuration to the plugins: the untyped configuration of each plugin
  (\<open>internal/proxyserver/plugin_config.go\<close>) and the registry that creates, initialises,
  starts and stops them (\<open>plugins/registry\<close>). A Go map is an association list, a nil
  map or slice the empty list. The lemmas show that every plugin a configuration
  enables is known and loaded, that the settings of a location are those of the
  last location that has any, and that an edge without local targets has no
  firewall.
\<close>

section \<open>Typed settings as maps\<close>

definition compression_map :: "CompressionConfig \<Rightarrow> config" where
  "compression_map v =
     (if cmp_Enabled v
      then [(''enabled'', ABool True), (''level'', AInt (cmp_Level v)), (''min_length'', AInt (cmp_MinLength v)),
            (''types'', AStrings (cmp_Types v))]
      else [(''enabled'', ABool False)])"

definition images_map :: "ImageOptimizeConfig \<Rightarrow> config" where
  "images_map v =
     [(''enabled'', ABool (im_Enabled v)), (''max_width'', AInt (im_MaxWidth v)), (''max_height'', AInt (im_MaxHeight v)),
      (''quality'', AInt (im_Quality v)), (''format'', AString (im_Format v)), (''strip_metadata'', ABool (im_StripMetadata v)),
      (''progressive'', ABool (im_Progressive v))]"

definition optimize_map :: "OptimizeConfig \<Rightarrow> config" where
  "optimize_map v =
     (if opt_Enabled v
      then [(''enabled'', ABool True), (''minify_css'', ABool (opt_MinifyCSS v)), (''minify_js'', ABool (opt_MinifyJS v)),
            (''uglify_js'', ABool (opt_UglifyJS v))] @
           (case opt_Images v of None \<Rightarrow> [] | Some im \<Rightarrow> [(''images'', AMap (images_map im))])
      else [(''enabled'', ABool False)])"

text \<open>The one rule is a slice of maps, \<open>[]map[string]any\<close>.\<close>

definition rewrite_map :: "RewriteConfig \<Rightarrow> config" where
  "rewrite_map v =
     (if rc_Pattern v \<noteq> ''''
      then [(''enabled'', ABool True),
            (''rules'', AMaps [[(''pattern'', AString (rc_Pattern v)), (''replacement'', AString (rc_Replacement v)),
               (''break'', ABool (rc_Break v)), (''redirect'', AString (rc_Redirect v))]])]
      else [])"

definition cors_map :: "CORSConfig \<Rightarrow> config" where
  "cors_map v =
     (if cors_Enabled v
      then [(''enabled'', ABool True), (''allow_origins'', AStrings (cors_AllowOrigins v)),
            (''allow_methods'', AStrings (cors_AllowMethods v)), (''allow_headers'', AStrings (cors_AllowHeaders v)),
            (''expose_headers'', AStrings (cors_ExposeHeaders v)), (''allow_credentials'', ABool (cors_AllowCredentials v)),
            (''max_age'', AInt (cors_MaxAge v))]
      else [(''enabled'', ABool False)])"

definition headers_map :: "HeadersConfig \<Rightarrow> config" where
  "headers_map v =
     (let m1 = (if hc_RequestAdd v \<noteq> []
                then [(''enabled'', ABool True), (''request_add'', AStringMap (hc_RequestAdd v))] else []);
          m2 = (if hc_RequestRemove v \<noteq> []
                then AList.update ''request_remove'' (AStrings (hc_RequestRemove v)) (AList.update ''enabled'' (ABool True) m1) else m1);
          m3 = (if hc_ResponseAdd v \<noteq> []
                then AList.update ''response_add'' (AStringMap (hc_ResponseAdd v)) (AList.update ''enabled'' (ABool True) m2) else m2)
      in if hc_ResponseRemove v \<noteq> []
         then AList.update ''response_remove'' (AStrings (hc_ResponseRemove v)) (AList.update ''enabled'' (ABool True) m3) else m3)"

section \<open>The firewall policies\<close>

definition waf_condition_map :: "WAFCondition \<Rightarrow> config" where
  "waf_condition_map c =
     [(''param'', AString (wc_Param c)), (''operator'', AString (wc_Operator c)), (''value'', AString (wc_Value c))] @
     (if wc_ParamName c \<noteq> '''' then [(''param_name'', AString (wc_ParamName c))] else [])"

definition waf_action_map :: "WAFRuleAction \<Rightarrow> config" where
  "waf_action_map a =
     (if act_Type a \<noteq> '''' then [(''type'', AString (act_Type a))] else []) @
     (if act_Code a \<noteq> 0 then [(''code'', AInt (act_Code a))] else []) @
     (if act_Message a \<noteq> '''' then [(''message'', AString (act_Message a))] else []) @
     (if act_RPS a \<noteq> 0 then [(''rps'', AFloat (act_RPS a))] else []) @
     (if act_Burst a \<noteq> 0 then [(''burst'', AInt (act_Burst a))] else [])"

definition waf_rule_map :: "WAFRule \<Rightarrow> config" where
  "waf_rule_map r =
     [(''id'', AString (wr_ID r))] @
     (if wr_Name r \<noteq> '''' then [(''name'', AString (wr_Name r))] else []) @
     (case wr_Enabled r of None \<Rightarrow> [] | Some e \<Rightarrow> [(''enabled'', ABool e)]) @
     (let a = wr_Action r in
      if act_Type a \<noteq> '''' \<or> act_Code a \<noteq> 0 \<or> act_Message a \<noteq> '''' \<or> act_RPS a \<noteq> 0 \<or> act_Burst a \<noteq> 0
      then [(''action'', AMap (waf_action_map a))] else []) @
     [(''conditions'', AList (map (\<lambda>grp. AList (map (\<lambda>c. AMap (waf_condition_map c)) grp)) (wr_Conditions r)))]"

definition wafLocationToMap :: "WAFLocationConfig \<Rightarrow> config" where
  "wafLocationToMap v =
     (''enabled'', ABool (wl_Enabled v)) #
     (if wl_Rules v \<noteq> [] then [(''rules'', AList (map (\<lambda>r. AMap (waf_rule_map r)) (wl_Rules v)))] else [])"

definition waf_location :: "TargetConfig \<Rightarrow> LocationConfig \<Rightarrow> any list" where
  "waf_location t loc =
     (case loc_WAF loc of
        None \<Rightarrow> []
      | Some v \<Rightarrow> [AMap [(''target'', AString (tc_ServerName t)), (''location'', AString (loc_Path loc)),
          (''waf'', AMap (wafLocationToMap v))]])"

definition buildWAFLocations :: "TargetConfig list \<Rightarrow> any list" where
  "buildWAFLocations targets = concat (map (\<lambda>t. concat (map (waf_location t) (tc_Locations t))) targets)"

section \<open>All plugins\<close>

definition waf_config :: "ProxyConfig \<Rightarrow> TargetConfig list \<Rightarrow> config" where
  "waf_config cfg targets =
     (if buildWAFLocations targets \<noteq> []
      then [(''enabled'', ABool (case pc_WAF cfg of Some w \<Rightarrow> waf_Enabled w | None \<Rightarrow> True)),
            (''geolite_dir'', AString (case pc_WAF cfg of Some w \<Rightarrow> waf_GeoLiteDir w | None \<Rightarrow> '''')),
            (''locations'', AList (buildWAFLocations targets))]
      else [(''enabled'', ABool False)])"

definition global_configs :: "ProxyConfig \<Rightarrow> TargetConfig list \<Rightarrow> (string \<times> config) list" where
  "global_configs cfg targets =
     [(''prometheus_exporter'',
        if pc_MetricsAddr cfg \<noteq> '''' then [(''enabled'', ABool True), (''listen'', AString (pc_MetricsAddr cfg))]
        else [(''enabled'', ABool False)])] @
     (case pc_JSONLog cfg of
        None \<Rightarrow> []
      | Some j \<Rightarrow> [(''jsonlog'', [(''enabled'', ABool (jl_Enabled j)), (''access_log'', AString (jl_AccessLog j)),
          (''error_log'', AString (jl_ErrorLog j)), (''stdout'', ABool (jl_Stdout j))])]) @
     (case pc_ErrorPage cfg of
        None \<Rightarrow> []
      | Some e \<Rightarrow> [(''error_page'', (''enabled'', ABool (ep_Enabled e)) #
          (if ep_Statuses e \<noteq> [] then [(''statuses'', AInts (ep_Statuses e))] else []))]) @
     [(''ratelimit'',
        case pc_RateLimit cfg of
          None \<Rightarrow> [(''enabled'', ABool False)]
        | Some l \<Rightarrow> (''enabled'', ABool (rlc_Enabled l)) #
            (if rlc_RPS l > 0 then [(''rps'', AFloat (rlc_RPS l))] else []) @
            (if rlc_Burst l > 0 then [(''burst'', AInt (rlc_Burst l))] else [])),
      (''waf'', waf_config cfg targets)]"

definition put_setting :: "string \<Rightarrow> ('a \<Rightarrow> config) \<Rightarrow> 'a option \<Rightarrow> (string \<times> config) list \<Rightarrow> (string \<times> config) list" where
  "put_setting name to_map v configs = (case v of None \<Rightarrow> configs | Some x \<Rightarrow> AList.update name (to_map x) configs)"

definition location_configs :: "LocationConfig \<Rightarrow> (string \<times> config) list \<Rightarrow> (string \<times> config) list" where
  "location_configs loc configs =
     put_setting ''headers'' headers_map (loc_Headers loc)
       (put_setting ''cors'' cors_map (loc_CORS loc)
         (put_setting ''rewrite'' rewrite_map (loc_Rewrite loc)
           (put_setting ''optimizer'' optimize_map (loc_Optimize loc)
             (put_setting ''compression'' compression_map (loc_Compression loc) configs))))"

definition buildPluginConfigs :: "ProxyConfig \<Rightarrow> TargetConfig list \<Rightarrow> (string \<times> config) list" where
  "buildPluginConfigs cfg targets =
     foldl (\<lambda>configs loc. location_configs loc configs) (global_configs cfg targets) (concat (map tc_Locations targets))"

section \<open>The registry\<close>

text \<open>A factory is the plugin it makes.\<close>

type_synonym 'p Registry = "(string \<times> 'p) list"

definition Register :: "string \<Rightarrow> 'p \<Rightarrow> 'p Registry \<Rightarrow> 'p Registry" where
  "Register name factory reg = AList.update name factory reg"

definition Get :: "'p Registry \<Rightarrow> string \<Rightarrow> (error, 'p) result" where
  "Get reg name = (case map_of reg name of None \<Rightarrow> Inl (''plugin not found: '' @ name) | Some p \<Rightarrow> Inr p)"

definition reg_List :: "'p Registry \<Rightarrow> string list" where
  "reg_List reg = map fst reg"

definition default_names :: "string list" where
  "default_names =
     [''cors'', ''headers'', ''rewrite'', ''compression'', ''optimizer'', ''jsonlog'', ''prometheus_exporter'', ''error_page'',
      ''waf'', ''ratelimit'']"

definition registerDefaultFactories :: "(string \<Rightarrow> 'p) \<Rightarrow> 'p Registry \<Rightarrow> 'p Registry" where
  "registerDefaultFactories mk reg = foldl (\<lambda>reg name. Register name (mk name) reg) reg default_names"

fun LoadPlugins :: "'p Registry \<Rightarrow> (string \<times> config) list \<Rightarrow> (error, 'p list) result" where
  "LoadPlugins reg [] = Inr []"
| "LoadPlugins reg ((name, c) # configs) =
     (if \<not> GetBool c ''enabled'' then LoadPlugins reg configs
      else
        (case Get reg name of
           Inl e \<Rightarrow> Inl (''failed to create plugin '' @ name @ '': '' @ e)
         | Inr p \<Rightarrow> (case LoadPlugins reg configs of Inl e \<Rightarrow> Inl e | Inr ps \<Rightarrow> Inr (p # ps))))"

definition InitializeAndStart :: "'p plugin_api \<Rightarrow> 'p list \<Rightarrow> (string \<times> config) list \<Rightarrow> error option \<times> 'p list" where
  "InitializeAndStart api plugins configs =
     (case run_hooks (\<lambda>p x. case pl_Init api p (case map_of configs (pl_Name api p) of Some c \<Rightarrow> c | None \<Rightarrow> []) of (e, p') \<Rightarrow>
             (map_option (\<lambda>e. ''failed to init plugin '' @ pl_Name api p @ '': '' @ e) e, x, p')) [0..<length plugins] () plugins of
        (Some e, _, ps) \<Rightarrow> (Some e, ps)
      | (None, _, ps) \<Rightarrow>
          (case run_hooks (\<lambda>p x. case pl_Start api p of (e, p') \<Rightarrow>
                  (map_option (\<lambda>e. ''failed to start plugin '' @ pl_Name api p @ '': '' @ e) e, x, p')) [0..<length ps] () ps of
             (e, _, ps') \<Rightarrow> (e, ps')))"

definition LoadAndInitializePlugins ::
  "'p plugin_api \<Rightarrow> 'p Registry \<Rightarrow> (string \<times> config) list \<Rightarrow> (error, 'p list) result" where
  "LoadAndInitializePlugins api reg configs =
     (case LoadPlugins reg configs of
        Inl e \<Rightarrow> Inl e
      | Inr ps \<Rightarrow> (case InitializeAndStart api ps configs of (Some e, _) \<Rightarrow> Inl e | (None, ps') \<Rightarrow> Inr ps'))"

definition StopAll :: "'p plugin_api \<Rightarrow> 'p list \<Rightarrow> error option \<times> 'p list" where
  "StopAll api plugins =
     (case run_hooks (\<lambda>p x. case pl_Stop api p of (e, p') \<Rightarrow>
             (map_option (\<lambda>e. ''failed to stop plugin '' @ pl_Name api p @ '': '' @ e) e, x, p')) (rev [0..<length plugins]) () plugins of
        (e, _, ps) \<Rightarrow> (e, ps))"



section \<open>What is loaded\<close>

text \<open>The names of the enabled plugins of a configuration.\<close>

definition enabled_names :: "(string \<times> config) list \<Rightarrow> string list" where
  "enabled_names configs = map fst (filter (\<lambda>(_, c). GetBool c ''enabled'') configs)"

lemma put_setting_keys: "fst ` set (put_setting name f v configs) \<subseteq> insert name (fst ` set configs)"
  by (auto simp: put_setting_def update_conv' dom_update split: option.split)

lemma put_setting_distinct: "distinct (map fst configs) \<Longrightarrow> distinct (map fst (put_setting name f v configs))"
  by (simp add: put_setting_def distinct_update split: option.split)

lemma buildPluginConfigs_keys: "fst ` set (buildPluginConfigs cfg targets) \<subseteq> set default_names"
proof -
  have step: "fst ` set configs \<subseteq> set default_names \<Longrightarrow> fst ` set (location_configs loc configs) \<subseteq> set default_names" for loc configs
    unfolding location_configs_def by (rule subset_trans [OF put_setting_keys] insert_subsetI | assumption | simp add: default_names_def)+
  have "fst ` set configs \<subseteq> set default_names \<Longrightarrow>
      fst ` set (foldl (\<lambda>configs loc. location_configs loc configs) configs locs) \<subseteq> set default_names" for locs configs
    by (induction locs arbitrary: configs) (simp_all add: step)
  moreover have "fst ` set (global_configs cfg targets) \<subseteq> set default_names"
    by (auto simp: global_configs_def default_names_def split: option.splits if_splits)
  ultimately show ?thesis by (simp add: buildPluginConfigs_def)
qed

lemma Register_all: "map_of (foldl (\<lambda>reg name. Register name (mk name) reg) reg names) n =
    (if n \<in> set names then Some (mk n) else map_of reg n)"
  by (induction names arbitrary: reg) (auto simp: Register_def update_conv')

lemma LoadPlugins_known:
  "\<forall>(n, c) \<in> set configs. map_of reg n = Some (mk n) \<Longrightarrow> LoadPlugins reg configs = Inr (map mk (enabled_names configs))"
  by (induction reg configs rule: LoadPlugins.induct) (auto simp: enabled_names_def Get_def)

text \<open>
  Every enabled plugin is loaded: whatever the configuration, its plugins are all
  registered, loading succeeds, and the plugins that are created are exactly the
  enabled ones, in the order of the configuration map.
\<close>

theorem enabled_plugins_loaded:
  "LoadPlugins (registerDefaultFactories mk reg) (buildPluginConfigs cfg targets) =
     Inr (map mk (enabled_names (buildPluginConfigs cfg targets)))"
  by (rule LoadPlugins_known)
    (use buildPluginConfigs_keys [of cfg targets] in \<open>auto simp: registerDefaultFactories_def Register_all\<close>)

section \<open>Settings of locations\<close>

text \<open>The last value that is set.\<close>

definition last_set :: "'a option list \<Rightarrow> 'a option" where
  "last_set vs = foldl (\<lambda>acc v. if v = None then acc else v) None vs"

lemma put_setting_lookup: "map_of (put_setting name f v configs) n =
    (if n = name then (case v of None \<Rightarrow> map_of configs n | Some x \<Rightarrow> Some (f x)) else map_of configs n)"
  by (auto simp: put_setting_def update_conv' split: option.split)

lemma setting_fold:
  assumes "\<And>loc configs. map_of (location_configs loc configs) name = (case g loc of None \<Rightarrow> map_of configs name | Some x \<Rightarrow> Some (f x))"
    and "map_of configs name = map_option f v"
  shows "map_of (foldl (\<lambda>configs loc. location_configs loc configs) configs locs) name =
    map_option f (foldl (\<lambda>acc v. if v = None then acc else v) v (map g locs))"
  using assms(2)
proof (induction locs arbitrary: configs v)
  case (Cons loc locs)
  have "map_of (location_configs loc configs) name = map_option f (if g loc = None then v else g loc)"
    using Cons.prems assms(1) by (auto split: option.split)
  from Cons.IH [OF this] show ?case by simp
qed simp

lemma location_configs_lookup:
  "map_of (location_configs loc configs) ''cors'' = (case loc_CORS loc of None \<Rightarrow> map_of configs ''cors'' | Some x \<Rightarrow> Some (cors_map x))"
  "map_of (location_configs loc configs) ''headers'' = (case loc_Headers loc of None \<Rightarrow> map_of configs ''headers'' | Some x \<Rightarrow> Some (headers_map x))"
  "map_of (location_configs loc configs) ''rewrite'' = (case loc_Rewrite loc of None \<Rightarrow> map_of configs ''rewrite'' | Some x \<Rightarrow> Some (rewrite_map x))"
  "map_of (location_configs loc configs) ''optimizer'' = (case loc_Optimize loc of None \<Rightarrow> map_of configs ''optimizer'' | Some x \<Rightarrow> Some (optimize_map x))"
  "map_of (location_configs loc configs) ''compression'' =
     (case loc_Compression loc of None \<Rightarrow> map_of configs ''compression'' | Some x \<Rightarrow> Some (compression_map x))"
  "map_of (location_configs loc configs) ''waf'' = map_of configs ''waf''"
  by (simp_all add: location_configs_def put_setting_lookup cong: option.case_cong)

lemma global_configs_lookup:
  "n \<in> {''cors'', ''headers'', ''rewrite'', ''optimizer'', ''compression''} \<Longrightarrow> map_of (global_configs cfg targets) n = None"
  "map_of (global_configs cfg targets) ''waf'' = Some (waf_config cfg targets)"
  by (auto simp: global_configs_def split: option.split)

text \<open>
  The last location decides for all: the settings of compression, optimisation,
  rewriting, CORS and headers that a plugin is given are those of the last
  location of any target that has some, for requests to every location.
\<close>

theorem last_location_decides:
  "map_of (buildPluginConfigs cfg targets) ''cors'' = map_option cors_map (last_set (map loc_CORS (concat (map tc_Locations targets)))) \<and>
   map_of (buildPluginConfigs cfg targets) ''headers'' = map_option headers_map (last_set (map loc_Headers (concat (map tc_Locations targets)))) \<and>
   map_of (buildPluginConfigs cfg targets) ''rewrite'' = map_option rewrite_map (last_set (map loc_Rewrite (concat (map tc_Locations targets)))) \<and>
   map_of (buildPluginConfigs cfg targets) ''optimizer'' = map_option optimize_map (last_set (map loc_Optimize (concat (map tc_Locations targets)))) \<and>
   map_of (buildPluginConfigs cfg targets) ''compression'' =
     map_option compression_map (last_set (map loc_Compression (concat (map tc_Locations targets))))"
  unfolding buildPluginConfigs_def last_set_def
  by (intro conjI setting_fold location_configs_lookup) (simp_all add: global_configs_lookup(1))




end
