(* ===== verification/WafProps.thy ===== *)
theory WafProps
  imports Waf PluginConfig
begin

text \<open>
  What the firewall decides. The reference is the policy as it is written: a
  condition holds of the value of its own parameter, a rule holds if all
  conditions of one of its groups do, and the first enabled rule that holds and
  allows, denies or limits decides. The main result is that the compiled
  indexes and the automaton decide the same for every policy in which the
  parameter names agree and no two conditions compare one parameter with the
  same value. The others show what happens outside, and with the request body.
\<close>

section \<open>The policy as written\<close>

definition op_holds :: "waf_env \<Rightarrow> operator \<Rightarrow> string \<Rightarrow> string \<Rightarrow> bool \<Rightarrow> bool" where
  "op_holds env op v value present =
     (case op of
        OpContains \<Rightarrow> present \<and> v \<noteq> [] \<and> Contains (ToLower value) (ToLower v)
      | OpEquals \<Rightarrow> present \<and> value = v
      | OpStartsWith \<Rightarrow> present \<and> HasPrefix value v
      | OpEndsWith \<Rightarrow> present \<and> HasSuffix value v
      | OpMatches \<Rightarrow> present \<and> (case we_re env v of None \<Rightarrow> False | Some m \<Rightarrow> m value)
      | OpIn \<Rightarrow> present \<and> value \<in> set (in_values v)
      | OpNotIn \<Rightarrow> present \<and> value \<notin> set (in_values v)
      | OpGt \<Rightarrow> present \<and> (case (we_float env (TrimSpace value), we_float env (TrimSpace v)) of (Some x, Some t) \<Rightarrow> x > t | _ \<Rightarrow> False)
      | OpLt \<Rightarrow> present \<and> (case (we_float env (TrimSpace value), we_float env (TrimSpace v)) of (Some x, Some t) \<Rightarrow> x < t | _ \<Rightarrow> False)
      | OpExists \<Rightarrow> present
      | OpNotExists \<Rightarrow> \<not> present)"

definition ip_holds :: "string \<Rightarrow> string \<Rightarrow> string \<Rightarrow> bool \<Rightarrow> bool" where
  "ip_holds op v value present \<longleftrightarrow> present \<and> parseIPNets v \<noteq> [] \<and>
     (case ParseIP (TrimSpace value) of
        None \<Rightarrow> False
      | Some a \<Rightarrow> list_ex (\<lambda>n. net_Contains n a) (parseIPNets v) \<noteq> (ToLower op = ''not_in'' \<or> ToLower op = ''not_in_ip''))"

definition ip_cond :: "WAFCondition \<Rightarrow> bool" where
  "ip_cond c \<longleftrightarrow> wc_Param c = ''ip'' \<and> isIPOperator (wc_Operator c)"

definition cond_holds :: "waf_env \<Rightarrow> WAFCondition \<Rightarrow> string \<Rightarrow> bool \<Rightarrow> bool" where
  "cond_holds env c value present =
     (if ip_cond c then ip_holds (wc_Operator c) (wc_Value c) value present
      else (case operator_of (wc_Operator c) of None \<Rightarrow> False | Some op \<Rightarrow> op_holds env op (wc_Value c) value present))"

text \<open>The settings a rule hands on, and the decision of a list of rules.\<close>

definition policy_action :: "WAFRule \<Rightarrow> string" where
  "policy_action r =
     (let t = act_Type (wr_Action r);
          a = ToLower (map (\<lambda>c. if c = CHR ''-'' then CHR ''_'' else c) (if t = '''' then ''deny'' else t))
      in if a = ''rate_limit'' then ''ratelimit'' else a)"

definition settings :: "WAFRule \<Rightarrow> string \<times> string \<times> int \<times> string \<times> real \<times> int" where
  "settings r = (wr_ID r, policy_action r, act_Code (wr_Action r), act_Message (wr_Action r), act_RPS (wr_Action r), act_Burst (wr_Action r))"

definition rule_holds :: "(WAFCondition \<Rightarrow> bool) \<Rightarrow> WAFRule \<Rightarrow> bool" where
  "rule_holds P r \<longleftrightarrow> (\<exists>g \<in> set (wr_Conditions r). g \<noteq> [] \<and> (\<forall>c \<in> set g. P c))"

fun policy_decision :: "(WAFCondition \<Rightarrow> bool) \<Rightarrow> WAFRule list \<Rightarrow> ruleSetAction \<times> (string \<times> string \<times> int \<times> string \<times> real \<times> int) option" where
  "policy_decision P [] = (RuleSetAllow, None)"
| "policy_decision P (r # rules) =
     (if wr_Enabled r = Some False \<or> \<not> rule_holds P r then policy_decision P rules
      else if policy_action r = ''allow'' then (RuleSetAllow, Some (settings r))
      else if policy_action r = ''deny'' \<or> policy_action r = ''ratelimit'' then (RuleSetBlock, Some (settings r))
      else policy_decision P rules)"

definition policy_conds :: "WAFRule list \<Rightarrow> WAFCondition list" where
  "policy_conds rules = concat (concat (map wr_Conditions rules))"

text \<open>
  A policy the indexes can represent: every condition names a parameter, the
  conditions of a parameter agree on its name, and no two of them compare it
  with the same value.
\<close>

definition by_equality :: "WAFCondition \<Rightarrow> bool" where
  "by_equality c \<longleftrightarrow> operator_of (wc_Operator c) = Some OpEquals \<and> \<not> ip_cond c"

definition wf_conds :: "WAFCondition list \<Rightarrow> bool" where
  "wf_conds cs \<longleftrightarrow> (\<forall>c \<in> set cs. wc_Param c \<noteq> '''') \<and>
     (\<forall>c \<in> set cs. \<forall>d \<in> set cs. wc_Param c = wc_Param d \<longrightarrow> wc_ParamName c = wc_ParamName d) \<and>
     distinct (map (\<lambda>c. (wc_Param c, wc_Value c)) (filter by_equality cs))"

lemma wf_conds_prefix: "wf_conds (cs @ ds) \<Longrightarrow> wf_conds cs"
  by (auto simp: wf_conds_def)

lemma wf_conds_agree: "wf_conds cs \<Longrightarrow> c \<in> set cs \<Longrightarrow> d \<in> set cs \<Longrightarrow> wc_Param d = wc_Param c \<Longrightarrow> wc_ParamName c = wc_ParamName d"
  unfolding wf_conds_def by metis

section \<open>Compiling a condition\<close>

text \<open>The conditions an index reports for a value, before the automaton is built.\<close>

definition raw_hits :: "waf_env \<Rightarrow> paramIndex \<Rightarrow> string \<Rightarrow> bool \<Rightarrow> nat list" where
  "raw_hits env idx value present =
     (if present
      then pi_exists idx @ map snd (filter (\<lambda>(p, _). p \<noteq> '''' \<and> Contains (ToLower value) p) (pi_contains idx)) @ value_hits env idx value
      else pi_notExists idx)"

lemma raw_hits_name [simp]: "raw_hits env (idx\<lparr>pi_name := n\<rparr>) value present = raw_hits env idx value present"
  by (simp add: raw_hits_def value_hits_def split: option.split)

lemma raw_hits_new [simp]: "raw_hits env new_index value present = []"
  by (simp add: raw_hits_def value_hits_def new_index_def split: option.split)

lemma ToLower_empty [simp]: "ToLower s = [] \<longleftrightarrow> s = []"
  by (simp add: ToLower_def)

lemma operator_in: "operator_of (if op = ''in'' then ''In'' else op) = operator_of op"
    "isIPOperator (if op = ''in'' then ''In'' else op) = isIPOperator op"
    "ToLower (if op = ''in'' then ''In'' else op) = ToLower op"
proof -
  have "ToLower ''In'' = ToLower ''in''" by code_simp
  then show eq: "ToLower (if op = ''in'' then ''In'' else op) = ToLower op" by simp
  show "operator_of (if op = ''in'' then ''In'' else op) = operator_of op" "isIPOperator (if op = ''in'' then ''In'' else op) = isIPOperator op"
    unfolding operator_of_def isIPOperator_def eq by (rule refl)+
qed

lemma in_map_snd: "c \<in> set (map snd (filter (\<lambda>(p, _). P p) xs)) \<longleftrightarrow> (\<exists>p. (p, c) \<in> set xs \<and> P p)"
  by force

lemma in_map_third: "c \<in> set (map (\<lambda>(_, _, c). c) (filter (\<lambda>(a, b, _). P a b) xs)) \<longleftrightarrow> (\<exists>a b. (a, b, c) \<in> set xs \<and> P a b)"
  by force

lemma in_value_hits:
  "c \<in> set (value_hits env idx value) \<longleftrightarrow>
     map_of (pi_equals idx) value = Some c \<or>
     (\<exists>p. (p, c) \<in> set (pi_prefixes idx) \<and> HasPrefix value p) \<or>
     (\<exists>p. (p, c) \<in> set (pi_suffixes idx) \<and> HasSuffix value p) \<or>
     (\<exists>m. (m, c) \<in> set (pi_regexes idx) \<and> m value) \<or>
     (\<exists>vals negate. (vals, negate, c) \<in> set (pi_ins idx) \<and> (value \<in> set vals) \<noteq> negate) \<or>
     (\<exists>a nets negate. ParseIP (TrimSpace value) = Some a \<and> (nets, negate, c) \<in> set (pi_ipNets idx) \<and>
        list_ex (\<lambda>n. net_Contains n a) nets \<noteq> negate) \<or>
     (\<exists>num th. we_float env (TrimSpace value) = Some num \<and>
        ((th, c) \<in> set (pi_numGt idx) \<and> num > th \<or> (th, c) \<in> set (pi_numLt idx) \<and> num < th))"
  unfolding value_hits_def set_append Un_iff in_map_snd in_map_third
  by (cases "map_of (pi_equals idx) value"; cases "ParseIP (TrimSpace value)"; cases "we_float env (TrimSpace value)")
    (simp_all only: option.case in_map_snd in_map_third set_append Un_iff, auto)

lemma in_raw_hits:
  "c \<in> set (raw_hits env idx value present) \<longleftrightarrow>
     (if present
      then c \<in> set (pi_exists idx) \<or> (\<exists>p. (p, c) \<in> set (pi_contains idx) \<and> p \<noteq> '''' \<and> Contains (ToLower value) p) \<or>
        c \<in> set (value_hits env idx value)
      else c \<in> set (pi_notExists idx))"
  by (force simp: raw_hits_def)

lemma compile_hits:
  assumes "operator_of op0 = Some op" "op = OpEquals \<Longrightarrow> v \<notin> fst ` set (pi_equals idx)"
  shows "set (raw_hits env (compileCondition env idx op0 v n) value present) =
    set (raw_hits env idx value present) \<union> (if op_holds env op v value present then {n} else {})"
proof -
  have eq: "map_of (pi_equals idx) v = None" if "op = OpEquals" using assms(2) that by (simp add: map_of_eq_None_iff)
  show ?thesis
    unfolding set_eq_iff Un_iff in_raw_hits in_value_hits op_holds_def compileCondition_def assms(1)
    by (cases op; cases present; cases "we_re env v"; cases "we_float env (TrimSpace v)"; cases "we_float env (TrimSpace value)")
      (simp_all add: eq update_conv' ex_disj_distrib conj_disj_distribR, auto)
qed

lemma addIPCond_hits:
  "set (raw_hits env (addIPCond idx v (ToLower op = ''not_in'' \<or> ToLower op = ''not_in_ip'') n) value present) =
     set (raw_hits env idx value present) \<union> (if ip_holds op v value present then {n} else {})"
  unfolding set_eq_iff Un_iff in_raw_hits in_value_hits ip_holds_def addIPCond_def Let_def
  by (cases present; cases "parseIPNets v = []"; cases "ParseIP (TrimSpace value)") (simp_all add: ex_disj_distrib conj_disj_distribR, auto)

text \<open>The index of a condition after the condition was added, with its number.\<close>

definition index_with :: "waf_env \<Rightarrow> WAFCondition \<Rightarrow> nat \<Rightarrow> paramIndex \<Rightarrow> paramIndex" where
  "index_with env c n idx =
     (let idx1 = (if wc_ParamName c \<noteq> [] then idx\<lparr>pi_name := wc_ParamName c\<rparr> else idx)
      in if ip_cond c then addIPCond idx1 (wc_Value c) (ToLower (wc_Operator c) = ''not_in'' \<or> ToLower (wc_Operator c) = ''not_in_ip'') n
         else compileCondition env idx1 (wc_Operator c) (wc_Value c) n)"

lemma condition_map_fields:
  "GetString (waf_condition_map c) ''param'' = wc_Param c" "GetString (waf_condition_map c) ''operator'' = wc_Operator c"
  "GetString (waf_condition_map c) ''value'' = wc_Value c" "GetString (waf_condition_map c) ''param_name'' = wc_ParamName c"
  by (simp_all add: GetString_def waf_condition_map_def)

lemma compileCondition_in: "compileCondition env idx (if op = ''in'' then ''In'' else op) v n = compileCondition env idx op v n"
  by (simp only: compileCondition_def operator_in)

lemma add_condition_typed:
  assumes "wc_Param c \<noteq> []"
  shows "add_condition env (waf_condition_map c) rs = (Some (rs_condCount rs),
    rs\<lparr>rs_params := AList.update (wc_Param c)
         (index_with env c (rs_condCount rs) (case map_of (rs_params rs) (wc_Param c) of Some idx \<Rightarrow> idx | None \<Rightarrow> new_index)) (rs_params rs),
       rs_condCount := Suc (rs_condCount rs)\<rparr>)"
  unfolding add_condition_def condition_map_fields Let_def operator_in compileCondition_in index_with_def ip_cond_def
  using assms by simp

lemma index_with_hits:
  assumes "by_equality c \<Longrightarrow> wc_Value c \<notin> fst ` set (pi_equals idx)"
  shows "set (raw_hits env (index_with env c n idx) value present) =
    set (raw_hits env idx value present) \<union> (if cond_holds env c value present then {n} else {})"
proof (cases "ip_cond c")
  case True
  then show ?thesis by (simp add: index_with_def Let_def addIPCond_hits cond_holds_def)
next
  case False
  show ?thesis
  proof (cases "operator_of (wc_Operator c)")
    case None
    then show ?thesis using False by (simp add: index_with_def cond_holds_def compileCondition_def Let_def)
  next
    case (Some op)
    have "op = OpEquals \<Longrightarrow> wc_Value c \<notin> fst ` set (pi_equals (if wc_ParamName c \<noteq> [] then idx\<lparr>pi_name := wc_ParamName c\<rparr> else idx))"
      using assms Some False by (simp add: by_equality_def)
    then show ?thesis
      using False Some compile_hits [OF Some, of "wc_Value c" "if wc_ParamName c \<noteq> [] then idx\<lparr>pi_name := wc_ParamName c\<rparr> else idx" env n "value" present]
      by (simp add: index_with_def cond_holds_def Let_def)
  qed
qed

lemma index_with_name: "pi_name (index_with env c n idx) = (if wc_ParamName c \<noteq> [] then wc_ParamName c else pi_name idx)"
  by (auto simp: index_with_def Let_def addIPCond_def compileCondition_def split: option.split operator.split)

lemma index_with_aho: "pi_aho (index_with env c n idx) = pi_aho idx"
  by (auto simp: index_with_def Let_def addIPCond_def compileCondition_def split: option.split operator.split)

lemma index_with_equals: "fst ` set (pi_equals (index_with env c n idx)) =
    (if by_equality c then insert (wc_Value c) (fst ` set (pi_equals idx)) else fst ` set (pi_equals idx))"
  by (auto simp: index_with_def Let_def addIPCond_def compileCondition_def by_equality_def dom_update split: option.splits operator.split)

section \<open>Compiling a policy\<close>

text \<open>An index represents the conditions of its parameter, and a rule set all of them.\<close>

definition index_ok :: "waf_env \<Rightarrow> WAFCondition list \<Rightarrow> string \<Rightarrow> paramIndex \<Rightarrow> bool" where
  "index_ok env cs p idx \<longleftrightarrow> pi_aho idx = None \<and>
     (\<forall>v present. set (raw_hits env idx v present) = {i. i < length cs \<and> wc_Param (cs ! i) = p \<and> cond_holds env (cs ! i) v present}) \<and>
     fst ` set (pi_equals idx) = wc_Value ` {c \<in> set cs. wc_Param c = p \<and> by_equality c} \<and>
     (\<forall>c \<in> set cs. wc_Param c = p \<longrightarrow> pi_name idx = wc_ParamName c)"

definition rules_ok :: "waf_env \<Rightarrow> WAFCondition list \<Rightarrow> ruleSet \<Rightarrow> bool" where
  "rules_ok env cs rs \<longleftrightarrow> rs_condCount rs = length cs \<and> distinct (map fst (rs_params rs)) \<and> fst ` set (rs_params rs) = wc_Param ` set cs \<and>
     (\<forall>p idx. map_of (rs_params rs) p = Some idx \<longrightarrow> index_ok env cs p idx)"

lemma index_ok_other:
  assumes "index_ok env cs p idx" "p \<noteq> wc_Param c"
  shows "index_ok env (cs @ [c]) p idx"
proof -
  have "{i. i < length (cs @ [c]) \<and> wc_Param ((cs @ [c]) ! i) = p \<and> cond_holds env ((cs @ [c]) ! i) v present} =
      {i. i < length cs \<and> wc_Param (cs ! i) = p \<and> cond_holds env (cs ! i) v present}" for v present
    using assms(2) by (auto simp: nth_append less_Suc_eq)
  then show ?thesis using assms unfolding index_ok_def by auto
qed

lemma index_ok_same:
  assumes "index_ok env cs (wc_Param c) idx" "wf_conds (cs @ [c])" "(\<exists>d \<in> set cs. wc_Param d = wc_Param c) \<or> pi_name idx = []"
  shows "index_ok env (cs @ [c]) (wc_Param c) (index_with env c (length cs) idx)"
proof -
  have idx: "pi_aho idx = None" "fst ` set (pi_equals idx) = wc_Value ` {d \<in> set cs. wc_Param d = wc_Param c \<and> by_equality d}"
      "\<forall>d \<in> set cs. wc_Param d = wc_Param c \<longrightarrow> pi_name idx = wc_ParamName d"
    and raw: "set (raw_hits env idx v present) =
      {i. i < length cs \<and> wc_Param (cs ! i) = wc_Param c \<and> cond_holds env (cs ! i) v present}" for v present
    using assms(1) by (simp_all add: index_ok_def)
  have fresh: "wc_Value c \<notin> fst ` set (pi_equals idx)" if "by_equality c"
  proof -
    have "distinct (map (\<lambda>d. (wc_Param d, wc_Value d)) (filter by_equality (cs @ [c])))" using assms(2) unfolding wf_conds_def by blast
    then have "(wc_Param c, wc_Value c) \<notin> (\<lambda>d. (wc_Param d, wc_Value d)) ` {d \<in> set cs. by_equality d}" using that by simp
    then show ?thesis unfolding idx(2) image_iff by (metis (mono_tags, lifting) mem_Collect_eq)
  qed
  have "{i. i < length (cs @ [c]) \<and> wc_Param ((cs @ [c]) ! i) = wc_Param c \<and> cond_holds env ((cs @ [c]) ! i) v present} =
      {i. i < length cs \<and> wc_Param (cs ! i) = wc_Param c \<and> cond_holds env (cs ! i) v present} \<union>
      (if cond_holds env c v present then {length cs} else {})" for v present
    by (auto simp: nth_append less_Suc_eq)
  then have hits: "set (raw_hits env (index_with env c (length cs) idx) v present) =
      {i. i < length (cs @ [c]) \<and> wc_Param ((cs @ [c]) ! i) = wc_Param c \<and> cond_holds env ((cs @ [c]) ! i) v present}" for v present
    using index_with_hits [of c idx env "length cs" v present, OF fresh] raw by simp
  have name: "pi_name (index_with env c (length cs) idx) = wc_ParamName c"
  proof (cases "\<exists>d \<in> set cs. wc_Param d = wc_Param c")
    case True
    then obtain d where d: "d \<in> set cs" "wc_Param d = wc_Param c" by blast
    have "pi_name idx = wc_ParamName d" using idx(3) d by blast
    also have "\<dots> = wc_ParamName c" by (rule wf_conds_agree [OF assms(2)]) (use d in simp_all)
    finally show ?thesis by (simp add: index_with_name)
  next
    case False
    then show ?thesis using assms(3) by (simp add: index_with_name)
  qed
  have agree: "\<forall>d \<in> set (cs @ [c]). wc_Param d = wc_Param c \<longrightarrow> wc_ParamName c = wc_ParamName d"
    by (intro ballI impI wf_conds_agree [OF assms(2)]) simp_all
  have "fst ` set (pi_equals (index_with env c (length cs) idx)) = wc_Value ` {d \<in> set (cs @ [c]). wc_Param d = wc_Param c \<and> by_equality d}"
    unfolding index_with_equals idx(2) by auto
  then show ?thesis unfolding index_ok_def index_with_aho name using hits agree idx(1) by blast
qed

lemma add_condition_ok:
  assumes "rules_ok env cs rs" "wf_conds (cs @ [c])"
  shows "\<exists>rs'. add_condition env (waf_condition_map c) rs = (Some (length cs), rs') \<and> rules_ok env (cs @ [c]) rs' \<and>
    rs_rules rs' = rs_rules rs \<and> rs_maxBodySize rs' = rs_maxBodySize rs"
proof -
  let ?p = "wc_Param c" and ?idx = "case map_of (rs_params rs) (wc_Param c) of Some idx \<Rightarrow> idx | None \<Rightarrow> new_index"
  have count: "rs_condCount rs = length cs" using assms(1) by (simp add: rules_ok_def)
  have "?p \<noteq> []" using assms(2) by (simp add: wf_conds_def)
  note typed = add_condition_typed [OF this, of env rs]
  have "index_ok env cs ?p ?idx \<and> ((\<exists>d \<in> set cs. wc_Param d = ?p) \<or> pi_name ?idx = [])"
  proof (cases "map_of (rs_params rs) ?p")
    case None
    then have "?p \<notin> wc_Param ` set cs" using assms(1) by (auto simp: rules_ok_def map_of_eq_None_iff)
    then show ?thesis using None by (auto simp: index_ok_def new_index_def raw_hits_new [unfolded new_index_def] intro: nth_mem rev_image_eqI)
  next
    case (Some idx)
    then have "?p \<in> fst ` set (rs_params rs)" by (metis domI dom_map_of_conv_image_fst)
    then show ?thesis using Some assms(1) by (auto simp: rules_ok_def)
  qed
  then have same: "index_ok env (cs @ [c]) ?p (index_with env c (length cs) ?idx)" using index_ok_same assms(2) by blast
  show ?thesis
    unfolding typed count
    using assms(1) same index_ok_other [of env cs _ _ c]
    by (auto simp: rules_ok_def update_conv' distinct_update dom_update)
qed

lemma add_group_ok:
  assumes "rules_ok env cs rs" "wf_conds (cs @ g)"
  shows "\<exists>rs'. add_group env (map (\<lambda>c. AMap (waf_condition_map c)) g) rs = ([length cs..<length cs + length g], rs') \<and>
    rules_ok env (cs @ g) rs' \<and> rs_rules rs' = rs_rules rs \<and> rs_maxBodySize rs' = rs_maxBodySize rs"
  using assms
proof (induction g arbitrary: cs rs)
  case (Cons c g)
  have "wf_conds (cs @ [c])" using Cons.prems(2) wf_conds_prefix [of "cs @ [c]" g] by simp
  then obtain rs1 where rs1: "add_condition env (waf_condition_map c) rs = (Some (length cs), rs1)" "rules_ok env (cs @ [c]) rs1"
      "rs_rules rs1 = rs_rules rs" "rs_maxBodySize rs1 = rs_maxBodySize rs"
    using add_condition_ok [OF Cons.prems(1)] by blast
  obtain rs2 where rs2: "add_group env (map (\<lambda>c. AMap (waf_condition_map c)) g) rs1 = ([length (cs @ [c])..<length (cs @ [c]) + length g], rs2)"
      "rules_ok env ((cs @ [c]) @ g) rs2" "rs_rules rs2 = rs_rules rs1" "rs_maxBodySize rs2 = rs_maxBodySize rs1"
    using Cons.IH [OF rs1(2)] Cons.prems(2) by auto
  have "[length cs..<length cs + length (c # g)] = length cs # [length (cs @ [c])..<length (cs @ [c]) + length g]"
    by (simp add: upt_conv_Cons del: upt_Suc)
  then show ?case using rs1 rs2 by (simp del: upt_Suc)
qed simp

lemma map_nth_segment: "map ((!) (cs @ g @ ds)) [length cs..<length cs + length g] = g"
  by (rule nth_equalityI) (simp_all add: nth_append)

text \<open>The groups of a rule point to its conditions among all of them.\<close>

definition points_to :: "WAFCondition list \<Rightarrow> nat list list \<Rightarrow> WAFCondition list list \<Rightarrow> bool" where
  "points_to cs gs gss \<longleftrightarrow> map (map ((!) cs)) gs = filter (\<lambda>g. g \<noteq> []) gss \<and> (\<forall>g \<in> set gs. \<forall>i \<in> set g. i < length cs)"

lemma add_groups_ok:
  assumes "rules_ok env cs rs" "wf_conds (cs @ concat gss)"
  shows "\<exists>gs rs'. add_groups env (map (\<lambda>g. AList (map (\<lambda>c. AMap (waf_condition_map c)) g)) gss) rs = (gs, rs') \<and>
    rules_ok env (cs @ concat gss) rs' \<and> rs_rules rs' = rs_rules rs \<and> rs_maxBodySize rs' = rs_maxBodySize rs \<and>
    (\<forall>ds. points_to (cs @ concat gss @ ds) gs gss)"
  using assms
proof (induction gss arbitrary: cs rs)
  case Nil
  then show ?case by (simp add: points_to_def)
next
  case (Cons g gss)
  have "wf_conds (cs @ g)" using Cons.prems(2) wf_conds_prefix [of "cs @ g" "concat gss"] by simp
  then obtain rs1 where rs1: "add_group env (map (\<lambda>c. AMap (waf_condition_map c)) g) rs = ([length cs..<length cs + length g], rs1)"
      "rules_ok env (cs @ g) rs1" "rs_rules rs1 = rs_rules rs" "rs_maxBodySize rs1 = rs_maxBodySize rs"
    using add_group_ok [OF Cons.prems(1)] by blast
  obtain gs rs2 where rs2: "add_groups env (map (\<lambda>g. AList (map (\<lambda>c. AMap (waf_condition_map c)) g)) gss) rs1 = (gs, rs2)"
      "rules_ok env ((cs @ g) @ concat gss) rs2" "rs_rules rs2 = rs_rules rs1" "rs_maxBodySize rs2 = rs_maxBodySize rs1"
      "\<forall>ds. points_to ((cs @ g) @ concat gss @ ds) gs gss"
    using Cons.IH [OF rs1(2)] Cons.prems(2) by auto
  have "points_to (cs @ concat (g # gss) @ ds) (if g = [] then gs else [length cs..<length cs + length g] # gs) (g # gss)" for ds
    using rs2(5) map_nth_segment [of cs g "concat gss @ ds"] by (auto simp: points_to_def)
  then show ?case using rs1 rs2 by (cases "g = []") simp_all
qed

text \<open>A compiled rule and the rule it was made from.\<close>

definition compiled :: "WAFCondition list \<Rightarrow> compiledRule \<Rightarrow> WAFRule \<Rightarrow> bool" where
  "compiled cs ru r \<longleftrightarrow> ru = (rule_header (waf_rule_map r))\<lparr>cr_groups := cr_groups ru\<rparr> \<and> points_to cs (cr_groups ru) (wr_Conditions r)"

lemma rule_map_conditions:
  "map_of (waf_rule_map r) ''conditions'' = Some (AList (map (\<lambda>g. AList (map (\<lambda>c. AMap (waf_condition_map c)) g)) (wr_Conditions r)))"
  by (auto simp: waf_rule_map_def Let_def split: option.split)

lemma add_rules_ok:
  assumes "rules_ok env cs rs" "wf_conds (cs @ policy_conds rules)"
  shows "\<exists>rs' new. add_rules env (map (\<lambda>r. AMap (waf_rule_map r)) rules) rs = rs' \<and> rules_ok env (cs @ policy_conds rules) rs' \<and>
    rs_rules rs' = rs_rules rs @ new \<and> rs_maxBodySize rs' = rs_maxBodySize rs \<and>
    (\<forall>ds. list_all2 (compiled (cs @ policy_conds rules @ ds)) new (filter (\<lambda>r. filter (\<lambda>g. g \<noteq> []) (wr_Conditions r) \<noteq> []) rules))"
  using assms
proof (induction rules arbitrary: cs rs)
  case Nil
  then show ?case by (simp add: policy_conds_def)
next
  case (Cons r rules)
  have split: "policy_conds (r # rules) = concat (wr_Conditions r) @ policy_conds rules" by (simp add: policy_conds_def)
  have "wf_conds (cs @ concat (wr_Conditions r))"
    using Cons.prems(2) wf_conds_prefix [of "cs @ concat (wr_Conditions r)" "policy_conds rules"] by (simp add: split)
  then obtain gs rs1 where rs1:
      "add_groups env (map (\<lambda>g. AList (map (\<lambda>c. AMap (waf_condition_map c)) g)) (wr_Conditions r)) rs = (gs, rs1)"
      "rules_ok env (cs @ concat (wr_Conditions r)) rs1" "rs_rules rs1 = rs_rules rs" "rs_maxBodySize rs1 = rs_maxBodySize rs"
      "\<forall>ds. points_to (cs @ concat (wr_Conditions r) @ ds) gs (wr_Conditions r)"
    using add_groups_ok [OF Cons.prems(1)] by blast
  have nil: "gs = [] \<longleftrightarrow> filter (\<lambda>g. g \<noteq> []) (wr_Conditions r) = []"
    using rs1(5) unfolding points_to_def by (metis list.map_disc_iff)
  let ?new = "(rule_header (waf_rule_map r))\<lparr>cr_groups := gs\<rparr>" and ?rs = "if gs = [] then rs1 else rs1\<lparr>rs_rules := rs_rules rs1 @ [(rule_header (waf_rule_map r))\<lparr>cr_groups := gs\<rparr>]\<rparr>"
  have ok: "rules_ok env (cs @ concat (wr_Conditions r)) ?rs" using rs1(2) by (simp add: rules_ok_def)
  obtain new where new: "rules_ok env ((cs @ concat (wr_Conditions r)) @ policy_conds rules) (add_rules env (map (\<lambda>r. AMap (waf_rule_map r)) rules) ?rs)"
      "rs_rules (add_rules env (map (\<lambda>r. AMap (waf_rule_map r)) rules) ?rs) = rs_rules ?rs @ new"
      "rs_maxBodySize (add_rules env (map (\<lambda>r. AMap (waf_rule_map r)) rules) ?rs) = rs_maxBodySize ?rs"
      "\<forall>ds. list_all2 (compiled ((cs @ concat (wr_Conditions r)) @ policy_conds rules @ ds)) new
        (filter (\<lambda>r. filter (\<lambda>g. g \<noteq> []) (wr_Conditions r) \<noteq> []) rules)"
    using Cons.IH [OF ok] Cons.prems(2) by (auto simp: split)
  have step: "add_rules env (map (\<lambda>r. AMap (waf_rule_map r)) (r # rules)) rs = add_rules env (map (\<lambda>r. AMap (waf_rule_map r)) rules) ?rs"
    by (simp add: rule_map_conditions rs1(1))
  have head: "compiled (cs @ concat (wr_Conditions r) @ policy_conds rules @ ds) ?new r" for ds
    using rs1(5) by (simp add: compiled_def)
  show ?case
    unfolding step split using new rs1(3,4) head nil
    by (intro exI [of _ "add_rules env (map (\<lambda>r. AMap (waf_rule_map r)) rules) ?rs"] exI [of _ "if gs = [] then new else ?new # new"]) simp
qed

section \<open>The automaton\<close>

text \<open>
  What the automaton promises: it reports exactly the patterns that occur in the
  text.
\<close>

definition find_laws :: "waf_env \<Rightarrow> bool" where
  "find_laws env \<longleftrightarrow> (\<forall>pats text. [] \<notin> set pats \<longrightarrow> set (we_find env pats text) = {i. i < length pats \<and> Contains text (pats ! i)})"

definition grouped :: "(string \<times> nat list) list \<Rightarrow> string \<Rightarrow> nat \<Rightarrow> bool" where
  "grouped acc p c \<longleftrightarrow> (\<exists>cs. map_of acc p = Some cs \<and> c \<in> set cs)"

lemma grouped_add: "grouped (add_pattern acc x) p c \<longleftrightarrow> x = (p, c) \<or> grouped acc p c"
  by (cases x) (auto simp: grouped_def update_conv' split: option.splits)

lemma add_pattern_distinct: "distinct (map fst acc) \<Longrightarrow> distinct (map fst (add_pattern acc x))"
  by (cases x) (simp add: distinct_update)

lemma group_patterns_fold:
  "grouped (foldl add_pattern acc pcs) p c \<longleftrightarrow> (p, c) \<in> set pcs \<or> grouped acc p c"
  "distinct (map fst acc) \<Longrightarrow> distinct (map fst (foldl add_pattern acc pcs))"
  by (induction pcs arbitrary: acc) (auto simp: grouped_add add_pattern_distinct)

lemma group_patterns_spec:
  "distinct (map fst (group_patterns pcs))"
  "(\<exists>cs. (p, cs) \<in> set (group_patterns pcs) \<and> c \<in> set cs) \<longleftrightarrow> (p, c) \<in> set pcs"
proof -
  show d: "distinct (map fst (group_patterns pcs))" by (simp add: group_patterns_def group_patterns_fold(2))
  have "grouped (group_patterns pcs) p c \<longleftrightarrow> (p, c) \<in> set pcs"
    unfolding group_patterns_def group_patterns_fold(1) by (simp add: grouped_def)
  then show "(\<exists>cs. (p, cs) \<in> set (group_patterns pcs) \<and> c \<in> set cs) \<longleftrightarrow> (p, c) \<in> set pcs"
    using d by (simp add: grouped_def)
qed

lemma match_conds_spec:
  "\<forall>i \<in> set is. i < length condMap \<Longrightarrow>
   \<exists>cs. match_conds condMap seen is = Ret cs \<and> set cs = (\<Union>i \<in> set is - set seen. set (condMap ! i))"
proof (induction "is" arbitrary: seen)
  case (Cons i "is")
  show ?case
  proof (cases "i \<in> set seen")
    case True
    then have "set (i # is) - set seen = set is - set seen" by auto
    then show ?thesis using Cons True by simp
  next
    case False
    then have "set (i # is) - set seen = insert i (set is - set (i # seen))" by auto
    moreover obtain cs where "match_conds condMap (i # seen) is = Ret cs" "set cs = (\<Union>i \<in> set is - set (i # seen). set (condMap ! i))"
      using Cons.IH [of "i # seen"] Cons.prems by auto
    ultimately show ?thesis using Cons.prems False by simp
  qed
qed simp

lemma ex_nth_iff: "(\<exists>i < length xs. P (xs ! i)) \<longleftrightarrow> (\<exists>x \<in> set xs. P x)"
  by (metis in_set_conv_nth)

lemma am_match_spec:
  assumes "find_laws env"
  shows "\<exists>cs. am_match env (buildAhoMatcher (group_patterns pcs)) text = Ret cs \<and>
    set cs = {c. \<exists>p. (p, c) \<in> set pcs \<and> p \<noteq> [] \<and> Contains text p}"
proof -
  let ?ne = "filter (\<lambda>(p, _). p \<noteq> []) (group_patterns pcs)"
  have in_ne: "(\<exists>cs. (p, cs) \<in> set ?ne \<and> c \<in> set cs) \<longleftrightarrow> (p, c) \<in> set pcs \<and> p \<noteq> []" for p c
    using group_patterns_spec(2) [of p pcs c] by auto
  show ?thesis
  proof (cases "?ne = [] \<or> text = []")
    case True
    have "\<not> Contains [] p" if "p \<noteq> []" for p using that by (simp add: Contains_def)
    moreover have "\<not> ((p, c) \<in> set pcs \<and> p \<noteq> [])" if "?ne = []" for p c unfolding in_ne [symmetric] that by simp
    ultimately have "{c. \<exists>p. (p, c) \<in> set pcs \<and> p \<noteq> [] \<and> Contains text p} = {}" using True by blast
    moreover have "am_match env (buildAhoMatcher (group_patterns pcs)) text = Ret []"
      using True unfolding am_match_def buildAhoMatcher_def Let_def by (cases "?ne = []") simp_all
    ultimately show ?thesis by simp
  next
    case False
    let ?is = "we_find env (map fst ?ne) text"
    have "[] \<notin> set (map fst ?ne)" by auto
    then have "is": "set ?is = {i. i < length ?ne \<and> Contains text (fst (?ne ! i))}" using assms by (auto simp: find_laws_def)
    then obtain cs where cs: "match_conds (map snd ?ne) [] ?is = Ret cs" "set cs = (\<Union>i \<in> set ?is. set (map snd ?ne ! i))"
      using match_conds_spec [of ?is "map snd ?ne" "[]"] by auto
    have "c \<in> set cs \<longleftrightarrow> (\<exists>p. (\<exists>ds. (p, ds) \<in> set ?ne \<and> c \<in> set ds) \<and> Contains text p)" for c
    proof -
      have "c \<in> set cs \<longleftrightarrow> (\<exists>i < length ?ne. Contains text (fst (?ne ! i)) \<and> c \<in> set (snd (?ne ! i)))" unfolding cs(2) "is" by auto
      also have "\<dots> \<longleftrightarrow> (\<exists>x \<in> set ?ne. Contains text (fst x) \<and> c \<in> set (snd x))" by (rule ex_nth_iff)
      finally show ?thesis by fastforce
    qed
    then have "set cs = {c. \<exists>p. (p, c) \<in> set pcs \<and> p \<noteq> [] \<and> Contains text p}" unfolding in_ne by blast
    moreover have "am_match env (buildAhoMatcher (group_patterns pcs)) text = Ret cs"
      using False cs(1) unfolding am_match_def buildAhoMatcher_def Let_def by simp
    ultimately show ?thesis by simp
  qed
qed

section \<open>Evaluating a request\<close>

lemma mark_spec:
  "\<forall>c \<in> set cs. c < length hits \<Longrightarrow>
   \<exists>hits'. mark hits cs = Ret hits' \<and> length hits' = length hits \<and> (\<forall>i < length hits. hits' ! i \<longleftrightarrow> hits ! i \<or> i \<in> set cs)"
proof (induction cs arbitrary: hits)
  case (Cons c cs)
  then obtain hits' where "mark (hits[c := True]) cs = Ret hits'" "length hits' = length hits"
      "\<forall>i < length hits. hits' ! i \<longleftrightarrow> hits[c := True] ! i \<or> i \<in> set cs"
    using Cons.IH [of "hits[c := True]"] by auto
  then show ?case using Cons.prems by (auto simp: nth_list_update)
qed simp

lemma finalize_fields:
  "pi_exists (finalize_index idx) = pi_exists idx" "pi_notExists (finalize_index idx) = pi_notExists idx"
  "value_hits env (finalize_index idx) v = value_hits env idx v" "pi_name (finalize_index idx) = pi_name idx"
  by (simp_all add: finalize_index_def value_hits_def split: option.split)

lemma finalize_match:
  assumes "find_laws env" "pi_aho idx = None"
  shows "\<exists>cs. am_match env (pi_aho (finalize_index idx)) text = Ret cs \<and>
    set cs = {c. \<exists>p. (p, c) \<in> set (pi_contains idx) \<and> p \<noteq> [] \<and> Contains text p}"
proof (cases "pi_contains idx = []")
  case True
  then show ?thesis using assms(2) by (simp add: finalize_index_def am_match_def)
next
  case False
  then show ?thesis using am_match_spec [OF assms(1), of "pi_contains idx" "text"] by (simp add: finalize_index_def)
qed

lemma applyIndex_spec:
  assumes "find_laws env" "pi_aho idx = None" "\<forall>c \<in> set (raw_hits env idx v present). c < length hits"
  shows "\<exists>hits'. applyIndex env (finalize_index idx) hits v present = Ret hits' \<and> length hits' = length hits \<and>
    (\<forall>i < length hits. hits' ! i \<longleftrightarrow> hits ! i \<or> i \<in> set (raw_hits env idx v present))"
proof (cases present)
  case False
  then show ?thesis
    using mark_spec [of "pi_notExists idx" hits] assms(3) by (auto simp: applyIndex_def finalize_fields raw_hits_def)
next
  case True
  obtain cs where cs: "am_match env (pi_aho (finalize_index idx)) (ToLower v) = Ret cs"
      "set cs = {c. \<exists>p. (p, c) \<in> set (pi_contains idx) \<and> p \<noteq> [] \<and> Contains (ToLower v) p}"
    using finalize_match [OF assms(1,2)] by blast
  have all: "set (raw_hits env idx v present) = set (pi_exists idx) \<union> set (cs @ value_hits env idx v)"
    unfolding set_eq_iff in_raw_hits using True cs(2) by auto
  obtain h1 where h1: "mark hits (pi_exists idx) = Ret h1" "length h1 = length hits"
      "\<forall>i < length hits. h1 ! i \<longleftrightarrow> hits ! i \<or> i \<in> set (pi_exists idx)"
    using mark_spec [of "pi_exists idx" hits] assms(3) all by auto
  obtain h2 where h2: "mark h1 (cs @ value_hits env idx v) = Ret h2" "length h2 = length h1"
      "\<forall>i < length h1. h2 ! i \<longleftrightarrow> h1 ! i \<or> i \<in> set (cs @ value_hits env idx v)"
    using mark_spec [of "cs @ value_hits env idx v" h1] assms(3) all h1(2) by auto
  have "applyIndex env (finalize_index idx) hits v present = Ret h2"
    using True h1(1) cs(1) h2(1) by (simp add: applyIndex_def finalize_fields)
  then show ?thesis unfolding all using h1(2,3) h2(2,3) by auto
qed

text \<open>Reading one parameter leaves the values of the others alone.\<close>

lemma ensureGeo_again: "ensureGeo (ensureGeo c) = ensureGeo c"
  by (auto simp: ensureGeo_def Let_def split: option.split prod.split)

lemma ensureGeo_fields:
  "cx_r (ensureGeo c) = cx_r c" "cx_ip (ensureGeo c) = cx_ip c" "cx_bodyDone (ensureGeo c) = cx_bodyDone c" "cx_body (ensureGeo c) = cx_body c"
  "cx_stream (ensureGeo c) = cx_stream c" "cx_maxBodySize (ensureGeo c) = cx_maxBodySize c"
  by (auto simp: ensureGeo_def Let_def split: option.split prod.split)

lemma ensureBody_fields:
  "cx_r (snd (ensureBody c)) = cx_r c" "cx_ip (snd (ensureBody c)) = cx_ip c" "cx_gs (snd (ensureBody c)) = cx_gs c"
  "cx_geoDone (snd (ensureBody c)) = cx_geoDone c" "cx_country (snd (ensureBody c)) = cx_country c" "cx_asn (snd (ensureBody c)) = cx_asn c"
  "cx_asnOrg (snd (ensureBody c)) = cx_asnOrg c" "cx_city (snd (ensureBody c)) = cx_city c"
  by (auto simp: ensureBody_def Let_def split: option.split)

lemma ensureBody_geo:
  "fst (ensureBody (ensureGeo c)) = fst (ensureBody c)" "cx_body (snd (ensureBody (ensureGeo c))) = cx_body (snd (ensureBody c))"
  by (auto simp: ensureBody_def Let_def ensureGeo_fields body_limit_def split: option.split)

lemma geo_value_body: "geo_value (ensureGeo (snd (ensureBody c))) p = geo_value (ensureGeo c) p"
  by (auto simp: geo_value_def ensureGeo_def Let_def ensureBody_fields split: option.split prod.split)

lemma cx_get_other:
  assumes "p \<noteq> q"
  shows "fst (cx_get (snd (cx_get c q m)) p n) = fst (cx_get c p n)"
proof -
  consider "q \<in> set geo_params" | "q \<notin> set geo_params" "q = ''body''" | "q \<notin> set geo_params" "q \<noteq> ''body''" by blast
  then have c': "snd (cx_get c q m) = ensureGeo c \<or> q = ''body'' \<and> snd (cx_get c q m) = snd (ensureBody c) \<or> snd (cx_get c q m) = c"
    by cases (simp_all add: cx_get_def Let_def split: prod.split)
  then have "plain_value (snd (cx_get c q m)) p n = plain_value c p n"
    by (elim disjE conjE) (simp_all only: plain_value_def ensureGeo_fields ensureBody_fields)
  moreover have "geo_value (ensureGeo (snd (cx_get c q m))) p = geo_value (ensureGeo c) p"
    using c' by (elim disjE conjE) (simp_all only: ensureGeo_again geo_value_body)
  moreover have "fst (ensureBody (snd (cx_get c q m))) = fst (ensureBody c)" "cx_body (snd (ensureBody (snd (cx_get c q m)))) = cx_body (snd (ensureBody c))"
    if "q \<noteq> ''body''" using c' that by (elim disjE conjE; simp only: ensureBody_geo)+
  ultimately show ?thesis
    using assms unfolding cx_get_def [of _ p n] Let_def by (cases "p \<in> set geo_params"; cases "p = ''body''") (simp_all add: split_beta)
qed

text \<open>The conditions an index reports for the value of its parameter in a request.\<close>

definition index_hits :: "waf_env \<Rightarrow> requestCtx \<Rightarrow> string \<times> paramIndex \<Rightarrow> nat set" where
  "index_hits env c x = (case x of (p, idx) \<Rightarrow> (case fst (cx_get c p (pi_name idx)) of (v, present) \<Rightarrow> set (raw_hits env idx v present)))"

lemma apply_params_spec:
  assumes "find_laws env"
  shows "distinct (map fst params) \<Longrightarrow> \<forall>(p, idx) \<in> set params. pi_aho idx = None \<and> (\<forall>v present. set (raw_hits env idx v present) \<subseteq> {..<length hits}) \<Longrightarrow>
    \<exists>hits' c'. apply_params env (map (\<lambda>(p, idx). (p, finalize_index idx)) params) hits c = Ret (hits', c') \<and> length hits' = length hits \<and>
      (\<forall>i < length hits. hits' ! i \<longleftrightarrow> hits ! i \<or> (\<exists>x \<in> set params. i \<in> index_hits env c x))"
proof (induction params arbitrary: hits c)
  case (Cons x params)
  obtain p idx where x: "x = (p, idx)" by (cases x)
  obtain v present c1 where get: "cx_get c p (pi_name idx) = ((v, present), c1)" by (metis surj_pair)
  have idx: "pi_aho idx = None" "\<forall>i \<in> set (raw_hits env idx v present). i < length hits" using Cons.prems(2) x by auto
  obtain h1 where h1: "applyIndex env (finalize_index idx) hits v present = Ret h1" "length h1 = length hits"
      "\<forall>i < length hits. h1 ! i \<longleftrightarrow> hits ! i \<or> i \<in> set (raw_hits env idx v present)"
    using applyIndex_spec [OF assms idx] by blast
  have others: "index_hits env c1 y = index_hits env c y" if "y \<in> set params" for y
  proof -
    obtain q idx' where y: "y = (q, idx')" by (cases y)
    then have "q \<noteq> p" using that Cons.prems(1) x by (auto intro: rev_image_eqI)
    then show ?thesis using cx_get_other [of q p c "pi_name idx" "pi_name idx'"] get y by (simp add: index_hits_def)
  qed
  obtain h2 c2 where h2: "apply_params env (map (\<lambda>(p, idx). (p, finalize_index idx)) params) h1 c1 = Ret (h2, c2)" "length h2 = length h1"
      "\<forall>i < length h1. h2 ! i \<longleftrightarrow> h1 ! i \<or> (\<exists>y \<in> set params. i \<in> index_hits env c1 y)"
    using Cons.IH [of h1 c1] Cons.prems h1(2) by auto
  have "index_hits env c x = set (raw_hits env idx v present)" by (simp add: index_hits_def x get)
  then show ?case using h1 h2 others by (auto simp: x finalize_fields get)
qed simp

definition holds_in :: "waf_env \<Rightarrow> requestCtx \<Rightarrow> WAFCondition \<Rightarrow> bool" where
  "holds_in env ctx c = (case fst (cx_get ctx (wc_Param c) (wc_ParamName c)) of (v, present) \<Rightarrow> cond_holds env c v present)"

lemma hits_exact:
  assumes "find_laws env" "rules_ok env cs rs"
  shows "\<exists>hits c'. apply_params env (rs_params (finalizeIndexes rs)) (replicate (rs_condCount rs) False) ctx = Ret (hits, c') \<and>
    length hits = length cs \<and> (\<forall>i < length cs. hits ! i \<longleftrightarrow> holds_in env ctx (cs ! i))"
proof -
  have rs: "rs_condCount rs = length cs" "distinct (map fst (rs_params rs))" "fst ` set (rs_params rs) = wc_Param ` set cs"
    using assms(2) by (auto simp: rules_ok_def)
  have ok: "index_ok env cs p idx" if "(p, idx) \<in> set (rs_params rs)" for p idx
    using assms(2) that rs(2) by (simp add: rules_ok_def)
  have bound: "\<forall>(p, idx) \<in> set (rs_params rs). pi_aho idx = None \<and> (\<forall>v present. set (raw_hits env idx v present) \<subseteq> {..<length (replicate (rs_condCount rs) False)})"
    using ok unfolding rs(1) index_ok_def by fastforce
  obtain hits c' where h: "apply_params env (rs_params (finalizeIndexes rs)) (replicate (rs_condCount rs) False) ctx = Ret (hits, c')"
      "length hits = length cs" "\<forall>i < length cs. hits ! i \<longleftrightarrow> (\<exists>x \<in> set (rs_params rs). i \<in> index_hits env ctx x)"
    using apply_params_spec [OF assms(1) rs(2) bound, of ctx] by (auto simp: finalizeIndexes_def rs(1))
  have "(\<exists>x \<in> set (rs_params rs). i \<in> index_hits env ctx x) \<longleftrightarrow> holds_in env ctx (cs ! i)" if i: "i < length cs" for i
  proof -
    have at: "i \<in> index_hits env ctx (p, idx) \<longleftrightarrow> wc_Param (cs ! i) = p \<and> holds_in env ctx (cs ! i)" if "(p, idx) \<in> set (rs_params rs)" for p idx
    proof -
      have idx: "set (raw_hits env idx v present) = {i. i < length cs \<and> wc_Param (cs ! i) = p \<and> cond_holds env (cs ! i) v present}"
          "\<forall>c \<in> set cs. wc_Param c = p \<longrightarrow> pi_name idx = wc_ParamName c" for v present
        using ok [OF that] unfolding index_ok_def by blast+
      show ?thesis using i idx nth_mem [OF i] by (auto simp: index_hits_def holds_in_def split: prod.splits)
    qed
    have "wc_Param (cs ! i) \<in> fst ` set (rs_params rs)" using i rs(3) by simp
    then show ?thesis using at by fastforce
  qed
  then show ?thesis using h by auto
qed

section \<open>The decision\<close>

definition rule_settings :: "compiledRule \<Rightarrow> string \<times> string \<times> int \<times> string \<times> real \<times> int" where
  "rule_settings ru = (cr_id ru, cr_action ru, cr_code ru, cr_message ru, cr_rps ru, cr_burst ru)"

lemma rule_map_fields:
  "GetString (waf_rule_map r) ''id'' = wr_ID r"
  "(case map_of (waf_rule_map r) ''enabled'' of Some (ABool e) \<Rightarrow> e | _ \<Rightarrow> True) = (wr_Enabled r \<noteq> Some False)"
  "map_of (waf_rule_map r) ''action'' =
     (let a = wr_Action r in
      if act_Type a \<noteq> [] \<or> act_Code a \<noteq> 0 \<or> act_Message a \<noteq> [] \<or> act_RPS a \<noteq> 0 \<or> act_Burst a \<noteq> 0 then Some (AMap (waf_action_map a)) else None)"
  by (auto simp: waf_rule_map_def GetString_def Let_def split: option.split)

lemma action_map_fields:
  "GetString (waf_action_map a) ''type'' = act_Type a" "GetInt (waf_action_map a) ''code'' = act_Code a"
  "GetString (waf_action_map a) ''message'' = act_Message a" "getFloat (waf_action_map a) ''rps'' = act_RPS a"
  "getFloat (waf_action_map a) ''requests_per_second'' = 0" "GetInt (waf_action_map a) ''burst'' = act_Burst a"
  by (auto simp: waf_action_map_def GetString_def GetInt_def getFloat_def)

lemma policy_action_default: "act_Type (wr_Action r) = [] \<Longrightarrow> policy_action r = ''deny''"
  unfolding policy_action_def Let_def by (simp, code_simp)

lemma rule_header_typed:
  "rule_settings (rule_header (waf_rule_map r)) = settings r" "cr_enabled (rule_header (waf_rule_map r)) = (wr_Enabled r \<noteq> Some False)"
  "cr_action (rule_header (waf_rule_map r)) = policy_action r"
proof -
  let ?a = "wr_Action r"
  have action: "rule_action (waf_action_map ?a) = policy_action r"
    by (simp only: rule_action_def policy_action_def action_map_fields actionDeny_def actionRateLimit_def)
  show enabled: "cr_enabled (rule_header (waf_rule_map r)) = (wr_Enabled r \<noteq> Some False)"
    unfolding rule_header_def rule_map_fields Let_def by simp
  show sets: "rule_settings (rule_header (waf_rule_map r)) = settings r"
  proof (cases "act_Type ?a \<noteq> [] \<or> act_Code ?a \<noteq> 0 \<or> act_Message ?a \<noteq> [] \<or> act_RPS ?a \<noteq> 0 \<or> act_Burst ?a \<noteq> 0")
    case True
    then show ?thesis
      unfolding rule_header_def rule_map_fields Let_def by (simp add: rule_settings_def settings_def action action_map_fields)
  next
    case False
    then show ?thesis
      unfolding rule_header_def rule_map_fields Let_def
      by (simp add: rule_settings_def settings_def policy_action_default actionDeny_def)
  qed
  then show "cr_action (rule_header (waf_rule_map r)) = policy_action r" by (simp add: rule_settings_def settings_def)
qed

lemma compiled_matches:
  assumes "compiled cs ru r" "length hits = length cs" "\<forall>i < length cs. hits ! i \<longleftrightarrow> P (cs ! i)"
  shows "ruleMatches ru hits = rule_holds P r"
proof -
  have groups: "map (map ((!) cs)) (cr_groups ru) = filter (\<lambda>g. g \<noteq> []) (wr_Conditions r)" "\<forall>g \<in> set (cr_groups ru). \<forall>i \<in> set g. i < length cs"
    using assms(1) by (auto simp: compiled_def points_to_def)
  have "ruleMatches ru hits \<longleftrightarrow> (\<exists>g \<in> set (cr_groups ru). \<forall>i \<in> set g. P (cs ! i))"
    unfolding ruleMatches_def list_ex_iff list_all_iff using groups(2) assms(2,3) by (metis (no_types, lifting))
  also have "\<dots> \<longleftrightarrow> (\<exists>g \<in> set (map (map ((!) cs)) (cr_groups ru)). \<forall>c \<in> set g. P c)" by simp
  also have "\<dots> \<longleftrightarrow> rule_holds P r" unfolding groups(1) rule_holds_def by auto
  finally show ?thesis .
qed

lemma first_rule_decides:
  assumes "length hits = length cs" "\<forall>i < length cs. hits ! i \<longleftrightarrow> P (cs ! i)"
  shows "list_all2 (compiled cs) new (filter (\<lambda>r. filter (\<lambda>g. g \<noteq> []) (wr_Conditions r) \<noteq> []) rules) \<Longrightarrow>
    (fst (first_rule new hits), map_option rule_settings (snd (first_rule new hits))) = policy_decision P rules"
proof (induction rules arbitrary: new)
  case (Cons r rules)
  show ?case
  proof (cases "filter (\<lambda>g. g \<noteq> []) (wr_Conditions r) = []")
    case True
    then have "\<not> rule_holds P r" by (auto simp: rule_holds_def filter_empty_conv)
    then show ?thesis using Cons True by simp
  next
    case False
    then obtain ru new' where new: "new = ru # new'" "compiled cs ru r"
        "list_all2 (compiled cs) new' (filter (\<lambda>r. filter (\<lambda>g. g \<noteq> []) (wr_Conditions r) \<noteq> []) rules)"
      using Cons.prems by (auto simp: list_all2_Cons2)
    have "ru = (rule_header (waf_rule_map r))\<lparr>cr_groups := cr_groups ru\<rparr>" using new(2) by (simp add: compiled_def)
    then have ru: "cr_enabled ru = (wr_Enabled r \<noteq> Some False)" "cr_action ru = policy_action r" "rule_settings ru = settings r"
      using rule_header_typed [of r] by (metis compiledRule.select_convs compiledRule.simps compiledRule.update_convs compiledRule.surjective rule_settings_def)+
    show ?thesis
      using Cons.IH [OF new(3)] compiled_matches [OF new(2) assms] ru
      by (simp add: new(1) actionAllow_def actionDeny_def actionRateLimit_def)
  qed
qed simp

lemma ruleset_decides:
  assumes "find_laws env" "wl_Enabled v" "wf_conds (policy_conds (wl_Rules v))"
  shows "\<exists>rs action ru stream'. buildRuleSet env (wafLocationToMap v) maxBody = Inr (Some rs) \<and>
    evaluate env rs r stream gs = Ret (action, ru, stream') \<and>
    (action, map_option rule_settings ru) = policy_decision (holds_in env (newRequestCtx r stream gs maxBody)) (wl_Rules v)"
proof (cases "wl_Rules v = []")
  case True
  then show ?thesis
    using assms(2) by (simp add: buildRuleSet_def wafLocationToMap_def GetBool_def evaluate_def)
next
  case False
  let ?rs0 = "\<lparr>rs_params = [], rs_rules = [], rs_condCount = 0, rs_maxBodySize = maxBody\<rparr>" and ?ctx = "newRequestCtx r stream gs maxBody"
  let ?cs = "policy_conds (wl_Rules v)"
  have "rules_ok env [] ?rs0" by (simp add: rules_ok_def)
  then obtain rs new where rs: "add_rules env (map (\<lambda>r. AMap (waf_rule_map r)) (wl_Rules v)) ?rs0 = rs" "rules_ok env ?cs rs"
      "rs_rules rs = new" "rs_maxBodySize rs = maxBody"
      "list_all2 (compiled ?cs) new (filter (\<lambda>r. filter (\<lambda>g. g \<noteq> []) (wr_Conditions r) \<noteq> []) (wl_Rules v))"
    using add_rules_ok [of env "[]" ?rs0 "wl_Rules v"] assms(3) by (metis append_Nil append_Nil2 ruleSet.select_convs(2) ruleSet.select_convs(4))
  obtain hits c' where h: "apply_params env (rs_params (finalizeIndexes rs)) (replicate (rs_condCount rs) False) ?ctx = Ret (hits, c')"
      "length hits = length ?cs" "\<forall>i < length ?cs. hits ! i \<longleftrightarrow> holds_in env ?ctx (?cs ! i)"
    using hits_exact [OF assms(1) rs(2)] by blast
  have "buildRuleSet env (wafLocationToMap v) maxBody = Inr (Some (finalizeIndexes rs))"
    using False assms(2) rs(1) by (simp add: buildRuleSet_def wafLocationToMap_def GetBool_def)
  moreover have "evaluate env (finalizeIndexes rs) r stream gs = Ret (fst (first_rule new hits), snd (first_rule new hits), cx_stream c')"
    using h(1) rs(3,4) by (simp add: evaluate_def finalizeIndexes_def split_beta)
  ultimately show ?thesis using first_rule_decides [OF h(2,3) rs(5)] by blast
qed

text \<open>
  C3. The firewall decides as the policy says: the compiled indexes, the automaton
  and the numbered conditions allow or block a request exactly as the first
  enabled rule of the policy does whose conditions hold, with that rule's code,
  message and limits, for every policy whose parameter names agree and that
  compares no parameter twice with the same value. Nothing panics.
\<close>

theorem firewall_decides:
  assumes "find_laws env" "wl_Enabled v" "wf_conds (policy_conds (wl_Rules v))"
  shows "\<exists>rs action ru stream'. buildRuleSet env (wafLocationToMap v) maxBody = Inr (Some rs) \<and>
    evaluate env rs r stream gs = Ret (action, ru, stream') \<and>
    (action, map_option rule_settings ru) = policy_decision (holds_in env (newRequestCtx r stream gs maxBody)) (wl_Rules v)"
  using assms by (rule ruleset_decides)

text \<open>A policy for the witness, and an automaton that looks for each pattern in turn.\<close>

definition naive_env :: waf_env where
  "naive_env = \<lparr>we_re = (\<lambda>_. None), we_find = (\<lambda>pats text. filter (\<lambda>i. Contains text (pats ! i)) [0..<length pats]), we_float = (\<lambda>_. None)\<rparr>"

lemma naive_find: "find_laws naive_env"
  by (auto simp: find_laws_def naive_env_def)

definition waf_cond :: "string \<Rightarrow> string \<Rightarrow> string \<Rightarrow> WAFCondition" where
  "waf_cond param op v = \<lparr>wc_Param = param, wc_ParamName = '''', wc_Operator = op, wc_Value = v\<rparr>"

definition deny_rule :: "string \<Rightarrow> WAFCondition list list \<Rightarrow> WAFRule" where
  "deny_rule name groups = \<lparr>wr_ID = name, wr_Name = '''', wr_Enabled = None,
     wr_Action = \<lparr>act_Type = '''', act_Code = 0, act_Message = '''', act_RPS = 0, act_Burst = 0\<rparr>, wr_Conditions = groups\<rparr>"

definition admin_policy :: WAFLocationConfig where
  "admin_policy = \<lparr>wl_Enabled = True, wl_Rules = [deny_rule ''local'' [[waf_cond ''ip'' ''in'' ''192.168.0.0/16'']],
     deny_rule ''admin'' [[waf_cond ''path'' ''contains'' ''Admin'', waf_cond ''method'' ''equals'' ''GET'']]]\<rparr>"

lemma admin_wf: "wf_conds (policy_conds (wl_Rules admin_policy))"
  by (simp add: admin_policy_def policy_conds_def deny_rule_def waf_cond_def wf_conds_def)

lemma admin_decision:
  "policy_decision (holds_in naive_env (newRequestCtx (some_request\<lparr>Path := ''/ADMIN''\<rparr>) None None 0)) (wl_Rules admin_policy) =
     (RuleSetBlock, Some (''admin'', ''deny'', 0, '''', 0, 0))"
  by code_simp

theorem firewall_decides_witness:
  "\<exists>rs ru stream'. buildRuleSet naive_env (wafLocationToMap admin_policy) 0 = Inr (Some rs) \<and>
     evaluate naive_env rs (some_request\<lparr>Path := ''/ADMIN''\<rparr>) None None = Ret (RuleSetBlock, Some ru, stream') \<and> cr_id ru = ''admin''"
  using firewall_decides [OF naive_find _ admin_wf, of 0 "some_request\<lparr>Path := ''/ADMIN''\<rparr>" None None] unfolding admin_decision
  by (auto simp: admin_policy_def rule_settings_def)

section \<open>From the configuration to the answer\<close>

text \<open>The locations of a configuration that have a policy, and the policy under its key.\<close>

definition waf_entries :: "TargetConfig list \<Rightarrow> (string \<times> WAFLocationConfig) list" where
  "waf_entries targets =
     concat (map (\<lambda>t. List.map_filter (\<lambda>loc. map_option (Pair (rs_key (tc_ServerName t) (loc_Path loc))) (loc_WAF loc)) (tc_Locations t)) targets)"

lemma waf_entries_mem:
  "t \<in> set targets \<Longrightarrow> loc \<in> set (tc_Locations t) \<Longrightarrow> loc_WAF loc = Some v \<Longrightarrow>
   (rs_key (tc_ServerName t) (loc_Path loc), v) \<in> set (waf_entries targets)"
  by (force simp: waf_entries_def map_filter_def)














section \<open>The request body\<close>

lemma ensureBody_stream:
  "cx_stream (snd (ensureBody c)) =
     (if cx_bodyDone c then cx_stream c else map_option (\<lambda>s. s\<lparr>bs_data := drop (Suc (body_limit c)) (bs_data s)\<rparr>) (cx_stream c))"
  "cx_bodyDone (snd (ensureBody c))" "body_limit (snd (ensureBody c)) = body_limit c"
  by (auto simp: ensureBody_def Let_def body_limit_def split: option.split)

lemma cx_get_stream:
  "cx_stream (snd (cx_get c p n)) = (if p = ''body'' then cx_stream (snd (ensureBody c)) else cx_stream c)"
  "cx_bodyDone (snd (cx_get c p n)) \<longleftrightarrow> p = ''body'' \<or> cx_bodyDone c" "body_limit (snd (cx_get c p n)) = body_limit c"
proof -
  have no: "''body'' \<notin> set geo_params" by (simp add: geo_params_def)
  have geo: "body_limit (ensureGeo c) = body_limit c" by (simp add: body_limit_def ensureGeo_fields)
  show "cx_stream (snd (cx_get c p n)) = (if p = ''body'' then cx_stream (snd (ensureBody c)) else cx_stream c)"
    "cx_bodyDone (snd (cx_get c p n)) \<longleftrightarrow> p = ''body'' \<or> cx_bodyDone c" "body_limit (snd (cx_get c p n)) = body_limit c"
    using no geo by (auto simp: cx_get_def Let_def ensureGeo_fields split_beta ensureBody_stream)
qed

lemma apply_params_stream:
  "apply_params env params hits c = Ret (hits', c') \<Longrightarrow> 
   cx_stream c' = (if cx_bodyDone c \<or> ''body'' \<notin> fst ` set params then cx_stream c
     else map_option (\<lambda>s. s\<lparr>bs_data := drop (Suc (body_limit c)) (bs_data s)\<rparr>) (cx_stream c))"
proof (induction params arbitrary: hits c)
  case (Cons x params)
  obtain p idx where x: "x = (p, idx)" by (cases x)
  obtain v present c1 where get: "cx_get c p (pi_name idx) = ((v, present), c1)" by (metis surj_pair)
  obtain h1 where "apply_params env params h1 c1 = Ret (hits', c')"
    using Cons.prems by (auto simp: x get go_bind_Ret_iff)
  note rest = Cons.IH [OF this]
  have c1: "cx_stream c1 = (if p = ''body'' then cx_stream (snd (ensureBody c)) else cx_stream c)"
      "cx_bodyDone c1 \<longleftrightarrow> p = ''body'' \<or> cx_bodyDone c" "body_limit c1 = body_limit c"
    using cx_get_stream [of c p "pi_name idx"] by (simp_all add: get)
  show ?case unfolding rest x by (cases "p = ''body''") (simp_all add: c1 ensureBody_stream)
qed simp

lemma evaluate_stream:
  assumes "evaluate env rs r (Some s) gs = Ret (action, ru, stream')" "''body'' \<in> fst ` set (rs_params rs)"
    "length (bs_data s) \<le> (if rs_maxBodySize rs \<le> 0 then 1048576 else nat (rs_maxBodySize rs))"
  shows "stream' = Some (s\<lparr>bs_data := []\<rparr>)"
proof -
  obtain hits c' where c': "apply_params env (rs_params rs) (replicate (rs_condCount rs) False) (newRequestCtx r (Some s) gs (rs_maxBodySize rs)) = Ret (hits, c')"
      "stream' = cx_stream c'"
    using assms(1) by (auto simp: evaluate_def go_bind_Ret_iff split_beta)
  show ?thesis using apply_params_stream [OF c'(1)] assms(2,3) c'(2) by (auto simp: newRequestCtx_def body_limit_def split: if_splits)
qed

text \<open>
  C39. Inspecting the body takes it away: when the rule set of a location has a
  condition on the body and the firewall lets a request through whose body is
  within the limit, nothing of the body is left for the upstream, since what
  \<open>ensureBody\<close> reads is never put back.
\<close>

theorem inspected_body_lost:
  assumes "wp_enabled p" "map_of (wp_rs p) (rs_key target loc) = Some rs" "''body'' \<in> fst ` set (rs_params rs)"
    and "length (bs_data s) \<le> (if rs_maxBodySize rs \<le> 0 then 1048576 else nat (rs_maxBodySize rs))"
    and "waf_BeforeProxy env lm now p w r (Some s) target loc = Ret (None, w', stream', p')"
  shows "stream' = Some (s\<lparr>bs_data := []\<rparr>)"
proof -
  obtain action ru rest where ev: "evaluate env rs r (Some s) (wp_gs p) = Ret (action, ru, rest)"
    using assms(1,2,5) by (auto simp: waf_BeforeProxy_def go_bind_Ret_iff)
  then have "rest = stream'"
    using assms(1,2,5) by (cases action; cases ru) (auto simp: waf_BeforeProxy_def split_beta split: if_splits)
  then show ?thesis using evaluate_stream [OF ev assms(3,4)] by simp
qed

text \<open>
  A body over the limit is not inspected: every condition on the body other
  than \<open>not_exists\<close> fails for it, whatever the body says, so a request
  escapes a body rule by being long.
\<close>

theorem long_body_escapes:
  assumes "(if maxBody \<le> 0 then 1048576 else nat maxBody) < length (bs_data s)" "wc_Param c = ''body''"
  shows "holds_in env (newRequestCtx r (Some s) gs maxBody) c \<longleftrightarrow> operator_of (wc_Operator c) = Some OpNotExists"
proof -
  let ?c = "newRequestCtx r (Some s) gs maxBody"
  have "body_limit ?c < length (bs_data s)" "\<not> cx_bodyDone ?c" "cx_stream ?c = Some s" "cx_body ?c = ''''"
    using assms(1) by (simp_all add: newRequestCtx_def body_limit_def split: if_splits)
  then have "cx_body (snd (ensureBody ?c)) = ''''" by (simp add: ensureBody_def Let_def)
  moreover have "''body'' \<notin> set geo_params" by (simp add: geo_params_def)
  ultimately obtain v where "fst (cx_get ?c (wc_Param c) (wc_ParamName c)) = (v, False)"
    using assms(2) by (auto simp: cx_get_def split_beta)
  moreover have "\<not> ip_cond c" using assms(2) by (simp add: ip_cond_def)
  ultimately show ?thesis by (auto simp: holds_in_def cond_holds_def op_holds_def split: option.split operator.split)
qed

text \<open>A location whose one rule denies bodies that contain an attack, and an innocent body of two bytes.\<close>

definition body_policy :: WAFLocationConfig where
  "body_policy = admin_policy\<lparr>wl_Rules := [deny_rule ''attack'' [[waf_cond ''body'' ''contains'' ''attack'']]]\<rparr>"

definition body_rules :: ruleSet where
  "body_rules = (case buildRuleSet naive_env (wafLocationToMap body_policy) 8 of Inr (Some rs) \<Rightarrow> rs)"

definition body_plugin :: "int WAFPlugin" where
  "body_plugin = NewWAFPlugin\<lparr>wp_enabled := True, wp_rs := [(''h|/'', body_rules)], wp_maxBodySize := 8\<rparr>"

theorem inspected_body_lost_witness:
  "waf_BeforeProxy naive_env count_limiter 0 body_plugin new_writer some_request (Some \<lparr>bs_data = bytes_of ''ok'', bs_err = False\<rparr>) ''h'' ''/'' =
     Ret (None, new_writer, Some \<lparr>bs_data = [], bs_err = False\<rparr>, body_plugin)"
proof -
  have rs: "wp_enabled body_plugin" "map_of (wp_rs body_plugin) (rs_key ''h'' ''/'') = Some body_rules"
    by (simp_all add: body_plugin_def rs_key_def)
  have "map fst (rs_params body_rules) = [''body''] \<and> rs_maxBodySize body_rules = 8" by code_simp
  then have p: "''body'' \<in> fst ` set (rs_params body_rules)" "rs_maxBodySize body_rules = 8"
    by (metis list.set_intros(1) list.set_map, simp)
  have "(case evaluate naive_env body_rules some_request (Some \<lparr>bs_data = bytes_of ''ok'', bs_err = False\<rparr>) None of
      Ret (a, _, _) \<Rightarrow> a = RuleSetAllow | _ \<Rightarrow> False)" by code_simp
  then obtain stream' where "waf_BeforeProxy naive_env count_limiter 0 body_plugin new_writer some_request (Some \<lparr>bs_data = bytes_of ''ok'', bs_err = False\<rparr>) ''h'' ''/'' =
      Ret (None, new_writer, stream', body_plugin)"
    using rs by (auto simp: waf_BeforeProxy_def body_plugin_def NewWAFPlugin_def split: go.splits)
  from this inspected_body_lost [OF rs p(1) _ this] show ?thesis by (simp add: p(2) bytes_of_def)
qed

theorem long_body_escapes_witness:
  "\<not> holds_in naive_env (newRequestCtx some_request (Some \<lparr>bs_data = bytes_of ''attack padded'', bs_err = False\<rparr>) None 8)
      (waf_cond ''body'' ''contains'' ''attack'')"
proof -
  have "operator_of ''contains'' \<noteq> Some OpNotExists" by code_simp
  then show ?thesis by (subst long_body_escapes) (simp_all add: bytes_of_def waf_cond_def)
qed

end
