(* ===== verification/Writers.thy ===== *)
theory Writers
  imports PluginConfig
begin

text \<open>
  What a handler does to its \<open>http.ResponseWriter\<close>, as a list of actions, and the
  interface the wrapping writers of the plugins share: an action on the wrapper
  is that action on the wrapped writer. The plugins compress answers
  (theory Compression), replace error answers (ErrorPage) and log them
  (AccessLog). Status codes below 200 and the hijacking of connections are left
  out.
\<close>

datatype wr = SetHeader string string | DelHeader string | Status int | Body "byte list" | Flushed

fun header_edit :: "header \<Rightarrow> wr \<Rightarrow> header" where
  "header_edit h (SetHeader k v) = Header_Set h k v"
| "header_edit h (DelHeader k) = Header_Del h k"
| "header_edit h _ = h"

text \<open>The writer of the server: flushing before any status sends the status 200.\<close>

fun writer_act :: "response_writer \<Rightarrow> wr \<Rightarrow> response_writer" where
  "writer_act w (Status code) = WriteHeader w code"
| "writer_act w (Body bs) = Write w bs"
| "writer_act w Flushed = WriteHeader w 200"
| "writer_act w a = w\<lparr>rw_header := header_edit (rw_header w) a\<rparr>"

text \<open>The server refuses a status outside 100 to 999 with a panic, unless one was sent before.\<close>

definition write_status :: "response_writer \<Rightarrow> int \<Rightarrow> response_writer go" where
  "write_status w code = (if rw_status w = None \<and> (code < 100 \<or> 999 < code) then Panic else Ret (WriteHeader w code))"

fun only_header :: "wr \<Rightarrow> bool" where
  "only_header (SetHeader k v) = True"
| "only_header (DelHeader k) = True"
| "only_header _ = False"

fun body_of :: "wr \<Rightarrow> byte list" where
  "body_of (Body bs) = bs"
| "body_of _ = []"

lemma headers_only:
  "\<forall>a \<in> set hs. only_header a \<Longrightarrow> foldl writer_act w hs = w\<lparr>rw_header := foldl header_edit (rw_header w) hs\<rparr>"
proof (induction hs arbitrary: w)
  case (Cons a hs)
  then show ?case by (cases a) auto
qed simp

lemma bodies_only:
  "rw_status w = Some c \<Longrightarrow> foldl writer_act w (map Body bs) = w\<lparr>rw_body := rw_body w @ concat bs\<rparr>"
  by (induction bs arbitrary: w) (simp_all add: Write_def WriteHeader_def Let_def)

text \<open>An answer as most handlers write it: headers, one status, the body in pieces.\<close>

lemma plain_answer:
  assumes "\<forall>a \<in> set hs. only_header a" "rw_status w = None"
  shows "foldl writer_act w (hs @ Status c # map Body bs) =
    w\<lparr>rw_header := foldl header_edit (rw_header w) hs, rw_status := Some c, rw_sent := foldl header_edit (rw_header w) hs, rw_body := rw_body w @ concat bs\<rparr>"
  using assms by (simp add: headers_only WriteHeader_def bodies_only)

text \<open>What a wrapper promises of the actions it is meant for, and what follows for a whole answer.\<close>

fun allowed :: "('w \<Rightarrow> wr \<Rightarrow> 'w) \<Rightarrow> ('w \<Rightarrow> wr \<Rightarrow> bool) \<Rightarrow> 'w \<Rightarrow> wr list \<Rightarrow> bool" where
  "allowed act ok w [] = True"
| "allowed act ok w (a # acts) \<longleftrightarrow> ok w a \<and> allowed act ok (act w a) acts"

locale writer_wrapper =
  fixes act :: "'w \<Rightarrow> wr \<Rightarrow> 'w" and inner :: "'w \<Rightarrow> response_writer" and good :: "'w \<Rightarrow> bool" and ok :: "'w \<Rightarrow> wr \<Rightarrow> bool"
  assumes passes: "good w \<Longrightarrow> ok w a \<Longrightarrow> inner (act w a) = writer_act (inner w) a"
    and stays_good: "good w \<Longrightarrow> ok w a \<Longrightarrow> good (act w a)"
begin

lemma passes_all:
  "good w \<Longrightarrow> allowed act ok w acts \<Longrightarrow> inner (foldl act w acts) = foldl writer_act (inner w) acts \<and> good (foldl act w acts)"
proof (induction acts arbitrary: w)
  case (Cons a acts)
  then have "good w" "ok w a" "allowed act ok (act w a) acts" by simp_all
  then show ?case using Cons.IH [of "act w a"] passes stays_good by simp
qed simp

end

end
