(* ===== verification/Compression.thy ===== *)
theory Compression
  imports Writers
begin

text \<open>
  The compression plugin (\<open>plugins/compression\<close>). The compressor is an argument: a
  function of the level and of what was written to it, None standing for a flush.
  The pool of writers is not modelled, each request has a fresh one. The lemmas
  show that an answer that is not flushed reaches the client with the same
  status and, decoded, the same body, and what happens to one that is flushed.
\<close>

section \<open>The plugin\<close>

record comp_settings =
  co_Enabled :: bool
  co_Level :: int
  co_MinLength :: int
  co_Types :: "string list"
  co_typeMap :: "string list"

type_synonym compressor = "int \<Rightarrow> byte list option list \<Rightarrow> byte list"

definition comp_defaultTypes :: "string list" where
  "comp_defaultTypes = [''text/html'', ''text/css'', ''text/javascript'', ''application/javascript'', ''application/json'',
     ''application/xml'', ''text/xml'', ''text/plain'', ''application/wasm'', ''image/svg+xml'']"

text \<open>The type assertions of \<open>Init\<close> panic when a setting is missing or of another type.\<close>

definition comp_Init :: "config \<Rightarrow> comp_settings go" where
  "comp_Init c =
     (case (map_of c ''enabled'', map_of c ''level'', map_of c ''min_length'', map_of c ''types'') of
        (Some (ABool enabled), Some (AInt level), Some (AInt minLength), Some (AStrings types)) \<Rightarrow>
          Ret \<lparr>co_Enabled = enabled, co_Level = level, co_MinLength = minLength, co_Types = types,
            co_typeMap = comp_defaultTypes @ map (\<lambda>t. ToLower (TrimSpace t)) types\<rparr>
      | _ \<Rightarrow> Panic)"

record gzipResponseWriter =
  gz_w :: response_writer
  gz_writer :: "byte list option list"
  gz_raw :: "byte list"
  gz_status :: int
  gz_wroteHeader :: bool
  gz_originalSize :: int
  gz_contentType :: string
  gz_contentEncoding :: string

definition new_gzip :: "response_writer \<Rightarrow> gzipResponseWriter" where
  "new_gzip w = \<lparr>gz_w = w, gz_writer = [], gz_raw = [], gz_status = 0, gz_wroteHeader = False, gz_originalSize = 0,
     gz_contentType = '''', gz_contentEncoding = ''''\<rparr>"

definition gz_WriteHeader :: "gzipResponseWriter \<Rightarrow> int \<Rightarrow> gzipResponseWriter" where
  "gz_WriteHeader g status =
     g\<lparr>gz_status := status, gz_wroteHeader := True, gz_contentType := Header_Get (rw_header (gz_w g)) ''Content-Type'',
       gz_contentEncoding := Header_Get (rw_header (gz_w g)) ''Content-Encoding''\<rparr>"

definition gz_Write :: "gzipResponseWriter \<Rightarrow> byte list \<Rightarrow> gzipResponseWriter" where
  "gz_Write g bs =
     (let g1 = (if gz_wroteHeader g then g else gz_WriteHeader g 200)
      in g1\<lparr>gz_originalSize := gz_originalSize g1 + int (length bs), gz_raw := gz_raw g1 @ bs, gz_writer := gz_writer g1 @ [Some bs]\<rparr>)"

definition gz_Flush :: "gzipResponseWriter \<Rightarrow> gzipResponseWriter" where
  "gz_Flush g = g\<lparr>gz_writer := gz_writer g @ [None], gz_w := writer_act (gz_w g) Flushed\<rparr>"

fun gz_act :: "gzipResponseWriter \<Rightarrow> wr \<Rightarrow> gzipResponseWriter" where
  "gz_act g (Status code) = gz_WriteHeader g code"
| "gz_act g (Body bs) = gz_Write g bs"
| "gz_act g Flushed = gz_Flush g"
| "gz_act g a = g\<lparr>gz_w := writer_act (gz_w g) a\<rparr>"

definition shouldCompress :: "comp_settings \<Rightarrow> string \<Rightarrow> int \<Rightarrow> bool" where
  "shouldCompress p contentType bodyLen \<longleftrightarrow>
     \<not> bodyLen < co_MinLength p \<and> hd (SplitByte (ToLower (TrimSpace contentType)) (CHR '';'')) \<in> set (co_typeMap p)"

text \<open>
  \<open>WrapHandler\<close> on a handler that does the actions. A level the compressor does
  not know gives a nil writer, and resetting it panics.
\<close>

definition comp_finish :: "compressor \<Rightarrow> comp_settings \<Rightarrow> gzipResponseWriter \<Rightarrow> response_writer go" where
  "comp_finish gzip p g =
     (let w = gz_w g in
      if gz_status g \<noteq> 0 \<and> gz_wroteHeader g \<and> gz_contentEncoding g = '''' \<and> shouldCompress p (gz_contentType g) (gz_originalSize g) then
        (let h = Header_Del (Header_Set (Header_Set (rw_header w) ''Content-Encoding'' ''gzip'') ''Vary'' ''Accept-Encoding'') ''Content-Length''
         in go_bind (write_status (w\<lparr>rw_header := h\<rparr>) (gz_status g)) (\<lambda>w1. Ret (Write w1 (gzip (co_Level p) (gz_writer g)))))
      else go_bind (write_status w (gz_status g)) (\<lambda>w1. Ret (Write w1 (gz_raw g))))"

definition comp_WrapHandler :: "compressor \<Rightarrow> comp_settings \<Rightarrow> request \<Rightarrow> wr list \<Rightarrow> response_writer \<Rightarrow> response_writer go" where
  "comp_WrapHandler gzip p r acts w =
     (if \<not> co_Enabled p \<or> \<not> Contains (Header_Get (Header r) ''Accept-Encoding'') ''gzip'' then Ret (foldl writer_act w acts)
      else if co_Level p < -2 \<or> 9 < co_Level p then Panic
      else comp_finish gzip p (foldl gz_act (new_gzip w) acts))"

section \<open>Properties\<close>

text \<open>The settings of a location that enables compression never make \<open>Init\<close> panic.\<close>

lemma comp_Init_settings:
  "cmp_Enabled v \<Longrightarrow> \<exists>p. comp_Init (compression_map v) = Ret p \<and> co_Enabled p \<and> co_Level p = cmp_Level v \<and> co_MinLength p = cmp_MinLength v"
  by (simp add: comp_Init_def compression_map_def)

lemma gz_headers:
  "\<forall>a \<in> set hs. only_header a \<Longrightarrow> foldl gz_act g hs = g\<lparr>gz_w := foldl writer_act (gz_w g) hs\<rparr>"
proof (induction hs arbitrary: g)
  case (Cons a hs)
  then show ?case by (cases a) auto
qed simp

lemma gz_bodies:
  "gz_wroteHeader g \<Longrightarrow> foldl gz_act g (map Body bs) =
     g\<lparr>gz_originalSize := gz_originalSize g + int (length (concat bs)), gz_raw := gz_raw g @ concat bs, gz_writer := gz_writer g @ map Some bs\<rparr>"
  by (induction bs arbitrary: g) (simp_all add: gz_Write_def Let_def)

lemma gz_plain:
  assumes "\<forall>a \<in> set hs. only_header a"
  shows "foldl gz_act (new_gzip w) (hs @ Status c # map Body bs) =
    (let h = foldl header_edit (rw_header w) hs in
     \<lparr>gz_w = w\<lparr>rw_header := h\<rparr>, gz_writer = map Some bs, gz_raw = concat bs, gz_status = c, gz_wroteHeader = True,
      gz_originalSize = int (length (concat bs)), gz_contentType = Header_Get h ''Content-Type'', gz_contentEncoding = Header_Get h ''Content-Encoding''\<rparr>)"
  using assms by (simp add: gz_headers headers_only gz_WriteHeader_def gz_bodies new_gzip_def Let_def)

definition gunzips :: "compressor \<Rightarrow> (byte list \<Rightarrow> byte list option) \<Rightarrow> bool" where
  "gunzips gzip gunzip \<longleftrightarrow> (\<forall>level xs. gunzip (gzip level xs) = Some (concat (List.map_filter id xs)))"

lemma map_filter_Some: "List.map_filter id (map Some xs) = xs"
  by (induction xs) (simp_all add: map_filter_simps)

lemma encoding_keys:
  "CanonicalHeaderKey ''Content-Encoding'' = ''Content-Encoding'' \<and> CanonicalHeaderKey ''Vary'' = ''Vary'' \<and>
   CanonicalHeaderKey ''Content-Length'' = ''Content-Length''"
  by code_simp

lemma comp_finish_raw:
  assumes "\<not> (gz_status g \<noteq> 0 \<and> gz_wroteHeader g \<and> gz_contentEncoding g = '''' \<and> shouldCompress p (gz_contentType g) (gz_originalSize g))"
    and "rw_status (gz_w g) = None" "100 \<le> gz_status g" "gz_status g \<le> 999"
  shows "comp_finish gzip p g =
    Ret ((gz_w g)\<lparr>rw_status := Some (gz_status g), rw_sent := rw_header (gz_w g), rw_body := rw_body (gz_w g) @ gz_raw g\<rparr>)"
  unfolding comp_finish_def Let_def if_not_P [OF assms(1)] using assms(2-) by (simp add: write_status_def WriteHeader_def Write_def Let_def)

definition gzip_headers :: "header \<Rightarrow> header" where
  "gzip_headers h = Header_Del (Header_Set (Header_Set h ''Content-Encoding'' ''gzip'') ''Vary'' ''Accept-Encoding'') ''Content-Length''"

lemma gzip_headers_Get: "Header_Get (gzip_headers h) ''Content-Encoding'' = ''gzip''"
  using encoding_keys by (simp add: gzip_headers_def Header_Get_Set Header_Get_Del)

lemma gzip_headers_other:
  "k \<notin> {''Content-Encoding'', ''Vary'', ''Content-Length''} \<Longrightarrow> hdr_lookup (gzip_headers h) k = hdr_lookup h k"
  using encoding_keys by (auto simp: gzip_headers_def hdr_lookup_Set hdr_lookup_Del)

lemma comp_finish_zipped:
  assumes "gz_status g \<noteq> 0 \<and> gz_wroteHeader g \<and> gz_contentEncoding g = '''' \<and> shouldCompress p (gz_contentType g) (gz_originalSize g)"
    and "rw_status (gz_w g) = None" "100 \<le> gz_status g" "gz_status g \<le> 999"
  shows "comp_finish gzip p g =
    Ret ((gz_w g)\<lparr>rw_header := gzip_headers (rw_header (gz_w g)), rw_status := Some (gz_status g), rw_sent := gzip_headers (rw_header (gz_w g)),
      rw_body := rw_body (gz_w g) @ gzip (co_Level p) (gz_writer g)\<rparr>)"
  unfolding comp_finish_def Let_def if_P [OF assms(1)] gzip_headers_def [symmetric] using assms(2-)
  by (simp add: write_status_def WriteHeader_def Write_def Let_def)

text \<open>
  C14. Compression is transparent: a client that undoes the encoding gets the
  status and the body the handler wrote, in the encoding the handler chose or in
  gzip when it chose none, and every header but the encoding, the length and
  Vary is the handler's. This holds for every answer written as headers, one
  status and a body in pieces that are not flushed.
\<close>

theorem compression_transparent:
  assumes "gunzips gzip gunzip" "\<forall>a \<in> set hs. only_header a" "rw_status w = None" "rw_body w = []" "100 \<le> c" "c \<le> 999"
    and "\<not> (co_Level p < -2 \<or> 9 < co_Level p)"
  shows "\<exists>w'. comp_WrapHandler gzip p r (hs @ Status c # map Body bs) w = Ret w' \<and> rw_status w' = Some c \<and>
    (let h = foldl header_edit (rw_header w) hs in
     (rw_sent w' = h \<and> rw_body w' = concat bs \<or>
      Header_Get h ''Content-Encoding'' = '''' \<and> Header_Get (rw_sent w') ''Content-Encoding'' = ''gzip'' \<and> gunzip (rw_body w') = Some (concat bs)) \<and>
     (\<forall>k. k \<notin> {''Content-Encoding'', ''Vary'', ''Content-Length''} \<longrightarrow> hdr_lookup (rw_sent w') k = hdr_lookup h k))"
proof -
  let ?acts = "hs @ Status c # map Body bs" and ?h = "foldl header_edit (rw_header w) hs"
  let ?g = "foldl gz_act (new_gzip w) ?acts"
  have g: "gz_w ?g = w\<lparr>rw_header := ?h\<rparr>" "gz_status ?g = c" "gz_raw ?g = concat bs" "gz_writer ?g = map Some bs"
      "gz_contentEncoding ?g = Header_Get ?h ''Content-Encoding''"
    unfolding gz_plain [OF assms(2)] Let_def by simp_all
  have gunzip: "gunzip (gzip (co_Level p) (map Some bs)) = Some (concat bs)"
    using assms(1) by (simp add: gunzips_def map_filter_Some)
  consider (direct) "\<not> co_Enabled p \<or> \<not> Contains (Header_Get (Header r) ''Accept-Encoding'') ''gzip''"
    | (finish) "comp_WrapHandler gzip p r ?acts w = comp_finish gzip p ?g"
    using assms(7) unfolding comp_WrapHandler_def by presburger
  then show ?thesis
  proof cases
    case direct
    then have "comp_WrapHandler gzip p r ?acts w = Ret (foldl writer_act w ?acts)" unfolding comp_WrapHandler_def by presburger
    then show ?thesis using assms(4) unfolding plain_answer [OF assms(2,3)] Let_def by simp
  next
    case finish
    show ?thesis
    proof (cases "gz_status ?g \<noteq> 0 \<and> gz_wroteHeader ?g \<and> gz_contentEncoding ?g = '''' \<and> shouldCompress p (gz_contentType ?g) (gz_originalSize ?g)")
      case True
      have enc: "Header_Get ?h ''Content-Encoding'' = ''''" using True g(5) by simp
      have "comp_WrapHandler gzip p r ?acts w = Ret (w\<lparr>rw_header := gzip_headers ?h, rw_status := Some c, rw_sent := gzip_headers ?h,
          rw_body := gzip (co_Level p) (map Some bs)\<rparr>)"
        unfolding finish using comp_finish_zipped [OF True] assms(3-6) by (simp add: g del: foldl_append)
      then show ?thesis
        unfolding Let_def by (intro exI conjI disjI2, assumption) (simp_all add: gunzip enc gzip_headers_Get gzip_headers_other)
    next
      case False
      have "comp_WrapHandler gzip p r ?acts w = Ret (w\<lparr>rw_header := ?h, rw_status := Some c, rw_sent := ?h, rw_body := concat bs\<rparr>)"
        unfolding finish using comp_finish_raw [OF False] assms(3-6) by (simp add: g del: foldl_append)
      then show ?thesis unfolding Let_def by simp
    qed
  qed
qed

text \<open>A compressor that marks its output with a byte, and a plugin for the witnesses.\<close>

definition toy_gzip :: compressor where
  "toy_gzip level xs = 0x1F # concat (List.map_filter id xs)"

definition sample_settings :: comp_settings where
  "sample_settings = \<lparr>co_Enabled = True, co_Level = 5, co_MinLength = 1, co_Types = [], co_typeMap = comp_defaultTypes\<rparr>"

definition gzip_request :: request where
  "gzip_request = some_request\<lparr>Header := [(''Accept-Encoding'', [''gzip''])]\<rparr>"

lemma sample_compresses:
  "Contains (Header_Get (Header gzip_request) ''Accept-Encoding'') ''gzip'' \<and> shouldCompress sample_settings ''text/html; charset=utf-8'' 2 \<and>
   Header_Get (Header_Set [] ''Content-Type'' ''text/html; charset=utf-8'') ''Content-Type'' = ''text/html; charset=utf-8'' \<and>
   Header_Get (Header_Set [] ''Content-Type'' ''text/html; charset=utf-8'') ''Content-Encoding'' = ''''"
  by code_simp

theorem compression_transparent_witness:
  "\<exists>w'. comp_WrapHandler toy_gzip sample_settings gzip_request [SetHeader ''Content-Type'' ''text/html; charset=utf-8'', Status 404, Body (bytes_of ''no'')] new_writer = Ret w' \<and>
     rw_status w' = Some 404"
proof -
  have "gunzips toy_gzip (\<lambda>bs. Some (tl bs))" by (simp add: gunzips_def toy_gzip_def)
  then show ?thesis
    using compression_transparent [of toy_gzip "\<lambda>bs. Some (tl bs)" "[SetHeader ''Content-Type'' ''text/html; charset=utf-8'']" new_writer 404
        sample_settings gzip_request "[bytes_of ''no'']"]
    by (auto simp: new_writer_def sample_settings_def)
qed

lemma gz_flushed:
  assumes "\<forall>a \<in> set hs. only_header a" "rw_status w = None"
  shows "foldl gz_act (new_gzip w) (hs @ Status c # Body b # Flushed # map Body bs) =
    (let h = foldl header_edit (rw_header w) hs in
     \<lparr>gz_w = w\<lparr>rw_header := h, rw_status := Some 200, rw_sent := h\<rparr>, gz_writer = Some b # None # map Some bs, gz_raw = b @ concat bs, gz_status = c,
      gz_wroteHeader = True, gz_originalSize = int (length b) + int (length (concat bs)), gz_contentType = Header_Get h ''Content-Type'',
      gz_contentEncoding = Header_Get h ''Content-Encoding''\<rparr>)"
  using assms by (simp add: gz_headers headers_only gz_WriteHeader_def gz_Write_def gz_Flush_def WriteHeader_def gz_bodies new_gzip_def Let_def)

text \<open>
  C40. A flush breaks the answer: when a handler flushes a compressible answer
  after its first piece, as the reverse proxy does for an upstream that sends no
  length, the client gets the status 200 whatever the handler wrote and the
  handler's headers, which announce no encoding, with a compressed body.
\<close>

theorem flushed_answer_corrupted:
  assumes "\<forall>a \<in> set hs. only_header a" "rw_status w = None" "rw_body w = []" "c \<noteq> 0" "co_Enabled p" "\<not> (co_Level p < -2 \<or> 9 < co_Level p)"
    and "Contains (Header_Get (Header r) ''Accept-Encoding'') ''gzip''" "Header_Get (foldl header_edit (rw_header w) hs) ''Content-Encoding'' = ''''"
    and "shouldCompress p (Header_Get (foldl header_edit (rw_header w) hs) ''Content-Type'') (int (length b) + int (length (concat bs)))"
  shows "\<exists>w'. comp_WrapHandler gzip p r (hs @ Status c # Body b # Flushed # map Body bs) w = Ret w' \<and> rw_status w' = Some 200 \<and>
    rw_sent w' = foldl header_edit (rw_header w) hs \<and> rw_body w' = gzip (co_Level p) (Some b # None # map Some bs)"
proof -
  let ?acts = "hs @ Status c # Body b # Flushed # map Body bs" and ?h = "foldl header_edit (rw_header w) hs"
  have "comp_WrapHandler gzip p r ?acts w = comp_finish gzip p (foldl gz_act (new_gzip w) ?acts)"
    unfolding comp_WrapHandler_def using assms(5-7) by presburger
  also have "\<dots> = Ret (w\<lparr>rw_header := gzip_headers ?h, rw_status := Some 200, rw_sent := ?h, rw_body := gzip (co_Level p) (Some b # None # map Some bs)\<rparr>)"
    unfolding gz_flushed [OF assms(1,2)] comp_finish_def Let_def gzip_headers_def [symmetric]
    using assms(3,4,8,9) by (simp add: write_status_def WriteHeader_def Write_def Let_def)
  finally show ?thesis by simp
qed

theorem flushed_answer_corrupted_witness:
  "\<exists>w'. comp_WrapHandler toy_gzip sample_settings gzip_request [SetHeader ''Content-Type'' ''text/html; charset=utf-8'', Status 404, Body (bytes_of ''no''), Flushed] new_writer =
     Ret w' \<and> rw_status w' = Some 200 \<and> rw_body w' = 0x1F # bytes_of ''no''"
  using flushed_answer_corrupted [of "[SetHeader ''Content-Type'' ''text/html; charset=utf-8'']" new_writer 404 sample_settings gzip_request "bytes_of ''no''" "[]" toy_gzip]
    sample_compresses
  by (auto simp: new_writer_def sample_settings_def toy_gzip_def map_filter_simps)

text \<open>A handler that writes nothing panics behind the compression plugin: the status 0 is refused.\<close>

lemma silent_handler_panics:
  assumes "co_Enabled p" "Contains (Header_Get (Header r) ''Accept-Encoding'') ''gzip''" "rw_status w = None"
  shows "comp_WrapHandler gzip p r [] w = Panic"
  using assms by (simp add: comp_WrapHandler_def comp_finish_def new_gzip_def write_status_def Let_def)

end
