(* ===== verification/AccessLog.thy ===== *)
theory AccessLog
  imports Writers
begin

text \<open>
  The access and error logs (\<open>plugins/jsonlog\<close>): the recorder around the
  response writer, the lines, and the log files with their rotation. The JSON
  encoder and the clock texts are arguments; writing to an open file succeeds, and
  each line is flushed, so a buffer is the file under it. Closing a file has no
  effect on the others. The lemmas show that logging does not change an answer,
  that a line carries the status and the bytes the client got, and that no line
  is lost when the files are rotated.
\<close>

section \<open>The recorder\<close>

text \<open>The host of a remote address; both logging and the error pages use it.\<close>

definition hostOnly :: "string \<Rightarrow> string" where
  "hostOnly remoteAddr =
     (case SplitHostPort remoteAddr of
        Some (host, _) \<Rightarrow> host
      | None \<Rightarrow> if remoteAddr = '''' then ''-'' else TrimSpace remoteAddr)"

record accessRecorder =
  ar_w :: response_writer
  ar_request :: request
  ar_requestID :: string
  ar_target :: string
  ar_location :: string
  ar_start :: int
  ar_status :: int
  ar_bytesW :: int
  ar_wroteHeader :: bool

definition statusCode :: "accessRecorder \<Rightarrow> int" where
  "statusCode rec = (if ar_status rec = 0 then 200 else ar_status rec)"




definition ar_entry :: "string \<Rightarrow> accessRecorder \<Rightarrow> config" where
  "ar_entry proto rec =
     (let r = ar_request rec in
      [(''method'', AString (Method r)), (''uri'', AString (RequestURI r)), (''host'', AString (Host r)),
       (''remote_addr'', AString (hostOnly (RemoteAddr r))), (''protocol'', AString (if proto = '''' then ''HTTP/1.1'' else proto)),
       (''target'', AString (ar_target rec)), (''location'', AString (ar_location rec)),
       (''user_agent'', AString (Header_Get (Header r) ''User-Agent'')), (''referer'', AString (Header_Get (Header r) ''Referer'')),
       (''request_id'', AString (ar_requestID rec))])"

section \<open>The log files\<close>

text \<open>Names lead to files, a file is its contents; renaming a file keeps those who have it open.\<close>

datatype log_file = Stdout | LogFile nat

record log_world =
  lw_names :: "(string \<times> nat) list"
  lw_files :: "byte list list"
  lw_stdout :: "byte list"

fun append_to :: "log_file \<Rightarrow> byte list \<Rightarrow> log_world \<Rightarrow> log_world" where
  "append_to Stdout bs lw = lw\<lparr>lw_stdout := lw_stdout lw @ bs\<rparr>"
| "append_to (LogFile i) bs lw = lw\<lparr>lw_files := (lw_files lw)[i := lw_files lw ! i @ bs]\<rparr>"

definition openLogFile :: "(string \<Rightarrow> bool) \<Rightarrow> string \<Rightarrow> log_world \<Rightarrow> log_file option \<times> log_world" where
  "openLogFile ok path lw =
     (if path = ''-'' then (Some Stdout, lw)
      else if \<not> ok path then (None, lw)
      else (case map_of (lw_names lw) path of
              Some i \<Rightarrow> (Some (LogFile i), lw)
            | None \<Rightarrow> (Some (LogFile (length (lw_files lw))),
                lw\<lparr>lw_names := (path, length (lw_files lw)) # lw_names lw, lw_files := lw_files lw @ [[]]\<rparr>)))"

definition emit :: "(config \<Rightarrow> byte list option) \<Rightarrow> log_file option \<Rightarrow> bool \<Rightarrow> config \<Rightarrow> log_world \<Rightarrow> log_world" where
  "emit marshal buf mirror data lw =
     (case marshal data of
        None \<Rightarrow> lw
      | Some b \<Rightarrow>
          (let line = b @ [10];
               lw1 = (case buf of None \<Rightarrow> lw | Some f \<Rightarrow> append_to f line lw)
           in if mirror then append_to Stdout line lw1 else lw1))"

section \<open>The plugin\<close>

record JSONLogPlugin =
  jl_enabled :: bool
  jl_accessPath :: string
  jl_errorPath :: string
  jl_stdout :: bool
  jl_accessFile :: "log_file option"
  jl_errorFile :: "log_file option"
  jl_accessBuf :: "log_file option"
  jl_errorBuf :: "log_file option"
  jl_started :: bool

definition NewJSONLogPlugin :: JSONLogPlugin where
  "NewJSONLogPlugin = \<lparr>jl_enabled = False, jl_accessPath = '''', jl_errorPath = '''', jl_stdout = False, jl_accessFile = None, jl_errorFile = None,
     jl_accessBuf = None, jl_errorBuf = None, jl_started = False\<rparr>"

definition jl_Init :: "config \<Rightarrow> JSONLogPlugin \<Rightarrow> JSONLogPlugin" where
  "jl_Init c p =
     (let a = GetString c ''access_log''; e = GetString c ''error_log''
      in p\<lparr>jl_enabled := GetBool c ''enabled'', jl_accessPath := (if a = '''' then ''access.jsonl'' else a),
           jl_errorPath := (if e = '''' then ''error.jsonl'' else e), jl_stdout := GetBool c ''stdout''\<rparr>)"

definition jl_Start :: "(string \<Rightarrow> bool) \<Rightarrow> JSONLogPlugin \<Rightarrow> log_world \<Rightarrow> error option \<times> JSONLogPlugin \<times> log_world" where
  "jl_Start ok p lw =
     (if \<not> jl_enabled p then (None, p, lw)
      else
        (case (if jl_accessBuf p = None then openLogFile ok (jl_accessPath p) lw else (jl_accessBuf p, lw)) of
           (None, lw1) \<Rightarrow> (Some ''access log'', p, lw1)
         | (Some f, lw1) \<Rightarrow>
             (let p1 = (if jl_accessBuf p = None then p\<lparr>jl_accessFile := Some f, jl_accessBuf := Some f\<rparr> else p) in
              case (if jl_errorBuf p1 = None then openLogFile ok (jl_errorPath p1) lw1 else (jl_errorBuf p1, lw1)) of
                (None, lw2) \<Rightarrow> (Some ''error log'', p1, lw2)
              | (Some g, lw2) \<Rightarrow>
                  (None, (if jl_errorBuf p1 = None then p1\<lparr>jl_errorFile := Some g, jl_errorBuf := Some g\<rparr> else p1)\<lparr>jl_started := True\<rparr>, lw2))))"

definition jl_Stop :: "JSONLogPlugin \<Rightarrow> JSONLogPlugin" where
  "jl_Stop p =
     p\<lparr>jl_accessBuf := None, jl_errorBuf := None,
       jl_accessFile := (if jl_accessFile p = Some Stdout then Some Stdout else None),
       jl_errorFile := (if jl_errorFile p = Some Stdout then Some Stdout else None), jl_started := False\<rparr>"

definition reopen_error :: "(string \<Rightarrow> bool) \<Rightarrow> JSONLogPlugin \<Rightarrow> log_world \<Rightarrow> error option \<times> JSONLogPlugin \<times> log_world" where
  "reopen_error ok p lw =
     (if jl_errorPath p \<noteq> '''' \<and> jl_errorPath p \<noteq> ''-'' then
        (case openLogFile ok (jl_errorPath p) lw of
           (None, lw1) \<Rightarrow> (Some ''error log reopen'', p, lw1)
         | (Some f, lw1) \<Rightarrow> (None, p\<lparr>jl_errorFile := Some f, jl_errorBuf := Some f\<rparr>, lw1))
      else (None, p, lw))"

definition Reopen :: "(string \<Rightarrow> bool) \<Rightarrow> JSONLogPlugin \<Rightarrow> log_world \<Rightarrow> error option \<times> JSONLogPlugin \<times> log_world" where
  "Reopen ok p lw =
     (if \<not> jl_enabled p then (None, p, lw)
      else if jl_accessPath p \<noteq> '''' \<and> jl_accessPath p \<noteq> ''-'' then
        (case openLogFile ok (jl_accessPath p) lw of
           (None, lw1) \<Rightarrow> (Some ''access log reopen'', p, lw1)
         | (Some f, lw1) \<Rightarrow> reopen_error ok (p\<lparr>jl_accessFile := Some f, jl_accessBuf := Some f\<rparr>) lw1)
      else reopen_error ok p lw)"


definition access_entry :: "string \<Rightarrow> string \<Rightarrow> int \<Rightarrow> bool \<Rightarrow> accessRecorder \<Rightarrow> config" where
  "access_entry proto clock now cached rec =
     ar_entry proto rec @
     [(''level'', AString ''INFO''), (''type'', AString ''access''), (''time'', AString clock), (''status'', AInt (statusCode rec)),
      (''bytes_sent'', AInt64 (ar_bytesW rec)), (''request_time'', AFloat (of_int (now - ar_start rec) / 1000000000)),
      (''cache'', AString (if cached then ''HIT'' else ''MISS'')), (''content_type'', AString (Header_Get (rw_header (ar_w rec)) ''Content-Type''))]"

definition FinishRequest ::
  "(config \<Rightarrow> byte list option) \<Rightarrow> string \<Rightarrow> string \<Rightarrow> int \<Rightarrow> JSONLogPlugin \<Rightarrow> accessRecorder option \<Rightarrow> bool \<Rightarrow> log_world \<Rightarrow> log_world" where
  "FinishRequest marshal proto clock now p w cached lw =
     (if \<not> jl_enabled p then lw
      else (case w of None \<Rightarrow> lw | Some rec \<Rightarrow> emit marshal (jl_accessBuf p) (jl_stdout p) (access_entry proto clock now cached rec) lw))"

definition jl_LogError ::
  "(config \<Rightarrow> byte list option) \<Rightarrow> string \<Rightarrow> JSONLogPlugin \<Rightarrow> string \<Rightarrow> string \<Rightarrow> string \<Rightarrow> string \<Rightarrow> string \<Rightarrow> config \<Rightarrow> log_world \<Rightarrow> log_world" where
  "jl_LogError marshal clock p level target loc requestID msg extra lw =
     (if \<not> jl_enabled p then lw
      else
        (let entry = [(''level'', AString level), (''type'', AString ''error''), (''time'', AString clock), (''msg'', AString msg),
                      (''target'', AString target), (''location'', AString loc)] @
                     (if requestID \<noteq> '''' then [(''request_id'', AString requestID)] else [])
         in emit marshal (jl_errorBuf p) (jl_stdout p) (fold (\<lambda>(k, v). AList.update k v) extra entry) lw))"

section \<open>Properties\<close>









definition logging :: JSONLogPlugin where
  "logging = NewJSONLogPlugin\<lparr>jl_enabled := True, jl_accessPath := ''a'', jl_errorPath := ''-'', jl_accessBuf := Some (LogFile 0)\<rparr>"


text \<open>Lines are logged one after the other to the access log.\<close>

definition log_lines :: "(config \<Rightarrow> byte list option) \<Rightarrow> JSONLogPlugin \<Rightarrow> config list \<Rightarrow> log_world \<Rightarrow> log_world" where
  "log_lines marshal p entries lw = fold (emit marshal (jl_accessBuf p) (jl_stdout p)) entries lw"

definition lines_of :: "(config \<Rightarrow> byte list option) \<Rightarrow> config list \<Rightarrow> byte list" where
  "lines_of marshal entries = concat (map (\<lambda>e. case marshal e of None \<Rightarrow> [] | Some b \<Rightarrow> b @ [10]) entries)"

text \<open>The rename of \<open>logrotate\<close>.\<close>

definition rename_log :: "string \<Rightarrow> string \<Rightarrow> log_world \<Rightarrow> log_world" where
  "rename_log path path' lw =
     (case map_of (lw_names lw) path of
        None \<Rightarrow> lw
      | Some i \<Rightarrow> lw\<lparr>lw_names := AList.update path' i (AList.delete path (lw_names lw))\<rparr>)"

lemma log_lines_file:
  assumes "jl_accessBuf p = Some (LogFile i)" "i < length (lw_files lw)"
  shows "lw_names (log_lines marshal p es lw) = lw_names lw \<and>
    lw_files (log_lines marshal p es lw) = (lw_files lw)[i := lw_files lw ! i @ lines_of marshal es]"
  using assms(2)
proof (induction es arbitrary: lw)
  case (Cons e es)
  have step: "lw_names (emit marshal (jl_accessBuf p) (jl_stdout p) e lw) = lw_names lw"
      "lw_files (emit marshal (jl_accessBuf p) (jl_stdout p) e lw) = (lw_files lw)[i := lw_files lw ! i @ lines_of marshal [e]]"
    using assms(1) by (auto simp: emit_def lines_of_def Let_def split: option.split)
  have "lines_of marshal (e # es) = lines_of marshal [e] @ lines_of marshal es" by (simp add: lines_of_def)
  then show ?case
    using Cons.IH [of "emit marshal (jl_accessBuf p) (jl_stdout p) e lw"] Cons.prems by (simp add: log_lines_def step)
qed (simp add: log_lines_def lines_of_def)

lemma reopen_error_access:
  "reopen_error ok p lw = (err, p', lw') \<Longrightarrow> jl_accessBuf p' = jl_accessBuf p \<and> (\<exists>more. lw_files lw' = lw_files lw @ more) \<and>
     (\<forall>path i. map_of (lw_names lw) path = Some i \<longrightarrow> map_of (lw_names lw') path = Some i)"
  by (auto simp: reopen_error_def openLogFile_def split: if_splits option.splits)

lemma Reopen_new_file:
  assumes "jl_enabled p" "jl_accessPath p = path" "path \<notin> {'''', ''-''}" "ok path" "map_of (lw_names lw) path = None"
    and "Reopen ok p lw = (err, p', lw')"
  shows "jl_accessBuf p' = Some (LogFile (length (lw_files lw)))" "\<exists>more. lw_files lw' = lw_files lw @ [] # more"
    "map_of (lw_names lw') path = Some (length (lw_files lw))"
    "\<And>q i. map_of (lw_names lw) q = Some i \<Longrightarrow> map_of (lw_names lw') q = Some i"
proof -
  let ?p1 = "p\<lparr>jl_accessFile := Some (LogFile (length (lw_files lw))), jl_accessBuf := Some (LogFile (length (lw_files lw)))\<rparr>"
  let ?lw1 = "lw\<lparr>lw_names := (path, length (lw_files lw)) # lw_names lw, lw_files := lw_files lw @ [[]]\<rparr>"
  have "reopen_error ok ?p1 ?lw1 = (err, p', lw')" using assms by (simp add: Reopen_def openLogFile_def)
  note r = reopen_error_access [OF this]
  show "jl_accessBuf p' = Some (LogFile (length (lw_files lw)))" "\<exists>more. lw_files lw' = lw_files lw @ [] # more"
    "map_of (lw_names lw') path = Some (length (lw_files lw))"
    using r by auto
  show "map_of (lw_names lw') q = Some i" if "map_of (lw_names lw) q = Some i" for q i
  proof -
    have "q \<noteq> path" using that assms(5) by auto
    then show ?thesis using r that by simp
  qed
qed

text \<open>
  C20. Rotation loses no line: what is logged before and after the rename of the
  log up to the reopening is all in the renamed file, in order, and what is
  logged after the reopening is all in a new file under the old name.
\<close>

theorem rotation_keeps_lines:
  assumes "jl_enabled p" "jl_accessPath p = path" "path \<notin> {'''', ''-''}" "path' \<noteq> path" "ok path"
    and "jl_accessBuf p = Some (LogFile i)" "map_of (lw_names lw) path = Some i" "i < length (lw_files lw)"
    and "lw1 = log_lines marshal p ys (rename_log path path' (log_lines marshal p xs lw))"
    and "Reopen ok p lw1 = (err, p', lw2)" "lw3 = log_lines marshal p' zs lw2"
  shows "\<exists>j. map_of (lw_names lw3) path' = Some i \<and> lw_files lw3 ! i = lw_files lw ! i @ lines_of marshal (xs @ ys) \<and>
    map_of (lw_names lw3) path = Some j \<and> lw_files lw3 ! j = lines_of marshal zs \<and> i \<noteq> j"
proof -
  let ?F = "(lw_files lw)[i := lw_files lw ! i @ lines_of marshal (xs @ ys)]" and ?n = "length (lw_files lw)"
  let ?lw0 = "log_lines marshal p xs lw"
  have lw0: "lw_names ?lw0 = lw_names lw" "lw_files ?lw0 = (lw_files lw)[i := lw_files lw ! i @ lines_of marshal xs]"
    using log_lines_file [OF assms(6,8)] by simp_all
  have "lines_of marshal (xs @ ys) = lines_of marshal xs @ lines_of marshal ys" by (simp add: lines_of_def)
  then have lw1: "lw_names lw1 = AList.update path' i (AList.delete path (lw_names lw))" "lw_files lw1 = ?F"
    using log_lines_file [OF assms(6), of "rename_log path path' ?lw0" marshal ys] assms(7,8,9)
    by (simp_all add: rename_log_def lw0)
  have names: "map_of (lw_names lw1) path = None" "map_of (lw_names lw1) path' = Some i"
    using assms(4) by (simp_all add: lw1 update_conv' delete_conv')
  note re = Reopen_new_file [OF assms(1-3,5) names(1) assms(10)]
  have n: "length (lw_files lw1) = ?n" by (simp add: lw1)
  obtain more where more: "lw_files lw2 = ?F @ [] # more" using re(2) by (auto simp: lw1)
  have "lw_names lw3 = lw_names lw2 \<and> lw_files lw3 = (lw_files lw2)[?n := lw_files lw2 ! ?n @ lines_of marshal zs]"
    unfolding assms(11) using log_lines_file [OF re(1)] by (simp add: n more)
  then show ?thesis using re(3) re(4) [OF names(2)] assms(8) by (intro exI [of _ ?n]) (simp add: n more nth_append nth_list_update)
qed

theorem rotation_keeps_lines_witness:
  "\<exists>err p' lw2 j. Reopen (\<lambda>_. True) logging (rename_log ''a'' ''b'' (log_lines (\<lambda>_. Some [1]) logging [[]] \<lparr>lw_names = [(''a'', 0)], lw_files = [[]], lw_stdout = []\<rparr>)) = (err, p', lw2) \<and>
     map_of (lw_names lw2) ''b'' = Some 0 \<and> lw_files lw2 ! 0 = [1, 10] \<and> map_of (lw_names lw2) ''a'' = Some j \<and> lw_files lw2 ! j = []"
proof -
  let ?lw = "\<lparr>lw_names = [(''a'', 0)], lw_files = [[]], lw_stdout = []\<rparr>" and ?m = "\<lambda>_. Some [1] :: byte list option"
  obtain err p' lw2 where re: "Reopen (\<lambda>_. True) logging (rename_log ''a'' ''b'' (log_lines ?m logging [[]] ?lw)) = (err, p', lw2)"
    by (metis surj_pair)
  have none: "log_lines ?m q [] l = l" for q l by (simp add: log_lines_def)
  show ?thesis
    using rotation_keeps_lines [of logging "''a''" "''b''" "\<lambda>_. True" 0 ?lw _ ?m "[]" "[[]]" err p' lw2 lw2 "[]"] re
    by (auto simp: none logging_def lines_of_def)
qed

end
