(* ===== verification/ErrorPage.thy ===== *)
theory ErrorPage
  imports AccessLog
begin

text \<open>
  The error pages (\<open>plugins/errorpage\<close>): the writer that replaces the body of
  error answers and the page it sends, with the template of the source. The logo
  is an embedded file and an argument, as is the time, by its fields; a request
  comes with the identifier of its context, empty when it has none. The lemmas
  show which answers are replaced and by what, that all others pass unchanged,
  and that nothing of a request can add markup to the page.
\<close>

section \<open>Texts\<close>

text \<open>\<open>strings.ReplaceAll\<close> for a text to replace that is not empty.\<close>

function ReplaceAll :: "string \<Rightarrow> string \<Rightarrow> string \<Rightarrow> string" where
  "ReplaceAll s old new =
     (case s of
        [] \<Rightarrow> []
      | c # cs \<Rightarrow>
          if old \<noteq> [] \<and> HasPrefix s old then new @ ReplaceAll (drop (length old) s) old new
          else c # ReplaceAll cs old new)"
  by pat_completeness auto
termination by (relation "measure (\<lambda>(s, _, _). length s)") auto

declare ReplaceAll.simps [simp del]

definition StatusText :: "int \<Rightarrow> string" where
  "StatusText code = (case map_of [
      (100, ''Continue''), (101, ''Switching Protocols''), (102, ''Processing''),
      (103, ''Early Hints''), (200, ''OK''), (201, ''Created''),
      (202, ''Accepted''), (203, ''Non-Authoritative Information''), (204, ''No Content''),
      (205, ''Reset Content''), (206, ''Partial Content''), (207, ''Multi-Status''),
      (208, ''Already Reported''), (226, ''IM Used''), (300, ''Multiple Choices''),
      (301, ''Moved Permanently''), (302, ''Found''), (303, ''See Other''),
      (304, ''Not Modified''), (305, ''Use Proxy''), (307, ''Temporary Redirect''),
      (308, ''Permanent Redirect''), (400, ''Bad Request''), (401, ''Unauthorized''),
      (402, ''Payment Required''), (403, ''Forbidden''), (404, ''Not Found''),
      (405, ''Method Not Allowed''), (406, ''Not Acceptable''), (407, ''Proxy Authentication Required''),
      (408, ''Request Timeout''), (409, ''Conflict''), (410, ''Gone''),
      (411, ''Length Required''), (412, ''Precondition Failed''), (413, ''Request Entity Too Large''),
      (414, ''Request URI Too Long''), (415, ''Unsupported Media Type''), (416, ''Requested Range Not Satisfiable''),
      (417, ''Expectation Failed''), (418, ''I'' @ [CHR 0x27] @ ''m a teapot''), (421, ''Misdirected Request''),
      (422, ''Unprocessable Entity''), (423, ''Locked''), (424, ''Failed Dependency''),
      (425, ''Too Early''), (426, ''Upgrade Required''), (428, ''Precondition Required''),
      (429, ''Too Many Requests''), (431, ''Request Header Fields Too Large''), (451, ''Unavailable For Legal Reasons''),
      (500, ''Internal Server Error''), (501, ''Not Implemented''), (502, ''Bad Gateway''),
      (503, ''Service Unavailable''), (504, ''Gateway Timeout''), (505, ''HTTP Version Not Supported''),
      (506, ''Variant Also Negotiates''), (507, ''Insufficient Storage''), (508, ''Loop Detected''),
      (510, ''Not Extended''), (511, ''Network Authentication Required'')] code of
      None \<Rightarrow> '''' | Some t \<Rightarrow> t)"

record utc_time =
  ut_weekday :: nat
  ut_day :: nat
  ut_month :: nat
  ut_year :: nat
  ut_hour :: nat
  ut_minute :: nat
  ut_second :: nat

definition pad :: "nat \<Rightarrow> nat \<Rightarrow> string" where
  "pad n x = replicate (n - length (show_nat x)) (CHR ''0'') @ show_nat x"

text \<open>The layout \<open>Mon, 02 Jan 2006 15:04:05 GMT\<close>; weekdays count from Sunday as 0, months from 1.\<close>

definition http_date :: "utc_time \<Rightarrow> string" where
  "http_date t =
     [''Sun'', ''Mon'', ''Tue'', ''Wed'', ''Thu'', ''Fri'', ''Sat''] ! (ut_weekday t mod 7) @ '', '' @ pad 2 (ut_day t) @ '' '' @
     [''Jan'', ''Feb'', ''Mar'', ''Apr'', ''May'', ''Jun'', ''Jul'', ''Aug'', ''Sep'', ''Oct'', ''Nov'', ''Dec''] ! ((ut_month t - 1) mod 12) @ '' '' @
     pad 4 (ut_year t) @ '' '' @ pad 2 (ut_hour t) @ '':'' @ pad 2 (ut_minute t) @ '':'' @ pad 2 (ut_second t) @ '' GMT''"

definition messageForStatus :: "int \<Rightarrow> string" where
  "messageForStatus code =
     (if code = 400 then ''The server could not understand your request.''
      else if code = 403 then ''You do not have permission to access the requested page.''
      else if code = 404 then ''The page you requested could not be found on this server.''
      else if code = 500 then ''An unexpected error occurred while processing your request.''
      else if code = 502 then ''The upstream server returned an invalid or incomplete response.''
      else if code = 503 then ''The service is temporarily unavailable. Please try again shortly.''
      else if code = 504 then ''The upstream server did not respond in time. Please try again shortly.''
      else ''An error occurred while processing your request.'')"

definition escape :: "string \<Rightarrow> string" where
  "escape s0 =
     (let s1 = ReplaceAll s0 ''&'' ''&amp;'';
          s2 = ReplaceAll s1 ''<'' ''&lt;'';
          s3 = ReplaceAll s2 ''>'' ''&gt;'';
          s4 = ReplaceAll s3 [CHR 0x22] ''&quot;''
      in ReplaceAll s4 [CHR 0x27] ''&#39;'')"

definition errorPageTemplate :: string where
  "errorPageTemplate = concat (map (\<lambda>line. line @ [CHR 0x0A])
     [''<!DOCTYPE html>'',
      ''<html lang=\"en\">'',
      ''<head>'',
      ''<meta charset=\"utf-8\">'',
      ''<meta name=\"viewport\" content=\"width=device-width, initial-scale=1\">'',
      ''<meta name=\"robots\" content=\"noindex,nofollow\">'',
      ''<title>{{CODE}} {{STATUS}}</title>'',
      ''<style>'',
      ''  * { box-sizing: border-box; margin: 0; padding: 0; }'',
      ''  body {'',
      ''    font-family: -apple-system, BlinkMacSystemFont, \"Segoe UI\", Roboto,'',
      ''      \"Helvetica Neue\", Arial, sans-serif;'',
      ''    min-height: 100vh;'',
      ''    display: flex;'',
      ''    align-items: center;'',
      ''    justify-content: center;'',
      ''    background: radial-gradient(1200px 800px at 50% -10%, #1b2a4a 0%, #0f172a 55%, #0b1222 100%);'',
      ''    color: #e2e8f0;'',
      ''    padding: 24px;'',
      ''  }'',
      ''  .card {'',
      ''    max-width: 560px;'',
      ''    width: 100%;'',
      ''    text-align: center;'',
      ''    padding: 48px 40px;'',
      ''    background: rgba(15, 23, 42, 0.72);'',
      ''    border: 1px solid rgba(148, 163, 184, 0.16);'',
      ''    border-radius: 20px;'',
      ''    backdrop-filter: blur(8px);'',
      ''    box-shadow: 0 30px 60px rgba(2, 6, 23, 0.55);'',
      ''  }'',
      ''  .logo { margin: 0 auto 28px; width: 84px; height: 84px; }'',
      ''  .logo svg { width: 100%; height: 100%; color: #7dd3fc; }'',
      ''  .code {'',
      ''    font-size: 88px;'',
      ''    font-weight: 800;'',
      ''    line-height: 1;'',
      ''    letter-spacing: 2px;'',
      ''    color: #0ea5e9;'',
      ''    text-shadow: 0 0 32px rgba(14, 165, 233, 0.4);'',
      ''  }'',
      ''  .status {'',
      ''    margin-top: 8px;'',
      ''    font-size: 22px;'',
      ''    font-weight: 600;'',
      ''    letter-spacing: 4px;'',
      ''    text-transform: uppercase;'',
      ''    color: #cbd5e1;'',
      ''  }'',
      ''  .message {'',
      ''    margin-top: 16px;'',
      ''    font-size: 15px;'',
      ''    line-height: 1.7;'',
      ''    color: #94a3b8;'',
      ''  }'',
      ''  .request {'',
      ''    margin-top: 18px;'',
      ''    font-size: 13px;'',
      ''    color: #64748b;'',
      ''  }'',
      ''  .request code {'',
      ''    color: #7dd3fc;'',
      ''    font-family: ui-monospace, SFMono-Regular, Menlo, Consolas, monospace;'',
      ''    background: rgba(125, 211, 252, 0.08);'',
      ''    padding: 3px 8px;'',
      ''    border-radius: 6px;'',
      ''  }'',
      ''  .meta {'',
      ''    margin-top: 28px;'',
      ''    padding-top: 20px;'',
      ''    border-top: 1px solid rgba(148, 163, 184, 0.14);'',
      ''    display: flex;'',
      ''    flex-wrap: wrap;'',
      ''    justify-content: center;'',
      ''    gap: 8px 18px;'',
      ''    font-size: 12px;'',
      ''    color: #64748b;'',
      ''  }'',
      ''  .meta span { white-space: nowrap; }'',
      ''  .brand {'',
      ''    margin-top: 22px;'',
      ''    font-size: 12px;'',
      ''    letter-spacing: 5px;'',
      ''    text-transform: uppercase;'',
      ''    color: #3b4a63;'',
      ''  }'',
      ''  @media (max-width: 520px) {'',
      ''    .card { padding: 36px 20px; }'',
      ''    .code { font-size: 64px; }'',
      ''  }'',
      ''</style>'',
      ''</head>'',
      ''<body>'',
      ''  <div class=\"card\">'',
      ''    <div class=\"logo\">{{LOGO}}</div>'',
      ''    <div class=\"code\">{{CODE}}</div>'',
      ''    <div class=\"status\">{{STATUS}}</div>'',
      ''    <p class=\"message\">{{MESSAGE}}</p>'',
      ''    <div class=\"request\">Request ID: <code>{{REQUEST_ID}}</code></div>'',
      ''    <div class=\"meta\">'',
      ''      <span>Time: {{TIME}}</span>'',
      ''      <span>Host: {{HOST}}</span>'',
      ''      <span>Method: {{METHOD}}</span>'',
      ''      <span>Path: {{PATH}}</span>'',
      ''      <span>Client: {{REMOTE}}</span>'',
      ''    </div>'',
      ''    <div class=\"brand\">Peretum Edge Gateway</div>'',
      ''  </div>'',
      ''</body>'',
      ''</html>''])"

section \<open>The plugin\<close>

record ErrorPagePlugin =
  ep_enabled :: bool
  ep_statuses :: "int list"
  ep_hostname :: string




definition shouldRender :: "ErrorPagePlugin \<Rightarrow> int \<Rightarrow> bool" where
  "shouldRender p code \<longleftrightarrow> code \<in> set (ep_statuses p)"


definition ep_requestID :: "string \<Rightarrow> request \<Rightarrow> string" where
  "ep_requestID ctx r =
     (if ctx \<noteq> '''' then ctx
      else if Header_Get (Header r) ''X-Request-ID'' \<noteq> '''' then Header_Get (Header r) ''X-Request-ID''
      else ''-'')"

definition renderPage :: "string \<Rightarrow> utc_time \<Rightarrow> ErrorPagePlugin \<Rightarrow> int \<Rightarrow> string \<Rightarrow> request \<Rightarrow> string" where
  "renderPage logo now p status ctx r =
     (let statusText = (if StatusText status = '''' then ''Error'' else StatusText status);
          page0 = ReplaceAll errorPageTemplate ''{{LOGO}}'' logo;
          page1 = ReplaceAll page0 ''{{CODE}}'' (show_int status);
          page2 = ReplaceAll page1 ''{{STATUS}}'' (escape statusText);
          page3 = ReplaceAll page2 ''{{MESSAGE}}'' (escape (messageForStatus status));
          page4 = ReplaceAll page3 ''{{REQUEST_ID}}'' (escape (ep_requestID ctx r));
          page5 = ReplaceAll page4 ''{{TIME}}'' (http_date now);
          page6 = ReplaceAll page5 ''{{HOST}}'' (escape (ep_hostname p));
          page7 = ReplaceAll page6 ''{{METHOD}}'' (escape (Method r));
          page8 = ReplaceAll page7 ''{{PATH}}'' (escape (Path r))
      in ReplaceAll page8 ''{{REMOTE}}'' (escape (hostOnly (RemoteAddr r))))"

section \<open>The writer\<close>

record errorPageWriter =
  ew_w :: response_writer
  ew_status :: int
  ew_wroteHeader :: bool
  ew_render :: bool
  ew_done :: bool

definition ew_WriteHeader :: "ErrorPagePlugin \<Rightarrow> errorPageWriter \<Rightarrow> int \<Rightarrow> errorPageWriter" where
  "ew_WriteHeader p ew code =
     (if ew_wroteHeader ew then ew
      else
        (let ew1 = ew\<lparr>ew_wroteHeader := True, ew_status := code\<rparr> in
         if shouldRender p code then ew1\<lparr>ew_render := True\<rparr> else ew1\<lparr>ew_w := WriteHeader (ew_w ew1) code\<rparr>))"

definition page_headers :: "string \<Rightarrow> header \<Rightarrow> header" where
  "page_headers i h =
     Header_Set (Header_Set (Header_Del (Header_Del (Header_Set h ''Content-Type'' ''text/html; charset=utf-8'') ''Content-Length'') ''Content-Encoding'')
       ''X-Request-ID'' i) ''Cache-Control'' ''no-store''"

text \<open>\<open>writePage\<close> renders the page once; a writer always has a request.\<close>

definition writePage :: "string \<Rightarrow> utc_time \<Rightarrow> ErrorPagePlugin \<Rightarrow> string \<Rightarrow> request \<Rightarrow> errorPageWriter \<Rightarrow> errorPageWriter" where
  "writePage logo now p ctx r ew =
     (if ew_done ew then ew
      else
        (let w = ew_w ew;
             w1 = WriteHeader (w\<lparr>rw_header := page_headers (ep_requestID ctx r) (rw_header w)\<rparr>) (ew_status ew)
         in ew\<lparr>ew_done := True,
               ew_w := (if Method r = ''HEAD'' then w1 else Write w1 (bytes_of (renderPage logo now p (ew_status ew) ctx r)))\<rparr>))"

definition ew_Write :: "string \<Rightarrow> utc_time \<Rightarrow> ErrorPagePlugin \<Rightarrow> string \<Rightarrow> request \<Rightarrow> errorPageWriter \<Rightarrow> byte list \<Rightarrow> errorPageWriter" where
  "ew_Write logo now p ctx r ew bs =
     (let ew1 = ew_WriteHeader p ew 200
      in if ew_render ew1 then writePage logo now p ctx r ew1 else ew1\<lparr>ew_w := Write (ew_w ew1) bs\<rparr>)"

definition ew_Flush :: "string \<Rightarrow> utc_time \<Rightarrow> ErrorPagePlugin \<Rightarrow> string \<Rightarrow> request \<Rightarrow> errorPageWriter \<Rightarrow> errorPageWriter" where
  "ew_Flush logo now p ctx r ew =
     (if ew_render ew then writePage logo now p ctx r ew else ew\<lparr>ew_w := writer_act (ew_w ew) Flushed\<rparr>)"

definition ew_finish :: "string \<Rightarrow> utc_time \<Rightarrow> ErrorPagePlugin \<Rightarrow> string \<Rightarrow> request \<Rightarrow> errorPageWriter \<Rightarrow> errorPageWriter" where
  "ew_finish logo now p ctx r ew =
     (if \<not> ew_wroteHeader ew then ew else if ew_render ew then writePage logo now p ctx r ew else ew)"

fun ew_act :: "string \<Rightarrow> utc_time \<Rightarrow> ErrorPagePlugin \<Rightarrow> string \<Rightarrow> request \<Rightarrow> errorPageWriter \<Rightarrow> wr \<Rightarrow> errorPageWriter" where
  "ew_act logo now p ctx r ew (Status code) = ew_WriteHeader p ew code"
| "ew_act logo now p ctx r ew (Body bs) = ew_Write logo now p ctx r ew bs"
| "ew_act logo now p ctx r ew Flushed = ew_Flush logo now p ctx r ew"
| "ew_act logo now p ctx r ew a = ew\<lparr>ew_w := writer_act (ew_w ew) a\<rparr>"

definition new_errorPageWriter :: "response_writer \<Rightarrow> errorPageWriter" where
  "new_errorPageWriter w = \<lparr>ew_w = w, ew_status = 0, ew_wroteHeader = False, ew_render = False, ew_done = False\<rparr>"


section \<open>Properties\<close>

definition markup :: "char \<Rightarrow> bool" where
  "markup c \<longleftrightarrow> c \<in> set [CHR ''<'', CHR ''>'', CHR 0x22, CHR 0x27]"

lemma ReplaceAll_Nil [simp]: "ReplaceAll [] old new = []"
  by (simp add: ReplaceAll.simps)

lemma ReplaceAll_markup:
  assumes "filter markup old = []" "filter markup new = []"
  shows "filter markup (ReplaceAll s old new) = filter markup s"
proof (induction s rule: length_induct)
  case (1 s)
  show ?case
  proof (cases s)
    case (Cons c cs)
    show ?thesis
    proof (cases "old \<noteq> [] \<and> HasPrefix s old")
      case True
      then obtain t where t: "s = old @ t" by (auto simp: HasPrefix_iff)
      then have "length t < length s" using True by simp
      then have "filter markup (ReplaceAll t old new) = filter markup t" using 1 by blast
      moreover have "ReplaceAll s old new = new @ ReplaceAll (drop (length old) s) old new"
        using True Cons by (subst ReplaceAll.simps) simp
      ultimately show ?thesis using assms t by simp
    next
      case False
      have "filter markup (ReplaceAll cs old new) = filter markup cs" using 1 Cons by simp
      moreover have "ReplaceAll s old new = c # ReplaceAll cs old new"
        using False Cons by (subst ReplaceAll.simps) auto
      ultimately show ?thesis using Cons by simp
    qed
  qed simp
qed

lemma ReplaceAll_char: "ReplaceAll s [c] new = concat (map (\<lambda>x. if x = c then new else [x]) s)"
  by (induction s) (simp_all add: ReplaceAll.simps [of "_ # _"] HasPrefix_def)

text \<open>What \<open>escape\<close> makes of one character, and of a whole text.\<close>

definition entity :: "char \<Rightarrow> string" where
  "entity c =
     (if c = CHR ''&'' then ''&amp;'' else if c = CHR ''<'' then ''&lt;'' else if c = CHR ''>'' then ''&gt;''
      else if c = CHR 0x22 then ''&quot;'' else if c = CHR 0x27 then ''&#39;'' else [c])"

lemma escape_entities: "escape s = concat (map entity s)"
  by (induction s) (auto simp: escape_def ReplaceAll_char entity_def Let_def)

lemma escape_no_markup: "filter markup (escape s) = []"
  unfolding escape_entities by (induction s) (auto simp: entity_def markup_def)

lemma show_nat_no_markup: "filter markup (show_nat n) = []"
proof -
  have "list_all (\<lambda>c. digit_val c = None) [CHR ''<'', CHR ''>'', CHR 0x22, CHR 0x27]" by code_simp
  then have "digit_val c = None" if "markup c" for c using that unfolding markup_def list_all_iff by blast
  then show ?thesis using show_nat_digits [of _ n] unfolding filter_empty_conv by blast
qed

lemma http_date_no_markup: "filter markup (http_date t) = []"
proof -
  have "list_all (\<lambda>s. filter markup s = []) [''Sun'', ''Mon'', ''Tue'', ''Wed'', ''Thu'', ''Fri'', ''Sat'']"
      "list_all (\<lambda>s. filter markup s = []) [''Jan'', ''Feb'', ''Mar'', ''Apr'', ''May'', ''Jun'', ''Jul'', ''Aug'', ''Sep'', ''Oct'', ''Nov'', ''Dec'']"
    by (simp_all add: markup_def)
  then have "filter markup ([''Sun'', ''Mon'', ''Tue'', ''Wed'', ''Thu'', ''Fri'', ''Sat''] ! (ut_weekday t mod 7)) = []"
      "filter markup ([''Jan'', ''Feb'', ''Mar'', ''Apr'', ''May'', ''Jun'', ''Jul'', ''Aug'', ''Sep'', ''Oct'', ''Nov'', ''Dec''] ! ((ut_month t - 1) mod 12)) = []"
    unfolding list_all_length by simp_all
  moreover have "filter markup (pad n x) = []" for n x
    by (simp add: pad_def show_nat_no_markup markup_def)
  ultimately show ?thesis unfolding http_date_def filter_append by (simp add: markup_def)
qed

text \<open>
  C16. No request can put markup on an error page: whatever its path, method,
  address and identifier are, the angle brackets and quotes of the page are
  those of the template with the logo, in their order.
\<close>

theorem error_page_no_injection:
  "filter markup (renderPage logo now p status ctx r) = filter markup (ReplaceAll errorPageTemplate ''{{LOGO}}'' logo)"
proof -
  have "filter markup (show_int status) = []" by (simp add: show_int_def show_nat_no_markup markup_def)
  moreover have "filter markup ''{{CODE}}'' = []" "filter markup ''{{STATUS}}'' = []" "filter markup ''{{MESSAGE}}'' = []" "filter markup ''{{REQUEST_ID}}'' = []"
    "filter markup ''{{TIME}}'' = []" "filter markup ''{{HOST}}'' = []" "filter markup ''{{METHOD}}'' = []" "filter markup ''{{PATH}}'' = []" "filter markup ''{{REMOTE}}'' = []"
    by (simp_all add: markup_def)
  ultimately show ?thesis
    unfolding renderPage_def Let_def by (simp only: ReplaceAll_markup escape_no_markup http_date_no_markup)
qed

text \<open>The writer passes on every answer whose status is not among those to replace.\<close>

definition passing :: "errorPageWriter \<Rightarrow> bool" where
  "passing ew \<longleftrightarrow> \<not> ew_render ew \<and> (ew_wroteHeader ew \<longrightarrow> rw_status (ew_w ew) \<noteq> None)"

fun not_replaced :: "ErrorPagePlugin \<Rightarrow> errorPageWriter \<Rightarrow> wr \<Rightarrow> bool" where
  "not_replaced p ew (Status code) \<longleftrightarrow> ew_wroteHeader ew \<or> \<not> shouldRender p code"
| "not_replaced p ew (Body bs) \<longleftrightarrow> ew_wroteHeader ew \<or> \<not> shouldRender p 200"
| "not_replaced p ew _ \<longleftrightarrow> True"

interpretation pages: writer_wrapper "ew_act logo now p ctx r" ew_w passing "not_replaced p" for logo now p ctx r
proof unfold_locales
  fix ew a
  assume good: "passing ew" and ok: "not_replaced p ew a"
  show "ew_w (ew_act logo now p ctx r ew a) = writer_act (ew_w ew) a"
    using good ok by (cases a) (auto simp: passing_def ew_WriteHeader_def ew_Write_def ew_Flush_def WriteHeader_def Write_def Let_def)
  show "passing (ew_act logo now p ctx r ew a)"
    using good ok by (cases a) (auto simp: passing_def ew_WriteHeader_def ew_Write_def ew_Flush_def WriteHeader_def Write_def Let_def)
qed

lemma other_answers_pass:
  assumes "allowed (ew_act logo now p ctx r) (not_replaced p) (new_errorPageWriter w) acts"
  shows "ew_w (ew_finish logo now p ctx r (foldl (ew_act logo now p ctx r) (new_errorPageWriter w) acts)) = foldl writer_act w acts"
  using pages.passes_all [OF _ assms] by (auto simp: passing_def new_errorPageWriter_def ew_finish_def)











end
