(* ===== verification/RequestPlugins.thy ===== *)
theory RequestPlugins
  imports Handler PluginConfig
begin

text \<open>
  The plugins for cross-origin requests, headers and rewriting (\<open>plugins/cors\<close>,
  \<open>plugins/headers\<close>, \<open>plugins/rewrite\<close>). Regular expressions are an argument: for a
  pattern that compiles, whether it matches and the result of \<open>ReplaceAllString\<close>.
  The rules of the rewrite plugin are a map, and their order in the list stands
  for the order of its iteration; the target of a redirect is taken to be clean
  already. The lemmas show which origins are allowed, and
  that the settings of a location leave the header and rewrite plugins without
  any rule.
\<close>

section \<open>Cross-origin requests\<close>

text \<open>
  The configuration of the plugin has the fields of the configuration of a
  location. The type assertions of \<open>Init\<close> panic when a setting is missing.
\<close>

definition cors_Init :: "config \<Rightarrow> CORSConfig go" where
  "cors_Init c =
     (case (map_of c ''enabled'', map_of c ''allow_credentials'', map_of c ''max_age'') of
        (Some (ABool enabled), Some (ABool credentials), Some (AInt maxAge)) \<Rightarrow>
          (let methods = GetStringSlice c ''allow_methods''
           in Ret \<lparr>cors_Enabled = enabled, cors_AllowOrigins = GetStringSlice c ''allow_origins'',
                cors_AllowMethods = (if methods = [] then [''GET'', ''POST'', ''PUT'', ''DELETE'', ''OPTIONS'', ''HEAD''] else methods),
                cors_AllowHeaders = GetStringSlice c ''allow_headers'', cors_ExposeHeaders = GetStringSlice c ''expose_headers'',
                cors_AllowCredentials = credentials, cors_MaxAge = maxAge\<rparr>)
      | _ \<Rightarrow> Panic)"

definition origin_allowed :: "CORSConfig \<Rightarrow> string \<Rightarrow> bool" where
  "origin_allowed p origin \<longleftrightarrow> list_ex (\<lambda>o'. o' = ''*'' \<or> o' = origin) (cors_AllowOrigins p)"

definition cors_answer_headers :: "CORSConfig \<Rightarrow> request \<Rightarrow> string \<Rightarrow> header \<Rightarrow> header" where
  "cors_answer_headers p r origin h0 =
     (let h1 = Header_Add h0 ''Vary'' ''Origin'';
          h2 = Header_Set h1 ''Access-Control-Allow-Origin'' origin;
          h3 = (if cors_AllowCredentials p then Header_Set h2 ''Access-Control-Allow-Credentials'' ''true'' else h2);
          h4 = (if cors_AllowMethods p \<noteq> [] then Header_Set h3 ''Access-Control-Allow-Methods'' (Join (cors_AllowMethods p) '', '') else h3);
          req = Header_Get (Header r) ''Access-Control-Request-Headers'';
          h5 = (if cors_AllowHeaders p \<noteq> [] then Header_Set h4 ''Access-Control-Allow-Headers'' (Join (cors_AllowHeaders p) '', '')
                else if req \<noteq> '''' then Header_Set h4 ''Access-Control-Allow-Headers'' req else h4);
          h6 = (if cors_ExposeHeaders p \<noteq> [] then Header_Set h5 ''Access-Control-Expose-Headers'' (Join (cors_ExposeHeaders p) '', '') else h5)
      in if cors_MaxAge p > 0 then Header_Set h6 ''Access-Control-Max-Age'' (show_int (cors_MaxAge p)) else h6)"

definition cors_BeforeProxy :: "CORSConfig \<Rightarrow> response_writer \<Rightarrow> request \<Rightarrow> error option \<times> response_writer" where
  "cors_BeforeProxy p w r =
     (let origin = Header_Get (Header r) ''Origin'' in
      if \<not> cors_Enabled p \<or> origin = '''' \<or> \<not> origin_allowed p origin then (None, w)
      else
        (let w1 = w\<lparr>rw_header := cors_answer_headers p r origin (rw_header w)\<rparr>
         in if Method r = ''OPTIONS'' then (Some ''cors_preflight'', WriteHeader w1 204) else (None, w1)))"

section \<open>Headers\<close>

definition string_map :: "config \<Rightarrow> string \<Rightarrow> (string \<times> string) list" where
  "string_map c k =
     (case map_of c k of
        Some (AMap m) \<Rightarrow> List.map_filter (\<lambda>(k, v). case v of AString s \<Rightarrow> Some (k, s) | _ \<Rightarrow> None) m
      | _ \<Rightarrow> [])"

definition string_list :: "config \<Rightarrow> string \<Rightarrow> string list" where
  "string_list c k = (case map_of c k of Some (AList xs) \<Rightarrow> string_items xs | _ \<Rightarrow> [])"

definition hp_Init :: "config \<Rightarrow> HeadersConfig \<Rightarrow> HeadersConfig" where
  "hp_Init c p =
     \<lparr>hc_RequestAdd = (case map_of c ''request_add'' of Some (AMap _) \<Rightarrow> string_map c ''request_add'' | _ \<Rightarrow> hc_RequestAdd p),
      hc_RequestRemove = hc_RequestRemove p @ string_list c ''request_remove'',
      hc_ResponseAdd = (case map_of c ''response_add'' of Some (AMap _) \<Rightarrow> string_map c ''response_add'' | _ \<Rightarrow> hc_ResponseAdd p),
      hc_ResponseRemove = hc_ResponseRemove p @ string_list c ''response_remove''\<rparr>"

definition no_headers :: HeadersConfig where
  "no_headers = \<lparr>hc_RequestAdd = [], hc_RequestRemove = [], hc_ResponseAdd = [], hc_ResponseRemove = []\<rparr>"

definition hp_BeforeProxy :: "HeadersConfig \<Rightarrow> request \<Rightarrow> request" where
  "hp_BeforeProxy p r =
     r\<lparr>Header := fold (\<lambda>k h. Header_Del h k) (hc_RequestRemove p) (fold (\<lambda>(k, v) h. Header_Set h k v) (hc_RequestAdd p) (Header r))\<rparr>"

definition hp_AfterProxy :: "HeadersConfig \<Rightarrow> response_writer \<Rightarrow> response_writer" where
  "hp_AfterProxy p w =
     w\<lparr>rw_header := fold (\<lambda>k h. Header_Del h k) (hc_ResponseRemove p) (fold (\<lambda>(k, v) h. Header_Set h k v) (hc_ResponseAdd p) (rw_header w))\<rparr>"

section \<open>Rewriting\<close>

record RewriteRule =
  rr_matches :: "string \<Rightarrow> bool"
  rr_replace :: "string \<Rightarrow> string \<Rightarrow> string"
  rr_Replacement :: string
  rr_Break :: bool
  rr_Redirect :: string

type_synonym regexps = "string \<Rightarrow> ((string \<Rightarrow> bool) \<times> (string \<Rightarrow> string \<Rightarrow> string)) option"

definition rewrite_rule :: "regexps \<Rightarrow> any \<Rightarrow> RewriteRule option" where
  "rewrite_rule re x =
     (case x of
        AMap m \<Rightarrow>
          (let pat = GetString m ''pattern''; replacement = GetString m ''replacement'' in
           if pat = '''' \<or> replacement = '''' then None
           else map_option (\<lambda>(f, g). \<lparr>rr_matches = f, rr_replace = g, rr_Replacement = replacement, rr_Break = GetBool m ''break'',
                  rr_Redirect = GetString m ''redirect''\<rparr>) (re pat))
      | _ \<Rightarrow> None)"

text \<open>\<open>Init\<close> of a new plugin, which has no rules.\<close>

definition rp_Init :: "regexps \<Rightarrow> config \<Rightarrow> RewriteRule list" where
  "rp_Init re c = (case map_of c ''rules'' of Some (AList xs) \<Rightarrow> List.map_filter (rewrite_rule re) xs | _ \<Rightarrow> [])"

fun rp_BeforeProxy :: "RewriteRule list \<Rightarrow> response_writer \<Rightarrow> request \<Rightarrow> error option \<times> response_writer \<times> request" where
  "rp_BeforeProxy [] w r = (None, w, r)"
| "rp_BeforeProxy (rule # rules) w r =
     (let newPath = rr_replace rule (Path r) (rr_Replacement rule) in
      if \<not> rr_matches rule (Path r) \<or> newPath = Path r then rp_BeforeProxy rules w r
      else if rr_Redirect rule \<noteq> '''' then
        (Some ''redirect'',
         http_Redirect w r (newPath @ (if RawQuery r \<noteq> '''' then ''?'' @ RawQuery r else '''')) (if rr_Redirect rule = ''redirect'' then 302 else 301), r)
      else if rr_Break rule then (None, w, r\<lparr>Path := newPath, EscapedPath := escape_path newPath\<rparr>)
      else rp_BeforeProxy rules w (r\<lparr>Path := newPath, EscapedPath := escape_path newPath\<rparr>))"

section \<open>Properties\<close>

text \<open>The settings of a location that enables the plugin never make \<open>Init\<close> panic.\<close>

lemma cors_Init_settings:
  "cors_Enabled v \<Longrightarrow> \<exists>p. cors_Init (cors_map v) = Ret p \<and> cors_Enabled p \<and> cors_AllowOrigins p = cors_AllowOrigins v \<and>
     cors_AllowCredentials p = cors_AllowCredentials v"
  by (simp add: cors_Init_def cors_map_def GetStringSlice_def Let_def)

lemma cors_keys:
  "list_all (\<lambda>k. CanonicalHeaderKey k \<noteq> CanonicalHeaderKey ''Access-Control-Allow-Origin'')
     [''Access-Control-Allow-Credentials'', ''Access-Control-Allow-Methods'', ''Access-Control-Allow-Headers'', ''Access-Control-Expose-Headers'', ''Access-Control-Max-Age'']"
  by code_simp

lemma cors_answer_origin: "Header_Get (rw_header (w\<lparr>rw_header := cors_answer_headers p r origin h\<rparr>)) ''Access-Control-Allow-Origin'' = origin"
  using cors_keys by (simp add: cors_answer_headers_def Header_Get_Set Let_def)

text \<open>
  C19. The plugin answers cross-origin requests as the location says: a request
  whose origin is listed, or any origin when the list has a star, gets its own
  origin back as the allowed one, a preflight is answered with 204 and stops,
  and every other answer is left as it is.
\<close>

theorem cors_settings_enforced:
  assumes "cors_Enabled v" "cors_Init (cors_map v) = Ret p"
  shows "(let origin = Header_Get (Header r) ''Origin'' in
    if origin \<noteq> [] \<and> (''*'' \<in> set (cors_AllowOrigins v) \<or> origin \<in> set (cors_AllowOrigins v)) then
      \<exists>w'. cors_BeforeProxy p w r = (if Method r = ''OPTIONS'' then (Some ''cors_preflight'', WriteHeader w' 204) else (None, w')) \<and>
        Header_Get (rw_header w') ''Access-Control-Allow-Origin'' = origin \<and>
        rw_status w' = rw_status w \<and> rw_body w' = rw_body w
    else cors_BeforeProxy p w r = (None, w))"
proof -
  have p: "cors_Enabled p" "cors_AllowOrigins p = cors_AllowOrigins v" using assms cors_Init_settings [OF assms(1)] by auto
  have allowed: "origin_allowed p o' \<longleftrightarrow> ''*'' \<in> set (cors_AllowOrigins v) \<or> o' \<in> set (cors_AllowOrigins v)" for o'
    by (auto simp: origin_allowed_def p(2) list_ex_iff)
  show ?thesis
  proof (cases "Header_Get (Header r) ''Origin'' \<noteq> [] \<and> origin_allowed p (Header_Get (Header r) ''Origin'')")
    case True
    let ?w = "w\<lparr>rw_header := cors_answer_headers p r (Header_Get (Header r) ''Origin'') (rw_header w)\<rparr>"
    have "cors_BeforeProxy p w r = (if Method r = ''OPTIONS'' then (Some ''cors_preflight'', WriteHeader ?w 204) else (None, ?w))"
      using True p(1) unfolding cors_BeforeProxy_def Let_def by presburger
    then show ?thesis using True cors_answer_origin [of p r] unfolding Let_def allowed by (auto intro!: exI [of _ ?w])
  next
    case False
    then have "cors_BeforeProxy p w r = (None, w)" unfolding cors_BeforeProxy_def Let_def by presburger
    then show ?thesis using False unfolding Let_def allowed by presburger
  qed
qed

definition any_origin :: CORSConfig where
  "any_origin = \<lparr>cors_Enabled = True, cors_AllowOrigins = [''*''], cors_AllowMethods = [], cors_AllowHeaders = [], cors_ExposeHeaders = [],
     cors_AllowCredentials = True, cors_MaxAge = 0\<rparr>"

definition cross_request :: request where
  "cross_request = some_request\<lparr>Method := ''OPTIONS'', Header := [(''Origin'', [''https://evil''])]\<rparr>"

theorem cors_settings_enforced_witness:
  "\<exists>p w'. cors_Init (cors_map any_origin) = Ret p \<and> cors_BeforeProxy p new_writer cross_request = (Some ''cors_preflight'', WriteHeader w' 204) \<and>
     Header_Get (rw_header w') ''Access-Control-Allow-Origin'' = ''https://evil''"
proof -
  have en: "cors_Enabled any_origin" "''*'' \<in> set (cors_AllowOrigins any_origin)" by (simp_all add: any_origin_def)
  obtain p where p: "cors_Init (cors_map any_origin) = Ret p" using cors_Init_settings [OF en(1)] by blast
  have "Header_Get (Header cross_request) ''Origin'' = ''https://evil'' \<and> Method cross_request = ''OPTIONS''" by code_simp
  then show ?thesis using cors_settings_enforced [OF en(1) p, of cross_request new_writer] p en(2) by auto
qed

text \<open>
  Header and rewrite settings have no effect in their plugins: \<open>Init\<close> asks for
  other types than the settings of a location have, so both plugins are left
  without a rule and change no request.
\<close>

theorem configured_rules_ignored:
  "hp_BeforeProxy (hp_Init (headers_map v) no_headers) r = r \<and> hp_AfterProxy (hp_Init (headers_map v) no_headers) w = w \<and>
   rp_BeforeProxy (rp_Init re (rewrite_map x)) w r = (None, w, r)"
proof -
  have "hp_Init (headers_map v) no_headers = no_headers"
    by (simp add: hp_Init_def headers_map_def no_headers_def string_list_def Let_def update_conv')
  then show ?thesis by (simp add: hp_BeforeProxy_def hp_AfterProxy_def no_headers_def rp_Init_def rewrite_map_def)
qed

end
