(* ===== verification/TargetsApi.thy ===== *)
theory TargetsApi
  imports Check Plugins
begin

text \<open>
  The target service and its controller (\<open>api/v1alpha1\<close>): target files that are
  listed, created, replaced, patched and deleted. A path is its list of
  components, and the files are a map from paths. YAML is an argument; a document
  decodes to a map, or to no map when it is empty. Writing a file succeeds when
  \<open>writable\<close> says so. The lemmas show what a patch does to every field of a target,
  and what each operation does to the files.
\<close>

section \<open>Files\<close>

type_synonym path = "string list"
type_synonym files = "(path \<times> byte list) list"

record yaml =
  y_target :: "byte list \<Rightarrow> TargetConfig option"
  y_of_target :: "TargetConfig \<Rightarrow> byte list option"
  y_map :: "byte list \<Rightarrow> config option option"
  y_of_map :: "config \<Rightarrow> byte list option"

text \<open>\<open>filepath.Join\<close>: the components of the name are cleaned against the directory.\<close>

fun clean_onto :: "path \<Rightarrow> string list \<Rightarrow> path" where
  "clean_onto dir [] = dir"
| "clean_onto dir (c # cs) =
     (if c = '''' \<or> c = ''.'' then clean_onto dir cs
      else if c = ''..'' \<and> dir \<noteq> [] \<and> last dir \<noteq> ''..'' then clean_onto (butlast dir) cs
      else clean_onto (dir @ [c]) cs)"

definition target_path :: "path \<Rightarrow> string \<Rightarrow> path" where
  "target_path dir serverName = clean_onto dir (SplitByte (serverName @ ''.yaml'') (CHR ''/''))"

section \<open>The service\<close>

datatype api_error = NilTarget | NoServerName | Exists | Missing | MarshalFailed | WriteFailed | UnmarshalFailed | PatchUnreadable

text \<open>\<open>ListTargets\<close> reads the entries of the directory as \<open>LoadTargets\<close> does.\<close>

definition api_ListTargets :: "yaml \<Rightarrow> path \<Rightarrow> (string \<times> bool) list option \<Rightarrow> files \<Rightarrow> (load_error, TargetConfig list) result" where
  "api_ListTargets y dir entries fs =
     (case entries of
        None \<Rightarrow> Inl (Unreadable '''')
      | Some es \<Rightarrow> load_entries (\<lambda>name. case map_of fs (dir @ [name]) of None \<Rightarrow> None | Some bs \<Rightarrow> y_target y bs) es [])"

definition write_file :: "(path \<Rightarrow> bool) \<Rightarrow> path \<Rightarrow> byte list option \<Rightarrow> files \<Rightarrow> api_error option \<times> files" where
  "write_file writable p data fs =
     (case data of
        None \<Rightarrow> (Some MarshalFailed, fs)
      | Some bs \<Rightarrow> if writable p then (None, AList.update p bs fs) else (Some WriteFailed, fs))"

definition api_CreateTarget :: "yaml \<Rightarrow> (path \<Rightarrow> bool) \<Rightarrow> path \<Rightarrow> TargetConfig option \<Rightarrow> files \<Rightarrow> api_error option \<times> files" where
  "api_CreateTarget y writable dir t fs =
     (case t of
        None \<Rightarrow> (Some NilTarget, fs)
      | Some t \<Rightarrow>
          if tc_ServerName t = '''' then (Some NoServerName, fs)
          else
            (let p = target_path dir (tc_ServerName t) in
             if map_of fs p \<noteq> None then (Some Exists, fs) else write_file writable p (y_of_target y t) fs))"

definition api_UpdateTarget :: "yaml \<Rightarrow> (path \<Rightarrow> bool) \<Rightarrow> path \<Rightarrow> string \<Rightarrow> TargetConfig option \<Rightarrow> files \<Rightarrow> api_error option \<times> files" where
  "api_UpdateTarget y writable dir serverName t fs =
     (case t of
        None \<Rightarrow> (Some NilTarget, fs)
      | Some t \<Rightarrow>
          if serverName = '''' then (Some NoServerName, fs)
          else write_file writable (target_path dir serverName) (y_of_target y (t\<lparr>tc_ServerName := serverName\<rparr>)) fs)"

text \<open>\<open>mergeMaps\<close> changes its first argument in place; the result is that argument afterwards.\<close>

fun mergeMaps :: "config \<Rightarrow> config \<Rightarrow> config" where
  "mergeMaps dst [] = dst"
| "mergeMaps dst ((k, AMap s) # src) =
     mergeMaps (AList.update k (case map_of dst k of Some (AMap d) \<Rightarrow> AMap (mergeMaps d s) | _ \<Rightarrow> AMap s) dst) src"
| "mergeMaps dst ((k, v) # src) = mergeMaps (AList.update k v dst) src"

text \<open>The file that exists may hold no map: writing a key to it panics.\<close>

definition api_PatchTarget :: "yaml \<Rightarrow> (path \<Rightarrow> bool) \<Rightarrow> path \<Rightarrow> string \<Rightarrow> byte list \<Rightarrow> files \<Rightarrow> (api_error option \<times> files) go" where
  "api_PatchTarget y writable dir serverName data fs =
     (if serverName = '''' then Ret (Some NoServerName, fs)
      else
        (let p = target_path dir serverName in
         case map_of fs p of
           None \<Rightarrow> Ret (Some Missing, fs)
         | Some bs \<Rightarrow>
             (case y_map y bs of
                None \<Rightarrow> Ret (Some UnmarshalFailed, fs)
              | Some existing \<Rightarrow>
                  (case y_map y data of
                     None \<Rightarrow> Ret (Some PatchUnreadable, fs)
                   | Some incoming \<Rightarrow>
                       (let src = (case incoming of None \<Rightarrow> [] | Some m \<Rightarrow> m) in
                        case existing of
                          None \<Rightarrow> if src = [] then Ret (write_file writable p (y_of_map y []) fs) else Panic
                        | Some dst \<Rightarrow> Ret (write_file writable p (y_of_map y (mergeMaps dst src)) fs))))))"

definition api_DeleteTarget :: "path \<Rightarrow> string \<Rightarrow> files \<Rightarrow> api_error option \<times> files" where
  "api_DeleteTarget dir serverName fs =
     (if serverName = '''' then (Some NoServerName, fs)
      else
        (let p = target_path dir serverName in
         if map_of fs p = None then (Some Missing, fs) else (None, AList.delete p fs)))"

section \<open>The controller\<close>

text \<open>The status codes; a body that does not bind gives 400, an error of the service 500.\<close>

definition service_status :: "int \<Rightarrow> api_error option \<Rightarrow> int" where
  "service_status ok err = (if err = None then ok else 500)"

definition ctl_CreateTarget :: "yaml \<Rightarrow> (path \<Rightarrow> bool) \<Rightarrow> path \<Rightarrow> TargetConfig option \<Rightarrow> files \<Rightarrow> int \<times> files" where
  "ctl_CreateTarget y writable dir bound fs =
     (case bound of
        None \<Rightarrow> (400, fs)
      | Some t \<Rightarrow> (case api_CreateTarget y writable dir (Some t) fs of (err, fs') \<Rightarrow> (service_status 201 err, fs')))"

definition ctl_UpdateTarget :: "yaml \<Rightarrow> (path \<Rightarrow> bool) \<Rightarrow> path \<Rightarrow> string \<Rightarrow> TargetConfig option \<Rightarrow> files \<Rightarrow> int \<times> files" where
  "ctl_UpdateTarget y writable dir serverName bound fs =
     (if serverName = '''' then (400, fs)
      else
        (case bound of
           None \<Rightarrow> (400, fs)
         | Some t \<Rightarrow> (case api_UpdateTarget y writable dir serverName (Some t) fs of (err, fs') \<Rightarrow> (service_status 200 err, fs'))))"

definition ctl_DeleteTarget :: "path \<Rightarrow> string \<Rightarrow> files \<Rightarrow> int \<times> files" where
  "ctl_DeleteTarget dir serverName fs =
     (if serverName = '''' then (400, fs)
      else (case api_DeleteTarget dir serverName fs of (err, fs') \<Rightarrow> (service_status 200 err, fs')))"

definition ctl_PatchTarget :: "yaml \<Rightarrow> (path \<Rightarrow> bool) \<Rightarrow> path \<Rightarrow> string \<Rightarrow> byte list option \<Rightarrow> files \<Rightarrow> (int \<times> files) go" where
  "ctl_PatchTarget y writable dir serverName body fs =
     (if serverName = '''' then Ret (400, fs)
      else
        (case body of
           None \<Rightarrow> Ret (400, fs)
         | Some data \<Rightarrow> go_bind (api_PatchTarget y writable dir serverName data fs) (\<lambda>(err, fs'). Ret (service_status 200 err, fs'))))"

definition ctl_ListTargets :: "yaml \<Rightarrow> path \<Rightarrow> (string \<times> bool) list option \<Rightarrow> files \<Rightarrow> int \<times> string list" where
  "ctl_ListTargets y dir entries fs =
     (case api_ListTargets y dir entries fs of Inl _ \<Rightarrow> (500, []) | Inr ts \<Rightarrow> (200, map tc_ServerName ts))"

section \<open>Properties\<close>

text \<open>The value at a path of keys, and the fields a patch does not mention.\<close>

fun field :: "any \<Rightarrow> string list \<Rightarrow> any option" where
  "field v [] = Some v"
| "field (AMap m) (k # ks) = (case map_of m k of None \<Rightarrow> None | Some v \<Rightarrow> field v ks)"
| "field v (k # ks) = None"

fun is_map :: "any \<Rightarrow> bool" where
  "is_map (AMap m) = True"
| "is_map _ = False"

fun untouched :: "any \<Rightarrow> string list \<Rightarrow> bool" where
  "untouched (AMap m) (k # ks) = (case map_of m k of None \<Rightarrow> True | Some v \<Rightarrow> untouched v ks)"
| "untouched v ks = False"

text \<open>A decoded document has every key once.\<close>

fun unique_keys :: "any \<Rightarrow> bool" where
  "unique_keys (AMap m) \<longleftrightarrow> distinct (map fst m) \<and> (\<forall>x \<in> set m. unique_keys (snd x))"
| "unique_keys _ \<longleftrightarrow> True"

definition merged :: "any option \<Rightarrow> any \<Rightarrow> any" where
  "merged old v = (case (old, v) of (Some (AMap d), AMap s) \<Rightarrow> AMap (mergeMaps d s) | _ \<Rightarrow> v)"

lemma merge_Cons: "mergeMaps dst ((k, v) # src) = mergeMaps (AList.update k (merged (map_of dst k) v) dst) src"
  by (cases v) (auto simp: merged_def split: option.split any.split)

lemma merge_lookup:
  "distinct (map fst src) \<Longrightarrow>
   map_of (mergeMaps dst src) k = (case map_of src k of None \<Rightarrow> map_of dst k | Some v \<Rightarrow> Some (merged (map_of dst k) v))"
proof (induction src arbitrary: dst)
  case (Cons x src)
  obtain j v where x: "x = (j, v)" by (cases x)
  have "map_of src j = None" using Cons.prems by (simp add: x map_of_eq_None_iff)
  then show ?case using Cons by (simp add: x merge_Cons update_conv' split: option.split)
qed simp

lemma unique_keys_field: "unique_keys (AMap m) \<Longrightarrow> map_of m k = Some v \<Longrightarrow> unique_keys v"
  using map_of_SomeD by fastforce

lemma untouched_no_field: "untouched v ks \<Longrightarrow> field v ks = None"
  by (induction v ks rule: untouched.induct) (auto split: option.splits)

lemma merge_sets: "unique_keys (AMap src) \<Longrightarrow> field (AMap src) (k # ks) = Some v \<Longrightarrow> \<not> is_map v \<Longrightarrow> field (AMap (mergeMaps dst src)) (k # ks) = Some v"
proof (induction ks arbitrary: k src dst)
  case Nil
  then have "map_of src k = Some v" by (auto split: option.splits)
  then show ?case using Nil by (cases v) (auto simp: merge_lookup merged_def split: option.split any.split)
next
  case (Cons j ks)
  then obtain s where s: "map_of src k = Some (AMap s)" "field (AMap s) (j # ks) = Some v"
    by (auto split: option.splits elim: field.elims)
  note uk = unique_keys_field [OF Cons.prems(1) s(1)]
  have "field (merged (map_of dst k) (AMap s)) (j # ks) = Some v"
    using Cons.IH [OF uk s(2) Cons.prems(3)] s(2) by (auto simp: merged_def split: option.split any.split)
  then show ?case using Cons.prems(1) s(1) by (simp add: merge_lookup)
qed

lemma merge_keeps: "unique_keys (AMap src) \<Longrightarrow> untouched (AMap src) ks \<Longrightarrow> field (AMap (mergeMaps dst src)) ks = field (AMap dst) ks"
proof (induction ks arbitrary: src dst)
  case (Cons k ks)
  show ?case
  proof (cases "map_of src k")
    case None
    then show ?thesis using Cons.prems(1) by (simp add: merge_lookup)
  next
    case (Some v)
    then have v: "untouched v ks" using Cons.prems(2) by simp
    then obtain s where s: "v = AMap s" by (cases v; cases ks) auto
    note uk = unique_keys_field [OF Cons.prems(1) Some]
    have "field (merged old v) ks = (case old of None \<Rightarrow> None | Some u \<Rightarrow> field u ks)" for old
    proof (cases old)
      case (Some u)
      show ?thesis
      proof (cases u)
        case (AMap d)
        then show ?thesis using Cons.IH [of s d] uk v s Some by (simp add: merged_def)
      qed (use v s Some untouched_no_field [OF v] in \<open>cases ks; simp add: merged_def\<close>)+
    qed (use untouched_no_field [OF v] in \<open>simp add: merged_def\<close>)
    then show ?thesis using Cons.prems(1) Some by (simp add: merge_lookup split: option.split)
  qed
qed simp

text \<open>
  C15. A patch changes what it says and nothing else: when the merged target
  survives its encoding, the file afterwards decodes to a target in which every
  value of the patch that is not itself a map stands at its path, every path
  the patch does not reach is as before, and no other file changes.
\<close>

theorem patch_merges:
  assumes "serverName \<noteq> ''''" "p = target_path dir serverName" "map_of fs p = Some bs" "y_map y bs = Some (Some dst)" "y_map y data = Some (Some src)"
    and "unique_keys (AMap src)" "y_of_map y (mergeMaps dst src) = Some bs'" "y_map y bs' = Some (Some (mergeMaps dst src))" "writable p"
  shows "\<exists>fs' m. api_PatchTarget y writable dir serverName data fs = Ret (None, fs') \<and> map_of fs' p = Some bs' \<and> y_map y bs' = Some (Some m) \<and>
    (\<forall>k ks v. field (AMap src) (k # ks) = Some v \<and> \<not> is_map v \<longrightarrow> field (AMap m) (k # ks) = Some v) \<and>
    (\<forall>ks. untouched (AMap src) ks \<longrightarrow> field (AMap m) ks = field (AMap dst) ks) \<and> (\<forall>q. q \<noteq> p \<longrightarrow> map_of fs' q = map_of fs q)"
proof -
  have "api_PatchTarget y writable dir serverName data fs = Ret (None, AList.update p bs' fs)"
    using assms(1,3-5,7,9) by (simp add: api_PatchTarget_def Let_def assms(2) [symmetric] write_file_def)
  then show ?thesis
    using merge_sets [OF assms(6), of _ _ _ dst] merge_keeps [OF assms(6), of _ dst] assms(8) by (auto simp: update_conv')
qed

text \<open>A target with two fields, a patch of one of them, and YAML for these documents.\<close>

definition doc_yaml :: yaml where
  "doc_yaml = \<lparr>y_target = \<lambda>_. None, y_of_target = \<lambda>_. None,
     y_map = (\<lambda>bs. if bs = [1] then Some (Some [(''server_name'', AString ''h''), (''tls'', AMap [(''cert'', AString ''a'')])])
                   else if bs = [2] then Some (Some [(''tls'', AMap [(''key'', AString ''b'')])])
                   else Some (Some [(''server_name'', AString ''h''), (''tls'', AMap [(''cert'', AString ''a''), (''key'', AString ''b'')])])),
     y_of_map = \<lambda>_. Some [3]\<rparr>"

theorem patch_merges_witness:
  "\<exists>fs' m. api_PatchTarget doc_yaml (\<lambda>_. True) [''config.d''] ''h'' [2] [([''config.d'', ''h.yaml''], [1])] = Ret (None, fs') \<and>
     y_map doc_yaml [3] = Some (Some m) \<and> field (AMap m) [''tls'', ''key''] = Some (AString ''b'') \<and> field (AMap m) [''tls'', ''cert''] = Some (AString ''a'')"
proof -
  let ?dst = "[(''server_name'', AString ''h''), (''tls'', AMap [(''cert'', AString ''a'')])]" and ?src = "[(''tls'', AMap [(''key'', AString ''b'')])]"
  have path: "target_path [''config.d''] ''h'' = [''config.d'', ''h.yaml'']" by code_simp
  have docs: "y_map doc_yaml [1] = Some (Some ?dst)" "y_map doc_yaml [2] = Some (Some ?src)" "y_of_map doc_yaml (mergeMaps ?dst ?src) = Some [3]"
      "y_map doc_yaml [3] = Some (Some (mergeMaps ?dst ?src))" "unique_keys (AMap ?src)"
    by (simp_all add: doc_yaml_def)
  obtain fs' m where r: "api_PatchTarget doc_yaml (\<lambda>_. True) [''config.d''] ''h'' [2] [([''config.d'', ''h.yaml''], [1])] = Ret (None, fs')"
      "y_map doc_yaml [3] = Some (Some m)"
      "\<forall>k ks v. field (AMap ?src) (k # ks) = Some v \<and> \<not> is_map v \<longrightarrow> field (AMap m) (k # ks) = Some v"
      "\<forall>ks. untouched (AMap ?src) ks \<longrightarrow> field (AMap m) ks = field (AMap ?dst) ks"
    using patch_merges [OF _ path [symmetric] _ docs(1,2,5,3,4), of "[([''config.d'', ''h.yaml''], [1])]" "\<lambda>_. True"] by auto
  have "field (AMap m) [''tls'', ''key''] = Some (AString ''b'')" using r(3) by simp
  moreover have "field (AMap m) [''tls'', ''cert''] = Some (AString ''a'')" using r(4) [rule_format, of "[''tls'', ''cert'']"] by simp
  ultimately show ?thesis using r(1,2) by blast
qed

text \<open>A target that exists is not overwritten by creating it, and deleting it removes its file only.\<close>

lemma create_refuses_existing:
  "map_of fs (target_path dir (tc_ServerName t)) \<noteq> None \<Longrightarrow> snd (ctl_CreateTarget y writable dir (Some t) fs) = fs \<and> fst (ctl_CreateTarget y writable dir (Some t) fs) = 500"
  by (auto simp: ctl_CreateTarget_def api_CreateTarget_def service_status_def Let_def)

lemma delete_removes:
  "ctl_DeleteTarget dir serverName fs = (200, fs') \<Longrightarrow> map_of fs' = (map_of fs)(target_path dir serverName := None)"
  by (auto simp: ctl_DeleteTarget_def api_DeleteTarget_def service_status_def Let_def delete_conv split: if_splits)

text \<open>A server name can leave the directory, and a patch of an empty file panics.\<close>

lemma name_leaves_directory: "target_path [''config.d''] ''../peretum'' = [''peretum.yaml'']"
  by code_simp

lemma patch_of_empty_panics:
  assumes "serverName \<noteq> ''''" "map_of fs (target_path dir serverName) = Some bs" "y_map y bs = Some None" "y_map y data = Some (Some (x # src))"
  shows "ctl_PatchTarget y writable dir serverName (Some data) fs = Panic"
  using assms by (simp add: ctl_PatchTarget_def api_PatchTarget_def Let_def)

end
