(* ===== verification/Spec2Isabelle.thy ===== *)
theory Spec2Isabelle
  imports HealthCheck LruCache Purges Config Router Flights HandlerProps WiringProps ClusterProps WafProps Compression ErrorPage RequestPlugins TargetsApi
begin

text \<open>
  Verification of the peretum edge proxy, a reverse proxy in Go with load
  balancing, a disk cache, plugins, and a control plane that sends the
  configuration of targets to edges over a message stream.

  \<^bold>\<open>The program.\<close> A server (\<open>internal/proxyserver\<close>) reads a global configuration and
  a directory of targets (\<open>internal/config\<close>), compiles every target to a load
  balancer (\<open>internal/loadbalancer\<close>) and one handler for each location
  (\<open>internal/handler\<close>), and routes requests by host and path (\<open>internal/router\<close>).
  A handler runs the hooks of the plugins (\<open>internal/plugin/manager\<close>, \<open>plugins\<close>),
  answers from the disk cache (\<open>internal/cache/disk\<close>), or proxies to an upstream and
  stores the answer. On a lazy edge the targets are rows of a key-value store
  (\<open>internal/cluster\<close>) that events of the control plane (\<open>internal/controlplane\<close>)
  keep up to date; a handler is built at the first request of its host and kept
  in an LRU cache. Cache purges travel as events, too.

  \<^bold>\<open>Conventions.\<close> A struct is a record, a Go map an association list (its order
  stands for the random iteration order), a pointer a position in a list or an
  address of an explicit store, a nil slice or map the empty list, an error a value of
  an option or sum type. A function that can panic or run for ever returns a
  value of \<^typ>\<open>'a go\<close>. The clock, random bytes, the outcome of a file write or
  a network exchange, and the choice of the scheduler are arguments. A critical
  section is one step. Integers are unbounded except where the code depends on
  their width: the counters of round robin, CRC-32, SHA-256, the Maglev table
  and the binary metadata use words.

  \<^bold>\<open>Code from outside the repository\<close> is an argument with named laws: the key-value
  database (record pebble, laws pebble_laws, instance list_db in TargetStore), the
  stream consumer (consumer, stream_laws, list_consumer in Cluster), the token
  bucket (rate_limiter in RateLimit), the multi-pattern search of the firewall
  (find_laws in WafProps, instance naive_env), the compressor (gunzips in
  Compression), regular expressions, GeoIP readers, JSON and YAML.

  \<^bold>\<open>Theories.\<close>
  \<^item> Prelude, GoStd, Http, Net: outcomes, and the parts of the Go library that the
    sources use: strings, numbers, headers, requests, writers, addresses.
  \<^item> LoadBalancer, Algorithms, Crc32, Maglev, Balancers (\<open>loadbalancer.go\<close>): the four
    algorithms behind the locales load_balancer, healthy_balancer and
    probing_balancer. A healthy upstream is chosen when there is one, failing
    requests reach every upstream, round robin is fair, the Maglev table is balanced.
    HealthCheck (\<open>healthcheck.go\<close>): a round of probes.
  \<^item> CacheKeys, Metadata, DiskShard, DiskCache, DiskInvariant, DiskProps
    (\<open>internal/cache/disk\<close>): the accounting of sizes is exact after every sequence of
    operations, a stored answer is served back, metadata survives encoding, eviction
    ends. Purges (\<open>purge.go\<close>, \<open>internal/cluster/purge.go\<close>, \<open>api/v1alpha1\<close>).
  \<^item> LruCache (\<open>internal/cluster/lru.go\<close>): the linked list refines a recency list.
    Flights (\<open>internal/router/lazy.go\<close>): every interleaving of requests as a step
    relation; one load per host at a time, and every request ends.
  \<^item> Config, Router (\<open>internal/config\<close>, \<open>internal/router\<close>): names, listeners, matching.
  \<^item> Plugins, Transport, Handler, HandlerProps (\<open>plugins/base\<close>, \<open>manager.go\<close>,
    \<open>internal/handler\<close>): the request path from the first hook to the stored answer.
  \<^item> Wiring, Check, WiringProps (\<open>router_wiring.go\<close>, \<open>lifecycle.go\<close>, \<open>server.go\<close>,
    \<open>tls_listeners.go\<close>, \<open>check.go\<close>): starting, reloading and stopping a server.
  \<^item> TargetStore, Cluster, ClusterProps (\<open>targetstore.go\<close>, \<open>nats_sync.go\<close>,
    \<open>lazy_cluster.go\<close>, \<open>controlplane.go\<close>): from the directory of the control plane to
    the routes of an edge.
  \<^item> PluginConfig (\<open>plugin_config.go\<close>, \<open>plugins/registry\<close>), RateLimit
    (\<open>plugins/ratelimit\<close>), Waf and WafProps (\<open>plugins/waf\<close>): the compiled rule sets
    decide as the policy is written, and a policy of the configuration is enforced.
  \<^item> Writers with the locale writer_wrapper, Compression (\<open>plugins/compression\<close>), AccessLog
    (\<open>plugins/jsonlog\<close>), ErrorPage (\<open>plugins/errorpage\<close>): the plugins that wrap the
    response writer. RequestPlugins (\<open>plugins/cors\<close>, \<open>plugins/headers\<close>,
    \<open>plugins/rewrite\<close>): the plugins that change requests.
  \<^item> TargetsApi (\<open>api/v1alpha1\<close>): the target files of the API; a patch sets what it
    mentions and keeps the rest.

  \<^bold>\<open>Bounds.\<close> Loops of the source are structural recursions or functions with a
  termination proof; eviction ends because every turn removes an entry. The loop
  that catches up with the stream is a partial function, and ClusterProps shows
  that it returns on a stream whose messages apply. Flights uses no fuel: a measure
  bounds the steps that remain. The permutations and the table of Maglev have the
  65537 places of the source.

  \<^bold>\<open>Divergences.\<close> Where the code does not do what it means to, a theorem states
  what it does: weights have no effect (Algorithms), purged answers are still
  served (Purges), an update during a load is lost (ClusterProps), a reload orphans
  health checkers (WiringProps), an edge of a stream has no firewall and the settings
  of one location apply to all (PluginConfig), an inspected body is lost (WafProps), a
  flushed answer is corrupted by compression (Compression), the header and rewrite
  plugins ignore their settings (RequestPlugins).

  \<^bold>\<open>Not modelled.\<close> The process level: signals, goroutines of the serve loops and
  tickers, command line (\<open>cmd\<close>, \<open>main.go\<close>, \<open>tools\<close>, \<open>reload.go\<close>), the set-up of the API
  server, sockets and TLS handshakes, the self-signed certificate. The metrics
  exporter (\<open>plugins/prometheus\<close>) only calls its library. The optimizer
  (\<open>plugins/optimizer\<close>) calls minifiers and image codecs and scales in floating point;
  its effect on a body is an argument of the target handler. Parsing of sizes and
  durations, and locks, are left out as well.
\<close>

end
